(* ===== verification/Prelude_Lib.thy ===== *)
theory Prelude_Lib
  imports Main "HOL-Library.Word" "HOL-Library.Finite_Map" "HOL-Library.Sublist"
begin

text \<open>
  Prelude of the development: Rust's \<open>Result\<close> as a sum type, the durations of
  \<open>std::time\<close>, byte strings, and the lemmas on lists and finite maps that several
  components share.

  A Rust \<open>Result<T, E>\<close> is \<open>'e + 't\<close> (\<open>Err e\<close> is \<open>Inl e\<close>, \<open>Ok v\<close> is \<open>Inr v\<close>).
  A Rust \<open>String\<close> is the list of its UTF-8 bytes, each as a \<open>char\<close>; a request or
  artifact body is a list of 8-bit words.
\<close>

named_theorems eval_model "definitions and equations that evaluate the model on concrete inputs"

section \<open>Results\<close>

abbreviation Ok :: "'a \<Rightarrow> 'e + 'a" where
  "Ok \<equiv> Inr"

abbreviation Err :: "'e \<Rightarrow> 'e + 'a" where
  "Err \<equiv> Inl"

fun unwrap_or :: "'a \<Rightarrow> 'e + 'a \<Rightarrow> 'a" where
  "unwrap_or d (Inr v) = v"
| "unwrap_or d (Inl e) = d"

fun is_ok :: "'e + 'a \<Rightarrow> bool" where
  "is_ok (Inr v) = True"
| "is_ok (Inl e) = False"

lemma is_ok_iff: "is_ok r \<longleftrightarrow> (\<exists>v. r = Ok v)"
  by (cases r) auto

lemma unwrap_or_False: "unwrap_or False r \<longleftrightarrow> r = Ok True"
  by (cases r) auto

section \<open>Durations and instants\<close>

text \<open>
  A \<open>std::time::Duration\<close> and an \<open>Instant\<close> (the time since process start) have nanosecond
  resolution. \<open>Instant::saturating_duration_since\<close> is subtraction on \<open>nat\<close>, which stops
  at zero.
\<close>

type_synonym duration = nat
type_synonym instant = nat

definition from_secs :: "nat \<Rightarrow> duration" where
  "from_secs n = n * 1000000000"

definition from_millis :: "nat \<Rightarrow> duration" where
  "from_millis n = n * 1000000"

definition as_secs :: "duration \<Rightarrow> nat" where
  "as_secs d = d div 1000000000"

definition as_millis :: "duration \<Rightarrow> nat" where
  "as_millis d = d div 1000000"

definition saturating_duration_since :: "instant \<Rightarrow> instant \<Rightarrow> duration" where
  "saturating_duration_since now earlier = now - earlier"

lemma from_secs_mono [simp]: "from_secs m \<le> from_secs n \<longleftrightarrow> m \<le> n"
  by (simp add: from_secs_def)

lemma from_secs_less [simp]: "from_secs m < from_secs n \<longleftrightarrow> m < n"
  by (simp add: from_secs_def)

lemma as_secs_from_secs [simp]: "as_secs (from_secs n) = n"
  by (simp add: as_secs_def from_secs_def)

section \<open>Byte strings\<close>

type_synonym bytes = "8 word list"

definition strip_prefix :: "string \<Rightarrow> string \<Rightarrow> string option" where
  "strip_prefix p s = (if prefix p s then Some (drop (length p) s) else None)"

definition starts_with :: "string \<Rightarrow> string \<Rightarrow> bool" where
  "starts_with p s = prefix p s"

lemma strip_prefix_Some_iff: "strip_prefix p s = Some r \<longleftrightarrow> s = p @ r"
  by (auto simp: strip_prefix_def prefix_def)

lemma strip_prefix_append [simp]: "strip_prefix p (p @ r) = Some r"
  by (simp add: strip_prefix_Some_iff)

section \<open>Finite maps\<close>

lemma fcard_ffilter_le: "fcard (ffilter P A) \<le> fcard A"
  by (intro fcard_mono) auto

lemma fcard_finsert_Suc: "fcard (finsert a A) \<le> Suc (fcard A)"
  by (simp add: fcard_finsert_if)

end
