(* ===== verification/Storage.thy ===== *)
theory Storage
  imports Prelude_Lib
begin

text \<open>
  The storage domain (\<open>src/domain/storage.rs\<close>): the probe key, the storage errors and the
  \<open>StorageProvider\<close> trait, together with what every storage operation acts on: request and
  response bodies, the log, and the process (\<open>machine\<close>) with its clock.
\<close>

section \<open>Keys and errors\<close>

definition PROBE_KEY :: string where
  "PROBE_KEY = ''_selfprobe.nx-cache-server''"

datatype storage_error = NotFound | AlreadyExists | OperationFailed | ClientAbort

fun storage_error_display :: "storage_error \<Rightarrow> string" where
  "storage_error_display NotFound = ''Object not found''"
| "storage_error_display AlreadyExists = ''Object already exists''"
| "storage_error_display OperationFailed = ''Storage operation failed''"
| "storage_error_display ClientAbort = ''Client aborted upload''"

section \<open>Bodies\<close>

text \<open>
  A body is what a reader observes of it: chunks, each arriving a while after the reader
  asked for it, until the end of the stream (\<open>Done\<close>), a read error (\<open>Broken\<close>: the peer
  disconnected), or for ever nothing (\<open>Stalled\<close>: the peer is connected and silent).
\<close>

datatype body = Done | Stalled | Broken duration | Chunk duration bytes body

fun body_bytes :: "body \<Rightarrow> bytes" where
  "body_bytes (Chunk d bs b) = bs @ body_bytes b"
| "body_bytes _ = []"

fun chunk_count :: "body \<Rightarrow> nat" where
  "chunk_count (Chunk d bs b) = Suc (chunk_count b)"
| "chunk_count _ = 0"

fun terminates :: "body \<Rightarrow> bool" where
  "terminates (Chunk d bs b) = terminates b"
| "terminates Stalled = False"
| "terminates _ = True"

fun complete :: "body \<Rightarrow> bool" where
  "complete (Chunk d bs b) = complete b"
| "complete Done = True"
| "complete _ = False"

fun max_chunk :: "body \<Rightarrow> nat" where
  "max_chunk (Chunk d bs b) = max (length bs) (max_chunk b)"
| "max_chunk _ = 0"

lemma complete_terminates: "complete b \<Longrightarrow> terminates b"
  by (induction b) auto

section \<open>The log\<close>

text \<open>
  An error of the AWS SDK, as far as the code looks into it: the service error, the status
  of the raw response, and the two request ids.
\<close>

datatype service_error = Head_Not_Found | No_Such_Key | Other_Service_Error string

record sdk_error =
  as_service_error :: "service_error option"
  raw_response_status :: "nat option"
  request_id :: "string option"
  extended_request_id :: "string option"

text \<open>The \<open>tracing\<close> events the program emits, one constructor per call site's message.\<close>

datatype log_event =
    S3_Failed string string sdk_error
  | Client_Aborted string nat
  | Missing_Upload_Id string
  | Missing_ETag string nat
  | Region_Missing
  | Timeout_Exceeds_Ttl nat nat
  | Unreachable_At_Startup
  | Store_Declined string storage_error
  | Server_Error_Event string
  | Request_Completed string string nat duration "64 word option"
  | Self_Probe duration bool
  | Server_Starting
  | Server_Running

datatype level = ERROR | WARN | INFO

fun level_of :: "log_event \<Rightarrow> level" where
  "level_of (S3_Failed _ _ _) = ERROR"
| "level_of (Client_Aborted _ _) = WARN"
| "level_of (Missing_Upload_Id _) = ERROR"
| "level_of (Missing_ETag _ _) = ERROR"
| "level_of Region_Missing = ERROR"
| "level_of (Timeout_Exceeds_Ttl _ _) = WARN"
| "level_of Unreachable_At_Startup = WARN"
| "level_of (Store_Declined _ _) = ERROR"
| "level_of (Server_Error_Event _) = ERROR"
| "level_of (Request_Completed _ _ _ _ _) = INFO"
| "level_of (Self_Probe _ _) = INFO"
| "level_of Server_Starting = INFO"
| "level_of Server_Running = INFO"

section \<open>The machine\<close>

text \<open>
  \<open>clock\<close> is what \<open>Instant::now()\<close> reads, \<open>log\<close> the events emitted so far, oldest first,
  and \<open>backend\<close> the state of the world behind the storage (the S3 service, or the counter
  of a test mock). \<open>calls\<close> is a history variable of the model, the S3 requests issued so
  far: the program keeps no such list.
\<close>

datatype s3_request =
    HeadObject string string
  | PutObject string string bytes
  | CreateMultipartUpload string string
  | UploadPart string string string "32 word" "64 word" bytes
  | CompleteMultipartUpload string string string "(32 word \<times> string) list"
  | AbortMultipartUpload string string string
  | GetObject string string

record 's machine =
  clock :: instant
  log :: "log_event list"
  calls :: "s3_request list"
  backend :: 's

definition emit :: "log_event \<Rightarrow> 's machine \<Rightarrow> 's machine" where
  "emit e m = m\<lparr>log := log m @ [e]\<rparr>"

definition elapse :: "duration \<Rightarrow> 's machine \<Rightarrow> 's machine" where
  "elapse d m = m\<lparr>clock := clock m + d\<rparr>"

lemma emit_simps [simp]:
  "clock (emit e m) = clock m" "log (emit e m) = log m @ [e]"
  "calls (emit e m) = calls m" "backend (emit e m) = backend m"
  by (simp_all add: emit_def)

lemma elapse_simps [simp]:
  "clock (elapse d m) = clock m + d" "log (elapse d m) = log m"
  "calls (elapse d m) = calls m" "backend (elapse d m) = backend m"
  by (simp_all add: elapse_def)

text \<open>
  A machine is later than another when its clock has not gone back and its log and call
  history extend the other's: what every operation of the program guarantees.
\<close>

definition later :: "'s machine \<Rightarrow> 's machine \<Rightarrow> bool" where
  "later m m' \<longleftrightarrow> clock m \<le> clock m' \<and> prefix (log m) (log m') \<and> prefix (calls m) (calls m')"

lemma later_refl [simp]: "later m m"
  by (simp add: later_def)

lemma later_trans [trans]: "later m m' \<Longrightarrow> later m' m'' \<Longrightarrow> later m m''"
  by (auto simp: later_def dest: prefix_order.trans)

lemma later_emit [simp]: "later m (emit e m)"
  by (simp add: later_def)

lemma later_elapse [simp]: "later m (elapse d m)"
  by (simp add: later_def)

lemma later_emitI: "later m m' \<Longrightarrow> later m (emit e m')"
  by (erule later_trans) simp

lemma later_elapseI: "later m m' \<Longrightarrow> later m (elapse d m')"
  by (erule later_trans) simp

lemma later_clock: "later m m' \<Longrightarrow> clock m \<le> clock m'"
  by (simp add: later_def)

section \<open>The \<open>StorageProvider\<close> trait\<close>

text \<open>
  An implementation of the trait is a record of its three methods. \<open>store\<close> is lent the
  reader of the request body and leaves the unread remainder; \<open>None\<close> means that it never
  returns, as when the body stalls and there is no timeout on reading it.
\<close>

record 's storage_provider =
  exists :: "string \<Rightarrow> 's machine \<Rightarrow> (storage_error + bool) \<times> 's machine"
  store :: "string \<Rightarrow> body \<Rightarrow> 's machine \<Rightarrow> ((storage_error + unit) \<times> body \<times> 's machine) option"
  retrieve :: "string \<Rightarrow> 's machine \<Rightarrow> (storage_error + body) \<times> 's machine"

text \<open>
  What the server relies on in an implementation: operations only move the machine
  forwards; \<open>store\<close> returns on every body that ends, leaves a remainder of the body it was
  given, has read all of it when it reports success, and has met its end when it reports
  that the client is gone.
\<close>

locale storage_contract =
  fixes provider :: "'s storage_provider"
  assumes exists_later: "exists provider k m = (r, m') \<Longrightarrow> later m m'"
    and retrieve_later: "retrieve provider k m = (r', m') \<Longrightarrow> later m m'"
    and store_later: "store provider k b m = Some (s, rest, m') \<Longrightarrow> later m m'"
    and store_returns: "terminates b \<Longrightarrow> \<exists>s rest m'. store provider k b m = Some (s, rest, m')"
    and store_remainder:
      "store provider k b m = Some (s, rest, m') \<Longrightarrow> \<exists>taken. body_bytes b = taken @ body_bytes rest"
    and store_terminates: "store provider k b m = Some (s, rest, m') \<Longrightarrow> terminates b \<Longrightarrow> terminates rest"
    and store_ok_reads_all: "store provider k b m = Some (Ok (), rest, m') \<Longrightarrow> rest = Done"
    and store_abort_ends: "store provider k b m = Some (Err ClientAbort, rest, m') \<Longrightarrow> rest = Done"

end
