(* ===== verification/Probe_Cache.thy ===== *)
theory Probe_Cache
  imports Storage
begin

text \<open>
  The existence cache of GET (\<open>src/server/probe_cache.rs\<close>), as one caller at a time sees it:
  the slots and their lifetimes, \<open>slot\<close>, \<open>sweep\<close>, \<open>mark_present\<close> and \<open>present\<close>. The
  interleavings of concurrent callers are in \<open>Single_Flight\<close>.

  A slot's \<open>OnceCell<bool>\<close> is what its \<open>get\<close> returns. Running a probe through the cell
  (\<open>OnceCell::get_or_try_init\<close> of tokio) is an argument, with its documented behaviour as
  \<open>once_cell_spec\<close>. The mutex around the map is held for the whole of \<open>slot\<close> and of
  \<open>mark_present\<close>, so each is one step.
\<close>

section \<open>State\<close>

definition NEGATIVE_TTL :: duration where
  "NEGATIVE_TTL = from_secs 5"

definition POSITIVE_TTL :: duration where
  "POSITIVE_TTL = from_secs 60"

definition UNRESOLVED_TTL :: duration where
  "UNRESOLVED_TTL = from_secs 60"

definition SWEEP_THRESHOLD :: nat where
  "SWEEP_THRESHOLD = 10000"

record slot =
  present_cell :: "bool option"
  created :: instant

type_synonym probe_cache = "(string, slot) fmap"

definition ttl :: "bool option \<Rightarrow> duration" where
  "ttl cell = (case cell of None \<Rightarrow> UNRESOLVED_TTL | Some True \<Rightarrow> POSITIVE_TTL | Some False \<Rightarrow> NEGATIVE_TTL)"

section \<open>Operations\<close>

text \<open>\<open>Slot::live\<close>.\<close>

definition live :: "instant \<Rightarrow> 'a slot_scheme \<Rightarrow> bool" where
  "live now s =
     (let age = saturating_duration_since now (created s) in
      case present_cell s of
        None \<Rightarrow> age < UNRESOLVED_TTL
      | Some True \<Rightarrow> age < POSITIVE_TTL
      | Some False \<Rightarrow> age < NEGATIVE_TTL)"

text \<open>\<open>ProbeCache::sweep\<close>.\<close>

definition live_at :: "instant \<Rightarrow> probe_cache \<Rightarrow> string \<Rightarrow> bool" where
  "live_at now c k = (case fmlookup c k of None \<Rightarrow> False | Some s \<Rightarrow> live now s)"

definition sweep :: "instant \<Rightarrow> probe_cache \<Rightarrow> probe_cache" where
  "sweep now c = (if fcard (fmdom c) > SWEEP_THRESHOLD then fmfilter (live_at now c) c else c)"

text \<open>\<open>ProbeCache::mark_present\<close>, at the instant it reads.\<close>

definition mark_present :: "string \<Rightarrow> instant \<Rightarrow> probe_cache \<Rightarrow> probe_cache" where
  "mark_present hash now c =
     fmupd hash \<lparr>present_cell = Some True, created = now\<rparr> (sweep now c)"

text \<open>\<open>ProbeCache::slot\<close>: the slot handed out and the new map.\<close>

definition slot_for :: "string \<Rightarrow> instant \<Rightarrow> probe_cache \<Rightarrow> slot \<times> probe_cache" where
  "slot_for hash now c =
     (case fmlookup c hash of
        Some existing \<Rightarrow>
          if live now existing then (existing, c)
          else (let s = \<lparr>present_cell = None, created = now\<rparr>
                in (s, fmupd hash s (sweep now c)))
      | None \<Rightarrow>
          (let s = \<lparr>present_cell = None, created = now\<rparr>
           in (s, fmupd hash s (sweep now c))))"

text \<open>
  \<open>ProbeCache::present\<close> with no other caller in between: the slot is shared with the map, so
  what the probe writes into its cell is seen through the map.
\<close>

type_synonym 's probe = "'s machine \<Rightarrow> (storage_error + bool) \<times> 's machine"

type_synonym 's get_or_try_init =
  "bool option \<Rightarrow> 's probe \<Rightarrow> 's machine \<Rightarrow> (storage_error + bool) \<times> bool option \<times> 's machine"

definition present ::
  "'s get_or_try_init \<Rightarrow> string \<Rightarrow> 's probe \<Rightarrow> probe_cache \<Rightarrow> 's machine
    \<Rightarrow> (storage_error + bool) \<times> probe_cache \<times> 's machine" where
  "present goti hash probe c m =
     (let (s, c1) = slot_for hash (clock m) c;
          (r, cell, m1) = goti (present_cell s) probe m
      in (r, fmupd hash (s\<lparr>present_cell := cell\<rparr>) c1, m1))"

text \<open>
  The documented behaviour of \<open>get_or_try_init\<close> without contention: an initialised cell
  answers its value and does not run the closure; an uninitialised one runs it, keeps an
  \<open>Ok\<close> value and stays uninitialised on an error.
\<close>

definition once_cell_spec :: "'s get_or_try_init \<Rightarrow> bool" where
  "once_cell_spec goti \<longleftrightarrow>
     (\<forall>v f m. goti (Some v) f m = (Ok v, Some v, m)) \<and>
     (\<forall>f m v m'. f m = (Ok v, m') \<longrightarrow> goti None f m = (Ok v, Some v, m')) \<and>
     (\<forall>f m e m'. f m = (Err e, m') \<longrightarrow> goti None f m = (Err e, None, m'))"

text \<open>A function with that behaviour, for evaluating the model on concrete inputs.\<close>

definition reference_get_or_try_init :: "'s get_or_try_init" where
  "reference_get_or_try_init cell f m =
     (case cell of
        Some v \<Rightarrow> (Ok v, Some v, m)
      | None \<Rightarrow>
          (case f m of
             (Ok v, m') \<Rightarrow> (Ok v, Some v, m')
           | (Err e, m') \<Rightarrow> (Err e, None, m')))"

lemma once_cell_spec_reference: "once_cell_spec reference_get_or_try_init"
  by (simp add: once_cell_spec_def reference_get_or_try_init_def)

section \<open>Liveness of slots\<close>

lemma live_ttl: "live now s \<longleftrightarrow> now - created s < ttl (present_cell s)"
  by (simp add: live_def ttl_def saturating_duration_since_def Let_def split: option.splits bool.splits)

lemma ttl_values [simp]:
  "ttl None = UNRESOLVED_TTL" "ttl (Some True) = POSITIVE_TTL" "ttl (Some False) = NEGATIVE_TTL"
  by (simp_all add: ttl_def)

lemma ttl_pos [simp]: "0 < ttl cell"
  by (simp add: ttl_def NEGATIVE_TTL_def POSITIVE_TTL_def UNRESOLVED_TTL_def from_secs_def
      split: option.splits bool.splits)

lemma ttl_le: "ttl cell \<le> from_secs 60"
  by (simp add: ttl_def NEGATIVE_TTL_def POSITIVE_TTL_def UNRESOLVED_TTL_def
      split: option.splits bool.splits)

lemma live_fresh [simp]: "now \<le> created s \<Longrightarrow> live now s"
  by (simp add: live_ttl)

text \<open>A slot that has expired stays expired.\<close>

lemma live_antimono: "live now' s \<Longrightarrow> now \<le> now' \<Longrightarrow> live now s"
  by (auto simp: live_ttl)


section \<open>The interface the handlers use\<close>

text \<open>
  To its clients the cache is a set of answers it would give without probing
  (\<open>answer\<close>), the operation that seeds one (\<open>mark\<close>) and the operation that asks
  (\<open>ask\<close>).
\<close>

locale existence_cache =
  fixes answer :: "'c \<Rightarrow> string \<Rightarrow> instant \<Rightarrow> bool option"
    and mark :: "string \<Rightarrow> instant \<Rightarrow> 'c \<Rightarrow> 'c"
    and ask :: "string \<Rightarrow> 's probe \<Rightarrow> 'c \<Rightarrow> 's machine \<Rightarrow> (storage_error + bool) \<times> 'c \<times> 's machine"
  assumes answer_mark: "t \<le> t' \<Longrightarrow> t' < t + POSITIVE_TTL \<Longrightarrow> answer (mark k t c) k t' = Some True"
    and answer_mark_other: "k' \<noteq> k \<Longrightarrow> t \<le> t' \<Longrightarrow> answer (mark k t c) k' t' = answer c k' t'"
    and ask_hit: "answer c k (clock m) = Some v \<Longrightarrow> ask k p c m = (Ok v, c, m)"
    and ask_miss: "answer c k (clock m) = None \<Longrightarrow> p m = (r, m') \<Longrightarrow> \<exists>c'. ask k p c m = (r, c', m')"
    and ask_caches: "ask k p c m = (Ok v, c', m') \<Longrightarrow> answer c' k t \<in> {None, Some v}"
    and ask_error: "ask k p c m = (Err e, c', m') \<Longrightarrow> answer c' k t = None"
    and ask_other: "ask k p c m = (r, c', m') \<Longrightarrow> k' \<noteq> k \<Longrightarrow> clock m \<le> t \<Longrightarrow> answer c' k' t = answer c k' t"
begin

lemma ask_after_mark:
  "t \<le> clock m \<Longrightarrow> clock m < t + POSITIVE_TTL \<Longrightarrow> ask k p (mark k t c) m = (Ok True, mark k t c, m)"
  by (rule ask_hit) (rule answer_mark)

lemma ask_result: "fst (ask k p c m) = fst (p m) \<or> (\<exists>v. answer c k (clock m) = Some v \<and> ask k p c m = (Ok v, c, m))"
  using ask_hit ask_miss by (metis fst_conv not_None_eq surj_pair)

lemma ask_machine: "snd (snd (ask k p c m)) = m \<or> snd (snd (ask k p c m)) = snd (p m)"
  using ask_hit ask_miss by (metis not_None_eq snd_conv surj_pair)

lemma ask_later: "later m (snd (p m)) \<Longrightarrow> later m (snd (snd (ask k p c m)))"
  using ask_machine [of k p c m] by auto

lemma ask_again_after_error:
  assumes "ask k p c m = (Err e, c', m')" "p' m'' = (r, m3)"
  shows "\<exists>c''. ask k p' c' m'' = (r, c'', m3)"
  using ask_error [OF assms(1)] assms(2) by (rule ask_miss)

end

definition answer :: "probe_cache \<Rightarrow> string \<Rightarrow> instant \<Rightarrow> bool option" where
  "answer c k t =
     (case fmlookup c k of None \<Rightarrow> None | Some s \<Rightarrow> if live t s then present_cell s else None)"

lemma fmlookup_sweep:
  "fmlookup (sweep now c) k =
     (if fcard (fmdom c) > SWEEP_THRESHOLD \<and> \<not> live_at now c k then None else fmlookup c k)"
  by (auto simp: sweep_def live_at_def split: option.splits)

lemma answer_sweep: "now \<le> t \<Longrightarrow> answer (sweep now c) k t = answer c k t"
  by (auto simp: answer_def fmlookup_sweep live_at_def split: option.splits dest: live_antimono)

lemma answer_fmupd:
  "answer (fmupd k s c) k' t =
     (if k' = k then (if live t s then present_cell s else None) else answer c k' t)"
  by (simp add: answer_def)

lemma once_cell_unique: "once_cell_spec goti \<Longrightarrow> goti = reference_get_or_try_init"
  unfolding once_cell_spec_def
  by (intro ext) (auto simp: reference_get_or_try_init_def split: option.splits sum.splits prod.splits)

lemma slot_for_cases:
  obtains (hit) s where "fmlookup c k = Some s" "live now s" "slot_for k now c = (s, c)"
  | (fresh) "answer c k now = None"
      "slot_for k now c = (\<lparr>present_cell = None, created = now\<rparr>,
         fmupd k \<lparr>present_cell = None, created = now\<rparr> (sweep now c))"
proof (cases "fmlookup c k")
  case None
  then show ?thesis using fresh by (simp add: slot_for_def answer_def Let_def)
next
  case (Some s)
  then show ?thesis using hit fresh
    by (cases "live now s") (simp_all add: slot_for_def answer_def Let_def)
qed

lemma fmupd_same: "fmlookup c k = Some s \<Longrightarrow> fmupd k s c = c"
  by (rule fmap_ext) auto

lemma present_hit:
  assumes "answer c k (clock m) = Some v"
  shows "present reference_get_or_try_init k p c m = (Ok v, c, m)"
proof -
  obtain s where s: "fmlookup c k = Some s" "live (clock m) s" "present_cell s = Some v"
    using assms by (auto simp: answer_def split: option.splits if_splits)
  then have "s\<lparr>present_cell := Some v\<rparr> = s" by simp
  with s show ?thesis
    by (simp add: present_def slot_for_def reference_get_or_try_init_def fmupd_same)
qed

text \<open>On a miss the probe runs once, and its outcome is in the slot afterwards.\<close>

definition outcome_cell :: "'e + bool \<Rightarrow> bool option" where
  "outcome_cell r = (case r of Ok v \<Rightarrow> Some v | Err e \<Rightarrow> None)"

lemma outcome_cell_simps [simp]: "outcome_cell (Ok v) = Some v" "outcome_cell (Err e) = None"
  by (simp_all add: outcome_cell_def)

lemma reference_None:
  "f m = (r, m') \<Longrightarrow> reference_get_or_try_init None f m = (r, outcome_cell r, m')"
  by (cases r) (simp_all add: reference_get_or_try_init_def)

lemma present_miss:
  assumes "answer c k (clock m) = None" "p m = (r, m')"
  obtains s c1 where "slot_for k (clock m) c = (s, c1)" "present_cell s = None"
    "present reference_get_or_try_init k p c m =
       (r, fmupd k (s\<lparr>present_cell := outcome_cell r\<rparr>) c1, m')"
proof -
  obtain s c1 where s: "slot_for k (clock m) c = (s, c1)" by (cases "slot_for k (clock m) c")
  have "present_cell s = None"
    using s assms(1)
    by (cases k "clock m" c rule: slot_for_cases) (auto simp: answer_def)
  then show ?thesis
    using that s assms(2) by (simp add: present_def reference_None)
qed

lemma slot_for_other:
  assumes "slot_for k now c = (s, c1)" "k' \<noteq> k" "now \<le> t"
  shows "answer c1 k' t = answer c k' t"
  using assms by (cases k now c rule: slot_for_cases) (auto simp: answer_fmupd answer_sweep)

lemma present_cases:
  obtains (hit) v where "answer c k (clock m) = Some v"
      "present reference_get_or_try_init k p c m = (Ok v, c, m)"
  | (miss) r m' s c1 where "answer c k (clock m) = None" "p m = (r, m')"
      "slot_for k (clock m) c = (s, c1)"
      "present reference_get_or_try_init k p c m =
         (r, fmupd k (s\<lparr>present_cell := outcome_cell r\<rparr>) c1, m')"
proof (cases "answer c k (clock m)")
  case None
  obtain r m' where p: "p m = (r, m')" by (cases "p m")
  from None p show ?thesis by (rule present_miss) (rule miss [OF None p])
next
  case (Some v)
  then show ?thesis using hit present_hit by blast
qed

interpretation cache: existence_cache answer mark_present "present reference_get_or_try_init"
proof unfold_locales
  fix t t' k k' and c :: probe_cache
  show "t \<le> t' \<Longrightarrow> t' < t + POSITIVE_TTL \<Longrightarrow> answer (mark_present k t c) k t' = Some True"
    by (simp add: mark_present_def answer_fmupd live_ttl less_diff_conv2)
  show "k' \<noteq> k \<Longrightarrow> t \<le> t' \<Longrightarrow> answer (mark_present k t c) k' t' = answer c k' t'"
    by (simp add: mark_present_def answer_fmupd answer_sweep)
next
  fix k k' c c' and m m' :: "'s machine" and v r e t p
  show "answer c k (clock m) = Some v \<Longrightarrow> present reference_get_or_try_init k p c m = (Ok v, c, m)"
    by (rule present_hit)
  show "\<exists>c'. present reference_get_or_try_init k p c m = (r, c', m')"
    if "answer c k (clock m) = None" "p m = (r, m')"
    using that(1,2) by (rule present_miss) blast
  let ?call = "present reference_get_or_try_init k p c m"
  show "answer c' k t \<in> {None, Some v}" if "?call = (Ok v, c', m')"
    using that by (cases rule: present_cases [where c = c and k = k and m = m and p = p]) (auto simp: answer_def live_ttl split: option.splits if_splits)
  show "answer c' k t = None" if "?call = (Err e, c', m')"
    using that by (cases rule: present_cases [where c = c and k = k and m = m and p = p]) (auto simp: answer_fmupd)
  show "answer c' k' t = answer c k' t" if "?call = (r, c', m')" "k' \<noteq> k" "clock m \<le> t"
    using that by (cases rule: present_cases [where c = c and k = k and m = m and p = p]) (auto simp: answer_fmupd dest: slot_for_other)
qed


section \<open>Size of the map\<close>

definition live_count :: "instant \<Rightarrow> probe_cache \<Rightarrow> nat" where
  "live_count now c = fcard (ffilter (live_at now c) (fmdom c))"

lemma sweep_size: "fcard (fmdom (sweep now c)) \<le> max SWEEP_THRESHOLD (live_count now c)"
  by (auto simp: sweep_def live_count_def)

lemma insert_sweep_size:
  "fcard (fmdom (fmupd k s (sweep now c))) \<le> Suc (max SWEEP_THRESHOLD (live_count now c))"
  using sweep_size [of now c] fcard_finsert_Suc [of k "fmdom (sweep now c)"] by simp

lemma live_count_le: "live_count now c \<le> fcard (fmdom c)"
  by (simp add: live_count_def fcard_ffilter_le)

end
