(* ===== verification/Single_Flight.thy ===== *)
theory Single_Flight
  imports Probe_Cache
begin

text \<open>
  The existence cache under concurrency (\<open>src/server/probe_cache.rs\<close>): any number of GET
  tasks inside \<open>present\<close>, PUT handlers calling \<open>mark_present\<close>, and time passing, interleaved
  at the points where the code can be suspended.

  A task enters (\<open>slot\<close>, under the mutex) and holds its \<open>Arc<Slot>\<close>, an index into the heap
  of slots. It then awaits the slot's cell: an initialised cell answers it; an
  uninitialised one is probed by one task at a time, the holder of the cell's permit, and
  the others wait (the documented behaviour of tokio's \<open>OnceCell::get_or_try_init\<close>). The
  holder's probe ends with a value, which the cell keeps, or with an error, which is the
  answer of that task alone; a task dropped while it waits or probes (the client
  disconnected) gives the permit back.

  \<open>slot_key\<close>, \<open>resolved_at\<close> and the instants in the tasks are history variables.
\<close>

section \<open>State\<close>

record gslot = slot +
  slot_key :: string
  permit :: "nat option"
  resolved_at :: instant

text \<open>
  A task waits on a slot since it entered, probes since it began, or has been answered: the
  result and the instant at which the probe behind it completed.
\<close>

datatype task =
    Idle
  | Waiting string nat instant
  | Probing string nat instant instant
  | Answered string instant "storage_error + bool" instant

record flight =
  now :: instant
  heap :: "gslot list"
  index :: "(string, nat) fmap"
  tasks :: "nat \<Rightarrow> task"

definition flight_init :: flight where
  "flight_init = \<lparr>now = 0, heap = [], index = fmempty, tasks = (\<lambda>_. Idle)\<rparr>"

section \<open>The operations under the mutex\<close>

definition index_live :: "flight \<Rightarrow> string \<Rightarrow> bool" where
  "index_live s k = (case fmlookup (index s) k of None \<Rightarrow> False | Some i \<Rightarrow> live (now s) (heap s ! i))"

definition flight_sweep :: "flight \<Rightarrow> (string, nat) fmap" where
  "flight_sweep s =
     (if fcard (fmdom (index s)) > SWEEP_THRESHOLD then fmfilter (index_live s) (index s) else index s)"

definition add_slot :: "string \<Rightarrow> bool option \<Rightarrow> flight \<Rightarrow> flight" where
  "add_slot k cell s =
     s\<lparr>heap := heap s @ [\<lparr>present_cell = cell, created = now s, slot_key = k, permit = None,
                             resolved_at = now s\<rparr>],
       index := fmupd k (length (heap s)) (flight_sweep s)\<rparr>"

text \<open>\<open>ProbeCache::slot\<close> on the shared state: the slot's place in the heap.\<close>

definition flight_slot :: "string \<Rightarrow> flight \<Rightarrow> nat \<times> flight" where
  "flight_slot k s =
     (case fmlookup (index s) k of
        Some i \<Rightarrow> if live (now s) (heap s ! i) then (i, s) else (length (heap s), add_slot k None s)
      | None \<Rightarrow> (length (heap s), add_slot k None s))"

text \<open>\<open>ProbeCache::mark_present\<close> on the shared state.\<close>

definition flight_mark :: "string \<Rightarrow> flight \<Rightarrow> flight" where
  "flight_mark k s = add_slot k (Some True) s"

definition set_task :: "nat \<Rightarrow> task \<Rightarrow> flight \<Rightarrow> flight" where
  "set_task t st s = s\<lparr>tasks := (tasks s)(t := st)\<rparr>"

definition set_permit :: "nat \<Rightarrow> nat option \<Rightarrow> flight \<Rightarrow> flight" where
  "set_permit i p s = s\<lparr>heap := (heap s)[i := (heap s ! i)\<lparr>permit := p\<rparr>]\<rparr>"

definition resolve_slot :: "nat \<Rightarrow> bool \<Rightarrow> flight \<Rightarrow> flight" where
  "resolve_slot i v s =
     s\<lparr>heap := (heap s)[i := (heap s ! i)\<lparr>present_cell := Some v, permit := None, resolved_at := now s\<rparr>]\<rparr>"

section \<open>Steps\<close>

datatype event =
    Tick duration
  | Enter nat string
  | Hit nat
  | Begin nat
  | Resolve nat bool
  | Fail nat storage_error
  | Cancel nat
  | Mark string

inductive flight_step :: "flight \<Rightarrow> event \<Rightarrow> flight \<Rightarrow> bool" where
  tick: "flight_step s (Tick d) (s\<lparr>now := now s + d\<rparr>)"
| enter: "tasks s t = Idle \<Longrightarrow> flight_slot k s = (i, s1) \<Longrightarrow>
     flight_step s (Enter t k) (set_task t (Waiting k i (now s)) s1)"
| hit: "tasks s t = Waiting k i e \<Longrightarrow> present_cell (heap s ! i) = Some v \<Longrightarrow>
     flight_step s (Hit t) (set_task t (Answered k e (Ok v) (resolved_at (heap s ! i))) s)"
| begin_probe: "tasks s t = Waiting k i e \<Longrightarrow> present_cell (heap s ! i) = None \<Longrightarrow>
     permit (heap s ! i) = None \<Longrightarrow>
     flight_step s (Begin t) (set_task t (Probing k i e (now s)) (set_permit i (Some t) s))"
| resolve: "tasks s t = Probing k i e b \<Longrightarrow>
     flight_step s (Resolve t v) (set_task t (Answered k e (Ok v) (now s)) (resolve_slot i v s))"
| fail: "tasks s t = Probing k i e b \<Longrightarrow>
     flight_step s (Fail t err) (set_task t (Answered k e (Err err) (now s)) (set_permit i None s))"
| cancel_waiting: "tasks s t = Waiting k i e \<Longrightarrow> flight_step s (Cancel t) (set_task t Idle s)"
| cancel_probing: "tasks s t = Probing k i e b \<Longrightarrow>
     flight_step s (Cancel t) (set_task t Idle (set_permit i None s))"
| mark: "flight_step s (Mark k) (flight_mark k s)"

inductive_cases flight_stepE: "flight_step s ev s'"

inductive_simps flight_step_simps:
  "flight_step s (Tick d) s'" "flight_step s (Enter t k) s'" "flight_step s (Hit t) s'"
  "flight_step s (Begin t) s'" "flight_step s (Resolve t v) s'" "flight_step s (Fail t err) s'"
  "flight_step s (Cancel t) s'" "flight_step s (Mark k) s'"

inductive flight_reachable :: "flight \<Rightarrow> bool" where
  start: "flight_reachable flight_init"
| step: "flight_reachable s \<Longrightarrow> flight_step s ev s' \<Longrightarrow> flight_reachable s'"

inductive flight_run :: "flight \<Rightarrow> event list \<Rightarrow> flight \<Rightarrow> bool" where
  run_nil: "flight_run s [] s"
| run_cons: "flight_step s ev s1 \<Longrightarrow> flight_run s1 evs s2 \<Longrightarrow> flight_run s (ev # evs) s2"

text \<open>The steps as a function, for running the machine on concrete schedules.\<close>

fun flight_exec :: "event \<Rightarrow> flight \<Rightarrow> flight option" where
  "flight_exec (Tick d) s = Some (s\<lparr>now := now s + d\<rparr>)"
| "flight_exec (Enter t k) s =
     (if tasks s t = Idle then
        (let (i, s1) = flight_slot k s in Some (set_task t (Waiting k i (now s)) s1))
      else None)"
| "flight_exec (Hit t) s =
     (case tasks s t of
        Waiting k i e \<Rightarrow>
          (case present_cell (heap s ! i) of
             Some v \<Rightarrow> Some (set_task t (Answered k e (Ok v) (resolved_at (heap s ! i))) s)
           | None \<Rightarrow> None)
      | _ \<Rightarrow> None)"
| "flight_exec (Begin t) s =
     (case tasks s t of
        Waiting k i e \<Rightarrow>
          if present_cell (heap s ! i) = None \<and> permit (heap s ! i) = None then
            Some (set_task t (Probing k i e (now s)) (set_permit i (Some t) s))
          else None
      | _ \<Rightarrow> None)"
| "flight_exec (Resolve t v) s =
     (case tasks s t of
        Probing k i e b \<Rightarrow> Some (set_task t (Answered k e (Ok v) (now s)) (resolve_slot i v s))
      | _ \<Rightarrow> None)"
| "flight_exec (Fail t err) s =
     (case tasks s t of
        Probing k i e b \<Rightarrow> Some (set_task t (Answered k e (Err err) (now s)) (set_permit i None s))
      | _ \<Rightarrow> None)"
| "flight_exec (Cancel t) s =
     (case tasks s t of
        Waiting k i e \<Rightarrow> Some (set_task t Idle s)
      | Probing k i e b \<Rightarrow> Some (set_task t Idle (set_permit i None s))
      | _ \<Rightarrow> None)"
| "flight_exec (Mark k) s = Some (flight_mark k s)"

fun flight_exec_all :: "event list \<Rightarrow> flight \<Rightarrow> flight option" where
  "flight_exec_all [] s = Some s"
| "flight_exec_all (ev # evs) s =
     (case flight_exec ev s of None \<Rightarrow> None | Some s1 \<Rightarrow> flight_exec_all evs s1)"

lemma flight_exec_sound:
  assumes "flight_exec ev s = Some s'"
  shows "flight_step s ev s'"
proof (cases ev)
  case (Tick d)
  then show ?thesis using assms by (auto intro: flight_step.intros)
next
  case (Enter t k)
  then show ?thesis using assms by (auto intro: flight_step.intros split: prod.splits if_splits)
next
  case (Hit t)
  then show ?thesis using assms by (auto intro: flight_step.intros split: task.splits option.splits)
next
  case (Begin t)
  then show ?thesis using assms by (auto intro: flight_step.intros split: task.splits if_splits)
next
  case (Resolve t v)
  then show ?thesis using assms by (auto intro: flight_step.intros split: task.splits)
next
  case (Fail t err)
  then show ?thesis using assms by (auto intro: flight_step.intros split: task.splits)
next
  case (Cancel t)
  then show ?thesis using assms by (auto intro: flight_step.intros split: task.splits)
next
  case (Mark k)
  then show ?thesis using assms by (auto intro: flight_step.intros)
qed

lemma flight_exec_complete: "flight_step s ev s' \<Longrightarrow> flight_exec ev s = Some s'"
  by (induction rule: flight_step.induct) simp_all

lemma flight_exec_iff: "flight_step s ev s' \<longleftrightarrow> flight_exec ev s = Some s'"
  using flight_exec_sound flight_exec_complete by blast

inductive_simps flight_run_simps [simp]: "flight_run s [] s'" "flight_run s (ev # evs) s'"

lemma flight_exec_all_iff: "flight_run s evs s' \<longleftrightarrow> flight_exec_all evs s = Some s'"
  by (induction evs arbitrary: s) (auto simp: flight_exec_iff split: option.splits)

lemma flight_run_reachable: "flight_run s evs s' \<Longrightarrow> flight_reachable s \<Longrightarrow> flight_reachable s'"
  by (induction rule: flight_run.induct) (auto intro: flight_reachable.step)

section \<open>The invariant\<close>

lemma update_simps [simp]:
  "now (set_task t st s) = now s" "heap (set_task t st s) = heap s" "index (set_task t st s) = index s"
  "tasks (set_task t st s) = (tasks s)(t := st)"
  "now (set_permit i p s) = now s" "index (set_permit i p s) = index s" "tasks (set_permit i p s) = tasks s"
  "now (resolve_slot i v s) = now s" "index (resolve_slot i v s) = index s"
  "tasks (resolve_slot i v s) = tasks s"
  "now (add_slot k cell s) = now s" "tasks (add_slot k cell s) = tasks s"
  "index (add_slot k cell s) = fmupd k (length (heap s)) (flight_sweep s)"
  by (simp_all add: set_task_def set_permit_def resolve_slot_def add_slot_def)

text \<open>
  Structure: the index names slots of its keys; tasks refer to slots of their keys; a permit
  is held exactly by a probing task, and only on an uninitialised cell; instants are in the
  past.
\<close>

fun task_ok :: "flight \<Rightarrow> nat \<Rightarrow> task \<Rightarrow> bool" where
  "task_ok s t (Waiting k i e) \<longleftrightarrow>
     i < length (heap s) \<and> slot_key (heap s ! i) = k \<and> e \<le> now s"
| "task_ok s t (Probing k i e b) \<longleftrightarrow>
     i < length (heap s) \<and> slot_key (heap s ! i) = k \<and> permit (heap s ! i) = Some t \<and>
     e \<le> b \<and> b \<le> now s"
| "task_ok s t (Answered k e r c) \<longleftrightarrow> e \<le> now s \<and> c \<le> now s"
| "task_ok s t Idle \<longleftrightarrow> True"

definition slot_ok :: "flight \<Rightarrow> nat \<Rightarrow> gslot \<Rightarrow> bool" where
  "slot_ok s i x \<longleftrightarrow>
     created x \<le> resolved_at x \<and> resolved_at x \<le> now s \<and>
     (\<forall>t. permit x = Some t \<longrightarrow> present_cell x = None \<and> (\<exists>k e b. tasks s t = Probing k i e b))"

definition flight_inv :: "flight \<Rightarrow> bool" where
  "flight_inv s \<longleftrightarrow>
     (\<forall>k i. fmlookup (index s) k = Some i \<longrightarrow> i < length (heap s) \<and> slot_key (heap s ! i) = k) \<and>
     (\<forall>t. task_ok s t (tasks s t)) \<and>
     (\<forall>i < length (heap s). slot_ok s i (heap s ! i))"

lemma flight_invD:
  assumes "flight_inv s"
  shows "fmlookup (index s) k = Some i \<Longrightarrow> i < length (heap s) \<and> slot_key (heap s ! i) = k"
    and "task_ok s t (tasks s t)"
    and "i < length (heap s) \<Longrightarrow> slot_ok s i (heap s ! i)"
  using assms by (auto simp: flight_inv_def)

lemma flight_inv_init: "flight_inv flight_init"
  by (simp add: flight_inv_def flight_init_def)

lemma fmlookup_flight_sweep:
  "fmlookup (flight_sweep s) k =
     (if fcard (fmdom (index s)) > SWEEP_THRESHOLD \<and> \<not> index_live s k then None
      else fmlookup (index s) k)"
  by (auto simp: flight_sweep_def index_live_def split: option.splits)

lemma fmlookup_flight_sweep_Some:
  "fmlookup (flight_sweep s) k = Some i \<Longrightarrow> fmlookup (index s) k = Some i"
  by (auto simp: fmlookup_flight_sweep split: if_splits)

lemma heap_add_slot:
  "heap (add_slot k cell s) = heap s @ [\<lparr>present_cell = cell, created = now s, slot_key = k,
     permit = None, resolved_at = now s\<rparr>]"
  by (simp add: add_slot_def)

lemma heap_set_permit:
  "heap (set_permit i p s) = (heap s)[i := (heap s ! i)\<lparr>permit := p\<rparr>]"
  by (simp add: set_permit_def)

lemma heap_resolve_slot:
  "heap (resolve_slot i v s) =
     (heap s)[i := (heap s ! i)\<lparr>present_cell := Some v, permit := None, resolved_at := now s\<rparr>]"
  by (simp add: resolve_slot_def)

lemmas heap_simps = heap_add_slot heap_set_permit heap_resolve_slot

lemma task_ok_grow:
  assumes "task_ok s t st" "now s = now s'" "\<forall>i < length (heap s). heap s' ! i = heap s ! i"
    "length (heap s) \<le> length (heap s')"
  shows "task_ok s' t st"
  using assms by (cases st) auto

lemma flight_invI:
  assumes "\<And>k i. fmlookup (index s) k = Some i \<Longrightarrow> i < length (heap s) \<and> slot_key (heap s ! i) = k"
    and "\<And>t. task_ok s t (tasks s t)"
    and "\<And>i. i < length (heap s) \<Longrightarrow> slot_ok s i (heap s ! i)"
  shows "flight_inv s"
  using assms by (simp add: flight_inv_def)

lemma add_slot_inv:
  assumes "flight_inv s"
  shows "flight_inv (add_slot k cell s)"
proof (rule flight_invI)
  fix k' i
  assume "fmlookup (index (add_slot k cell s)) k' = Some i"
  then show "i < length (heap (add_slot k cell s)) \<and> slot_key (heap (add_slot k cell s) ! i) = k'"
    using flight_invD(1) [OF assms]
    by (auto simp: heap_simps nth_append split: if_splits dest!: fmlookup_flight_sweep_Some)
next
  fix t
  show "task_ok (add_slot k cell s) t (tasks (add_slot k cell s) t)"
    using task_ok_grow [OF flight_invD(2) [OF assms, of t], of "add_slot k cell s"]
    by (simp add: heap_simps nth_append)
next
  fix i
  assume "i < length (heap (add_slot k cell s))"
  then show "slot_ok (add_slot k cell s) i (heap (add_slot k cell s) ! i)"
    using flight_invD(3) [OF assms, of i]
    by (auto simp: heap_simps nth_append slot_ok_def less_Suc_eq)
qed

lemma flight_slot_cases:
  assumes "flight_slot k s = (i, s1)"
  obtains (shared) "fmlookup (index s) k = Some i" "live (now s) (heap s ! i)" "s1 = s"
  | (fresh) "\<not> index_live s k" "i = length (heap s)" "s1 = add_slot k None s"
proof (cases "fmlookup (index s) k")
  case None
  then show ?thesis using assms fresh by (simp add: flight_slot_def index_live_def)
next
  case (Some j)
  show ?thesis
  proof (cases "live (now s) (heap s ! j)")
    case True
    have "j = i" "s = s1" using assms Some True by (simp_all add: flight_slot_def)
    then show ?thesis using shared Some True by blast
  next
    case False
    then have "\<not> index_live s k" "length (heap s) = i" "add_slot k None s = s1"
      using assms Some by (simp_all add: flight_slot_def index_live_def)
    then show ?thesis using fresh by blast
  qed
qed

lemma flight_slot_facts:
  assumes "flight_slot k s = (i, s1)" "flight_inv s"
  shows "flight_inv s1 \<and> i < length (heap s1) \<and> slot_key (heap s1 ! i) = k \<and>
    live (now s) (heap s1 ! i) \<and> now s1 = now s \<and> tasks s1 = tasks s"
  using assms(1)
proof (cases rule: flight_slot_cases)
  case shared
  have "i < length (heap s) \<and> slot_key (heap s ! i) = k"
    using assms(2) shared(1) by (rule flight_invD(1))
  with shared(2) assms(2) show ?thesis unfolding shared(3) by blast
next
  case fresh
  have "flight_inv (add_slot k None s)" using assms(2) by (rule add_slot_inv)
  then show ?thesis unfolding fresh(2,3) by (simp add: heap_simps)
qed

lemma task_ok_cong: "heap s' = heap s \<Longrightarrow> now s' = now s \<Longrightarrow> task_ok s' t st = task_ok s t st"
  by (cases st) auto

text \<open>A task that is not probing may be replaced by one that is well-formed.\<close>

lemma set_task_inv:
  assumes "flight_inv s" "task_ok s t st" "\<And>k i e b. tasks s t \<noteq> Probing k i e b"
  shows "flight_inv (set_task t st s)"
proof (rule flight_invI)
  fix u
  show "task_ok (set_task t st s) u (tasks (set_task t st s) u)"
    using flight_invD(2) [OF assms(1), of u] assms(2) by (simp add: task_ok_cong [of "set_task t st s" s])
next
  fix i
  assume i: "i < length (heap (set_task t st s))"
  have "\<exists>k e b. tasks (set_task t st s) u = Probing k i e b" if held: "permit (heap s ! i) = Some u" for u
  proof -
    obtain k e b where "tasks s u = Probing k i e b"
      using flight_invD(3) [OF assms(1), of i] i held by (auto simp: slot_ok_def)
    then show ?thesis using assms(3) by (cases "u = t") auto
  qed
  then show "slot_ok (set_task t st s) i (heap (set_task t st s) ! i)"
    using flight_invD(3) [OF assms(1), of i] i by (simp add: slot_ok_def)
qed (use flight_invD(1) [OF assms(1)] in simp)

text \<open>The end of a probe: the task leaves it and the permit of its slot is given back.\<close>

lemma release_inv:
  assumes inv: "flight_inv s" and t: "tasks s t = Probing k i e b"
    and s1: "heap s1 = (heap s)[i := x]" "index s1 = index s" "now s1 = now s" "tasks s1 = (tasks s)(t := st)"
    and x: "slot_key x = k" "permit x = None" "created x \<le> resolved_at x" "resolved_at x \<le> now s"
    and st: "task_ok s t st" "\<And>k j e b. st \<noteq> Probing k j e b"
  shows "flight_inv s1"
proof (rule flight_invI)
  have i: "i < length (heap s)" "slot_key (heap s ! i) = k" "permit (heap s ! i) = Some t"
    using flight_invD(2) [OF inv, of t] t by auto
  have key: "slot_key (heap s1 ! j) = slot_key (heap s ! j)" for j
    using i x(1) s1(1) by (cases "j = i") auto
  show "fmlookup (index s1) k' = Some j \<Longrightarrow> j < length (heap s1) \<and> slot_key (heap s1 ! j) = k'" for k' j
    using flight_invD(1) [OF inv] key s1 by simp
  show "task_ok s1 u (tasks s1 u)" for u
  proof (cases "u = t")
    case True
    then show ?thesis using st key s1 by (cases st) auto
  next
    case False
    have "permit (heap s1 ! j) = Some u" if "tasks s u = Probing k' j e' b'" for k' j e' b'
      using flight_invD(2) [OF inv, of u] that i False s1(1) by (cases "j = i") auto
    then show ?thesis
      using flight_invD(2) [OF inv, of u] False key s1 by (cases "tasks s u") auto
  qed
  show "slot_ok s1 j (heap s1 ! j)" if "j < length (heap s1)" for j
  proof (cases "j = i")
    case True
    then show ?thesis using x i(1) s1 by (simp add: slot_ok_def)
  next
    case False
    have old: "slot_ok s j (heap s ! j)" using flight_invD(3) [OF inv, of j] that s1(1) by simp
    have "permit (heap s ! j) = Some u \<Longrightarrow> u \<noteq> t" for u
      using old t False by (auto simp: slot_ok_def)
    then show ?thesis using old False s1 by (auto simp: slot_ok_def)
  qed
qed

lemma begin_inv:
  assumes inv: "flight_inv s" and t: "tasks s t = Waiting k i e" "present_cell (heap s ! i) = None"
    "permit (heap s ! i) = None"
  shows "flight_inv (set_task t (Probing k i e (now s)) (set_permit i (Some t) s))" (is "flight_inv ?s1")
proof (rule flight_invI)
  have i: "i < length (heap s)" "slot_key (heap s ! i) = k" "e \<le> now s"
    using flight_invD(2) [OF inv, of t] t by auto
  have key: "slot_key (heap ?s1 ! j) = slot_key (heap s ! j)" for j
    using i by (cases "j = i") (auto simp: heap_simps)
  show "fmlookup (index ?s1) k' = Some j \<Longrightarrow> j < length (heap ?s1) \<and> slot_key (heap ?s1 ! j) = k'" for k' j
    using flight_invD(1) [OF inv] key by (simp add: heap_simps)
  show "task_ok ?s1 u (tasks ?s1 u)" for u
  proof (cases "u = t")
    case True
    then show ?thesis using i by (simp add: heap_simps)
  next
    case False
    have "permit (heap ?s1 ! j) = Some u" if "tasks s u = Probing k' j e' b'" for k' j e' b'
      using flight_invD(2) [OF inv, of u] that t(3) by (cases "j = i") (auto simp: heap_simps)
    then show ?thesis
      using flight_invD(2) [OF inv, of u] False key by (cases "tasks s u") (auto simp: heap_simps)
  qed
  show "slot_ok ?s1 j (heap ?s1 ! j)" if "j < length (heap ?s1)" for j
  proof (cases "j = i")
    case True
    then show ?thesis using flight_invD(3) [OF inv, of i] i t(2) by (simp add: slot_ok_def heap_simps)
  next
    case False
    have old: "slot_ok s j (heap s ! j)" using flight_invD(3) [OF inv, of j] that by (simp add: heap_simps)
    have "permit (heap s ! j) = Some u \<Longrightarrow> u \<noteq> t" for u
      using old t False by (auto simp: slot_ok_def)
    then show ?thesis using old False by (auto simp: slot_ok_def heap_simps)
  qed
qed

end
