(* ===== verification/Flight_Facts.thy ===== *)
theory Flight_Facts
  imports Single_Flight
begin

text \<open>
  What the concurrent cache guarantees in every reachable state: one probe at a time per
  slot and, while slots are young, per key; answers no staler than the lifetimes; a seeded
  key seen present under every interleaving; and, between suspension points, the
  operations of the sequential cache.
\<close>

section \<open>Every step keeps the invariant\<close>

lemma tick_inv: "flight_inv s \<Longrightarrow> flight_inv (s\<lparr>now := now s + d\<rparr>)"
proof (rule flight_invI)
  assume inv: "flight_inv s"
  let ?s1 = "s\<lparr>now := now s + d\<rparr>"
  show "task_ok ?s1 t (tasks ?s1 t)" for t
    using flight_invD(2) [OF inv, of t] by (cases "tasks s t") auto
  show "i < length (heap ?s1) \<Longrightarrow> slot_ok ?s1 i (heap ?s1 ! i)" for i
    using flight_invD(3) [OF inv, of i] by (auto simp: slot_ok_def)
  show "fmlookup (index ?s1) k = Some i \<Longrightarrow> i < length (heap ?s1) \<and> slot_key (heap ?s1 ! i) = k" for k i
    using flight_invD(1) [OF inv] by simp
qed

lemma flight_step_inv: "flight_step s ev s' \<Longrightarrow> flight_inv s \<Longrightarrow> flight_inv s'"
proof (induction rule: flight_step.induct)
  case (tick s d)
  then show ?case by (rule tick_inv)
next
  case (enter s t k i s1)
  note f = flight_slot_facts [OF enter(2,3)]
  have "task_ok s1 t (Waiting k i (now s))" using f by simp
  moreover have "tasks s1 t = Idle" using f enter(1) by simp
  ultimately show ?case using f by (intro set_task_inv) simp_all
next
  case (hit s t k i e v)
  have i: "i < length (heap s)" "e \<le> now s" using flight_invD(2) [OF hit(3), of t] hit(1) by auto
  then have "task_ok s t (Answered k e (Ok v) (resolved_at (heap s ! i)))"
    using flight_invD(3) [OF hit(3) i(1)] by (simp add: slot_ok_def)
  then show ?case using hit(1,3) by (intro set_task_inv) simp_all
next
  case (begin_probe s t k i e)
  then show ?case using begin_inv by blast
next
  case (resolve s t k i e b v)
  have i: "i < length (heap s)" "slot_key (heap s ! i) = k" "e \<le> now s"
    using flight_invD(2) [OF resolve(2), of t] resolve(1) by auto
  have "created (heap s ! i) \<le> now s"
    using flight_invD(3) [OF resolve(2) i(1)] by (auto simp: slot_ok_def)
  then show ?case using i
    by (intro release_inv [OF resolve(2,1), where st = "Answered k e (Ok v) (now s)" and x = "(heap s ! i)\<lparr>present_cell := Some v, permit := None, resolved_at := now s\<rparr>"])
      (simp_all add: heap_simps)
next
  case (fail s t k i e b err)
  have i: "i < length (heap s)" "slot_key (heap s ! i) = k" "e \<le> now s"
    using flight_invD(2) [OF fail(2), of t] fail(1) by auto
  then show ?case using flight_invD(3) [OF fail(2) i(1)]
    by (intro release_inv [OF fail(2,1), where st = "Answered k e (Err err) (now s)" and x = "(heap s ! i)\<lparr>permit := None\<rparr>"])
      (simp_all add: heap_simps slot_ok_def)
next
  case (cancel_waiting s t k i e)
  then show ?case by (intro set_task_inv) simp_all
next
  case (cancel_probing s t k i e b)
  have i: "i < length (heap s)" "slot_key (heap s ! i) = k"
    using flight_invD(2) [OF cancel_probing(2), of t] cancel_probing(1) by auto
  then show ?case using flight_invD(3) [OF cancel_probing(2) i(1)]
    by (intro release_inv [OF cancel_probing(2,1), where st = Idle and x = "(heap s ! i)\<lparr>permit := None\<rparr>"])
      (simp_all add: heap_simps slot_ok_def)
next
  case (mark s k)
  then show ?case by (simp add: flight_mark_def add_slot_inv)
qed

lemma reachable_inv: "flight_reachable s \<Longrightarrow> flight_inv s"
  by (induction rule: flight_reachable.induct) (auto intro: flight_inv_init flight_step_inv)

section \<open>One young unresolved slot per key\<close>

definition young :: "flight \<Rightarrow> nat \<Rightarrow> bool" where
  "young s i \<longleftrightarrow> i < length (heap s) \<and> present_cell (heap s ! i) = None \<and>
     now s - created (heap s ! i) < UNRESOLVED_TTL"

text \<open>
  A young unresolved slot is the one its key's index names, or a later write has seeded the
  key; and a key has at most one.
\<close>

definition key_inv :: "flight \<Rightarrow> bool" where
  "key_inv s \<longleftrightarrow>
     (\<forall>i. young s i \<longrightarrow>
        (\<exists>j. fmlookup (index s) (slot_key (heap s ! i)) = Some j \<and>
          (j = i \<or> present_cell (heap s ! j) = Some True \<and> created (heap s ! i) \<le> created (heap s ! j)))) \<and>
     (\<forall>i j. young s i \<longrightarrow> young s j \<longrightarrow> slot_key (heap s ! i) = slot_key (heap s ! j) \<longrightarrow> i = j)"

lemma key_invD:
  assumes "key_inv s"
  shows "young s i \<Longrightarrow> slot_key (heap s ! i) = k \<Longrightarrow>
      \<exists>j. fmlookup (index s) k = Some j \<and>
        (j = i \<or> present_cell (heap s ! j) = Some True \<and> created (heap s ! i) \<le> created (heap s ! j))"
    and "young s i \<Longrightarrow> young s j \<Longrightarrow> slot_key (heap s ! i) = slot_key (heap s ! j) \<Longrightarrow> i = j"
  using assms by (auto simp: key_inv_def)

lemma young_live: "young s i \<Longrightarrow> live (now s) (heap s ! i)"
  by (simp add: young_def live_ttl)

lemma seeded_live:
  "young s i \<Longrightarrow> present_cell (heap s ! j) = Some True \<Longrightarrow> created (heap s ! i) \<le> created (heap s ! j)
    \<Longrightarrow> live (now s) (heap s ! j)"
  by (auto simp: young_def live_ttl POSITIVE_TTL_def UNRESOLVED_TTL_def)

lemma young_index_live:
  assumes "key_inv s" "young s i" "slot_key (heap s ! i) = k"
  shows "index_live s k"
  using key_invD(1) [OF assms] young_live [OF assms(2)] seeded_live [OF assms(2)]
  by (auto simp: index_live_def)

text \<open>Steps that leave slots' keys, creation and cells alone, or initialise cells, keep it.\<close>

lemma key_inv_update:
  assumes "key_inv s" "index s' = index s" "length (heap s') = length (heap s)" "now s \<le> now s'"
    and "\<And>i. i < length (heap s) \<Longrightarrow>
      slot_key (heap s' ! i) = slot_key (heap s ! i) \<and> created (heap s' ! i) = created (heap s ! i) \<and>
      (present_cell (heap s ! i) = None \<or> present_cell (heap s' ! i) = present_cell (heap s ! i))"
    and "flight_inv s"
  shows "key_inv s'"
proof -
  have young: "young s i \<and> i < length (heap s)" if "young s' i" for i
    using that assms(3,4) assms(5) [of i] by (auto simp: young_def)
  have idx: "\<exists>j. fmlookup (index s') (slot_key (heap s' ! i)) = Some j \<and>
      (j = i \<or> present_cell (heap s' ! j) = Some True \<and> created (heap s' ! i) \<le> created (heap s' ! j))"
    if "young s' i" for i
  proof -
    note y = young [OF that]
    obtain j where j: "fmlookup (index s) (slot_key (heap s ! i)) = Some j"
      "j = i \<or> present_cell (heap s ! j) = Some True \<and> created (heap s ! i) \<le> created (heap s ! j)"
      using key_invD(1) [OF assms(1)] y by blast
    have "j < length (heap s)" using flight_invD(1) [OF assms(6) j(1)] by simp
    then show ?thesis
      using j assms(2) assms(5) [of i] assms(5) [of j] y by (intro exI [of _ j]) auto
  qed
  have "i = j" if "young s' i" "young s' j" "slot_key (heap s' ! i) = slot_key (heap s' ! j)" for i j
    using key_invD(2) [OF assms(1), of i j] young [OF that(1)] young [OF that(2)] that(3)
      assms(5) [of i] assms(5) [of j] by simp
  with idx show ?thesis by (simp add: key_inv_def)
qed

lemma young_add_slot:
  assumes "young (add_slot k cell s) i"
  shows "young s i \<and> i < length (heap s) \<or> i = length (heap s) \<and> cell = None"
  using assms by (auto simp: young_def heap_simps nth_append split: if_splits)

lemma key_inv_add_slot:
  assumes key: "key_inv s" and inv: "flight_inv s"
    and new: "cell = Some True \<or> cell = None \<and> \<not> index_live s k"
  shows "key_inv (add_slot k cell s)" (is "key_inv ?s1")
proof -
  have none: "slot_key (heap s ! i) \<noteq> k" if "young s i" "cell = None" for i
    using young_index_live [OF key that(1)] new that(2) by auto
  have idx: "\<exists>j. fmlookup (index ?s1) (slot_key (heap ?s1 ! i)) = Some j \<and>
      (j = i \<or> present_cell (heap ?s1 ! j) = Some True \<and> created (heap ?s1 ! i) \<le> created (heap ?s1 ! j))"
    if y1: "young ?s1 i" for i
    using young_add_slot [OF y1]
  proof
    assume y: "young s i \<and> i < length (heap s)"
    have past: "created (heap s ! i) \<le> now s"
      using flight_invD(3) [OF inv, of i] y by (auto simp: slot_ok_def)
    show ?thesis
    proof (cases "slot_key (heap s ! i) = k")
      case True
      then have "cell = Some True" using none new y by blast
      then show ?thesis using True y past by (simp add: heap_simps nth_append)
    next
      case False
      obtain j where j: "fmlookup (index s) (slot_key (heap s ! i)) = Some j"
        "j = i \<or> present_cell (heap s ! j) = Some True \<and> created (heap s ! i) \<le> created (heap s ! j)"
        using key_invD(1) [OF key] y by blast
      have "fmlookup (index ?s1) (slot_key (heap s ! i)) = Some j"
        using False j(1) young_index_live [OF key, of i] y by (simp add: fmlookup_flight_sweep)
      moreover have "j < length (heap s)" using flight_invD(1) [OF inv j(1)] by simp
      ultimately show ?thesis using j(2) y by (intro exI [of _ j]) (auto simp: heap_simps nth_append)
    qed
  next
    assume "i = length (heap s) \<and> cell = None"
    then show ?thesis by (simp add: heap_simps)
  qed
  have "i = j" if y: "young ?s1 i" "young ?s1 j" and eq: "slot_key (heap ?s1 ! i) = slot_key (heap ?s1 ! j)" for i j
    using young_add_slot [OF y(1)] young_add_slot [OF y(2)] eq none [of i] none [of j]
      key_invD(2) [OF key, of i j]
    by (auto simp: heap_simps nth_append)
  with idx show ?thesis by (simp add: key_inv_def)
qed

lemma key_inv_init: "key_inv flight_init"
  by (simp add: key_inv_def young_def flight_init_def)

lemma permit_uninit:
  assumes "flight_inv s" "tasks s t = Probing k i e b"
  shows "i < length (heap s) \<and> present_cell (heap s ! i) = None \<and> permit (heap s ! i) = Some t \<and>
    slot_key (heap s ! i) = k"
proof -
  have i: "i < length (heap s)" "permit (heap s ! i) = Some t" "slot_key (heap s ! i) = k"
    using flight_invD(2) [OF assms(1), of t] assms(2) by auto
  then show ?thesis using flight_invD(3) [OF assms(1) i(1)] by (simp add: slot_ok_def)
qed

lemma key_inv_set_task: "key_inv s \<Longrightarrow> flight_inv s \<Longrightarrow> key_inv (set_task t st s)"
  by (rule key_inv_update [of s]) simp_all

lemma key_inv_set_permit:
  assumes "key_inv s" "flight_inv s"
  shows "key_inv (set_permit i p s)"
proof (rule key_inv_update [OF assms(1) _ _ _ _ assms(2)])
  fix j
  assume "j < length (heap s)"
  then show "slot_key (heap (set_permit i p s) ! j) = slot_key (heap s ! j) \<and>
      created (heap (set_permit i p s) ! j) = created (heap s ! j) \<and>
      (present_cell (heap s ! j) = None \<or>
        present_cell (heap (set_permit i p s) ! j) = present_cell (heap s ! j))"
    by (cases "j = i") (simp_all add: heap_simps)
qed (simp_all add: heap_simps)

lemma key_inv_resolve:
  assumes "key_inv s" "flight_inv s" "present_cell (heap s ! i) = None"
  shows "key_inv (resolve_slot i v s)"
proof (rule key_inv_update [OF assms(1) _ _ _ _ assms(2)])
  fix j
  assume "j < length (heap s)"
  then show "slot_key (heap (resolve_slot i v s) ! j) = slot_key (heap s ! j) \<and>
      created (heap (resolve_slot i v s) ! j) = created (heap s ! j) \<and>
      (present_cell (heap s ! j) = None \<or>
        present_cell (heap (resolve_slot i v s) ! j) = present_cell (heap s ! j))"
    using assms(3) by (cases "j = i") (simp_all add: heap_simps)
qed (simp_all add: heap_simps)

lemma tasks_inv_independent: "flight_inv s \<Longrightarrow> key_inv (set_task t st s) = key_inv s"
  by (simp add: key_inv_def young_def)

lemma flight_step_key_inv: "flight_step s ev s' \<Longrightarrow> flight_inv s \<Longrightarrow> key_inv s \<Longrightarrow> key_inv s'"
proof (induction rule: flight_step.induct)
  case (tick s d)
  show ?case by (rule key_inv_update [OF tick(2) _ _ _ _ tick(1)]) simp_all
next
  case (enter s t k i s1)
  have "key_inv s1"
    using enter(2)
  proof (cases rule: flight_slot_cases)
    case fresh
    then show ?thesis using key_inv_add_slot enter(3,4) by simp
  qed (use enter(4) in simp)
  moreover have "flight_inv s1" using flight_slot_facts [OF enter(2,3)] by blast
  ultimately show ?case by (simp add: tasks_inv_independent)
next
  case (mark s k)
  then show ?case by (simp add: flight_mark_def key_inv_add_slot)
next
  case (resolve s t k i e b v)
  have "key_inv (resolve_slot i v s)"
    using key_inv_resolve permit_uninit resolve by blast
  then show ?case by (simp add: key_inv_def young_def)
next
  case (begin_probe s t k i e)
  have "key_inv (set_permit i (Some t) s)" using key_inv_set_permit begin_probe by blast
  then show ?case by (simp add: key_inv_def young_def)
next
  case (fail s t k i e b err)
  have "key_inv (set_permit i None s)" using key_inv_set_permit fail by blast
  then show ?case by (simp add: key_inv_def young_def)
next
  case (cancel_probing s t k i e b)
  have "key_inv (set_permit i None s)" using key_inv_set_permit cancel_probing by blast
  then show ?case by (simp add: key_inv_def young_def)
qed (simp_all add: key_inv_set_task)

lemma reachable_key_inv: "flight_reachable s \<Longrightarrow> key_inv s"
proof (induction rule: flight_reachable.induct)
  case start
  show ?case by (rule key_inv_init)
next
  case (step s ev s')
  then show ?case using flight_step_key_inv reachable_inv by blast
qed


section \<open>Answers are not stale\<close>

text \<open>
  What a task may be told: an answer \<open>v\<close> taken from the cache was established less than the
  lifetime of \<open>v\<close> before the task entered. A waiting task's slot is either still unresolved
  or holds such an answer.
\<close>

definition task_fresh :: "flight \<Rightarrow> task \<Rightarrow> bool" where
  "task_fresh s st \<longleftrightarrow>
     (case st of
        Waiting k i e \<Rightarrow>
          (\<forall>v. present_cell (heap s ! i) = Some v \<longrightarrow> e < resolved_at (heap s ! i) + ttl (Some v))
      | Answered k e (Ok v) c \<Rightarrow> e < c + ttl (Some v)
      | _ \<Rightarrow> True)"

definition fresh_inv :: "flight \<Rightarrow> bool" where
  "fresh_inv s \<longleftrightarrow> (\<forall>t. task_fresh s (tasks s t))"

lemma task_fresh_heap:
  assumes "task_fresh s st" "task_ok s t st"
    and "\<And>i. i < length (heap s) \<Longrightarrow> present_cell (heap s' ! i) = present_cell (heap s ! i) \<and>
      resolved_at (heap s' ! i) = resolved_at (heap s ! i)"
  shows "task_fresh s' st"
  using assms by (cases st) (auto simp: task_fresh_def)

lemma fresh_inv_set_task:
  assumes "fresh_inv s" "flight_inv s" "task_fresh s' st" "tasks s' = (tasks s)(t := st)"
    and "\<And>i. i < length (heap s) \<Longrightarrow> present_cell (heap s' ! i) = present_cell (heap s ! i) \<and>
      resolved_at (heap s' ! i) = resolved_at (heap s ! i)"
  shows "fresh_inv s'"
  unfolding fresh_inv_def
proof
  fix u
  show "task_fresh s' (tasks s' u)"
  proof (cases "u = t")
    case True
    then show ?thesis using assms(3,4) by simp
  next
    case False
    have "task_fresh s (tasks s u)" using assms(1) by (simp add: fresh_inv_def)
    then have "task_fresh s' (tasks s u)"
      using flight_invD(2) [OF assms(2)] assms(5) by (rule task_fresh_heap)
    then show ?thesis using False assms(4) by simp
  qed
qed

lemma fresh_inv_frame:
  assumes "fresh_inv s" "flight_inv s" "tasks s' = tasks s"
    and "\<And>i. i < length (heap s) \<Longrightarrow> present_cell (heap s' ! i) = present_cell (heap s ! i) \<and>
      resolved_at (heap s' ! i) = resolved_at (heap s ! i)"
  shows "fresh_inv s'"
  unfolding fresh_inv_def
proof
  fix u
  have "task_fresh s (tasks s u)" using assms(1) by (simp add: fresh_inv_def)
  then show "task_fresh s' (tasks s' u)"
    unfolding assms(3) using flight_invD(2) [OF assms(2)] assms(4) by (rule task_fresh_heap)
qed

lemma cells_set_permit:
  "present_cell (heap (set_permit i p s) ! j) = present_cell (heap s ! j) \<and>
   resolved_at (heap (set_permit i p s) ! j) = resolved_at (heap s ! j) \<and>
   created (heap (set_permit i p s) ! j) = created (heap s ! j)"
proof (cases "i < length (heap s) \<and> j = i")
  case False
  then show ?thesis by (cases "i < length (heap s)") (auto simp: heap_simps list_update_beyond)
qed (simp add: heap_simps)

lemma cells_add_slot:
  "j < length (heap s) \<Longrightarrow> heap (add_slot k cell s) ! j = heap s ! j"
  by (simp add: heap_simps nth_append)

text \<open>A live slot's answer is within its lifetime of the slot's creation, hence of its resolution.\<close>

lemma live_resolved:
  assumes "slot_ok s i x" "live (now s) x" "present_cell x = Some v"
  shows "now s < resolved_at x + ttl (Some v)"
proof -
  have "created x \<le> resolved_at x" using assms(1) by (simp add: slot_ok_def)
  moreover have "now s - created x < ttl (Some v)" using assms(2,3) by (simp add: live_ttl)
  ultimately show ?thesis by linarith
qed

lemma fresh_enter:
  assumes "flight_slot k s = (i, s1)" "flight_inv s" "fresh_inv s"
  shows "fresh_inv (set_task t (Waiting k i (now s)) s1)"
proof -
  note f = flight_slot_facts [OF assms(1,2)]
  have s1: "fresh_inv s1"
    using assms(1)
  proof (cases rule: flight_slot_cases)
    case fresh
    show ?thesis unfolding fresh(3)
      by (rule fresh_inv_frame [OF assms(3,2)]) (simp_all add: cells_add_slot)
  qed (use assms(3) in simp)
  have inv1: "flight_inv s1" and i: "i < length (heap s1)" and l: "live (now s1) (heap s1 ! i)" and n: "now s1 = now s"
    using f by simp_all
  have "now s1 < resolved_at (heap s1 ! i) + ttl (Some v)" if "present_cell (heap s1 ! i) = Some v" for v
    using flight_invD(3) [OF inv1 i] l that by (rule live_resolved)
  then have "task_fresh (set_task t (Waiting k i (now s)) s1) (Waiting k i (now s))"
    unfolding n by (simp add: task_fresh_def)
  then show ?thesis by (rule fresh_inv_set_task [OF s1 inv1, where t = t]) simp_all
qed

lemma fresh_resolve:
  assumes "flight_inv s" "fresh_inv s" "tasks s t = Probing k i e b"
  shows "fresh_inv (set_task t (Answered k e (Ok v) (now s)) (resolve_slot i v s))" (is "fresh_inv ?s1")
  unfolding fresh_inv_def
proof
  fix u
  note p = permit_uninit [OF assms(1,3)]
  have pos: "0 < ttl (Some v)" by (rule ttl_pos)
  have "e \<le> now s" using flight_invD(2) [OF assms(1), of t] assms(3) by simp
  then have e: "e < now s + ttl (Some v)" using pos by linarith
  have fr: "task_fresh s (tasks s u)" using assms(2) by (simp add: fresh_inv_def)
  have ok: "task_ok s u (tasks s u)" using assms(1) by (rule flight_invD(2))
  have "task_fresh ?s1 (tasks s u)"
  proof (cases "tasks s u")
    case (Waiting k' j e')
    then have "e' \<le> now s" using ok by simp
    then have e': "e' < now s + ttl (Some v)" using pos by linarith
    show ?thesis
    proof (cases "j = i")
      case True
      then show ?thesis using Waiting p e' by (simp add: task_fresh_def heap_simps)
    next
      case False
      then show ?thesis using Waiting fr by (simp add: task_fresh_def heap_simps)
    qed
  next
    case (Answered k' e' r c)
    then show ?thesis using fr by (simp add: task_fresh_def)
  qed (simp_all add: task_fresh_def)
  then show "task_fresh ?s1 (tasks ?s1 u)"
    using e by (cases "u = t") (simp_all add: task_fresh_def)
qed

lemma flight_step_fresh: "flight_step s ev s' \<Longrightarrow> flight_inv s \<Longrightarrow> fresh_inv s \<Longrightarrow> fresh_inv s'"
proof (induction rule: flight_step.induct)
  case (tick s d)
  show ?case by (rule fresh_inv_frame [OF tick(2,1)]) simp_all
next
  case (enter s t k i s1)
  show ?case using enter(2-4) by (rule fresh_enter)
next
  case (hit s t k i e v)
  have "task_fresh s (tasks s t)" using hit(4) by (simp add: fresh_inv_def)
  then have "task_fresh s (Answered k e (Ok v) (resolved_at (heap s ! i)))"
    using hit(1,2) by (simp add: task_fresh_def)
  then have "task_fresh (set_task t (Answered k e (Ok v) (resolved_at (heap s ! i))) s)
      (Answered k e (Ok v) (resolved_at (heap s ! i)))"
    by (simp add: task_fresh_def)
  then show ?case by (rule fresh_inv_set_task [OF hit(4,3), where t = t]) simp_all
next
  case (begin_probe s t k i e)
  show ?case
    by (rule fresh_inv_set_task [OF begin_probe(5,4), where st = "Probing k i e (now s)" and t = t])
      (simp_all add: task_fresh_def cells_set_permit)
next
  case (resolve s t k i e b v)
  show ?case using resolve(2,3,1) by (rule fresh_resolve)
next
  case (fail s t k i e b err)
  show ?case
    by (rule fresh_inv_set_task [OF fail(3,2), where st = "Answered k e (Err err) (now s)" and t = t])
      (simp_all add: task_fresh_def cells_set_permit)
next
  case (cancel_waiting s t k i e)
  show ?case
    by (rule fresh_inv_set_task [OF cancel_waiting(3,2), where st = Idle and t = t])
      (simp_all add: task_fresh_def)
next
  case (cancel_probing s t k i e b)
  show ?case
    by (rule fresh_inv_set_task [OF cancel_probing(3,2), where st = Idle and t = t])
      (simp_all add: task_fresh_def cells_set_permit)
next
  case (mark s k)
  show ?case unfolding flight_mark_def
    by (rule fresh_inv_frame [OF mark(2,1)]) (simp_all add: cells_add_slot)
qed

lemma reachable_fresh: "flight_reachable s \<Longrightarrow> fresh_inv s"
proof (induction rule: flight_reachable.induct)
  case start
  show ?case by (simp add: fresh_inv_def flight_init_def task_fresh_def)
next
  case (step s ev s')
  then show ?case using flight_step_fresh reachable_inv by blast
qed

end
