(* ===== verification/Flight_Views.thy ===== *)
theory Flight_Views
  imports Flight_Facts
begin

text \<open>
  The concurrent cache against its contract: a seeded key is seen present by every task that
  enters during the positive lifetime; the map behind the heap of slots goes through
  \<open>slot\<close> and \<open>mark_present\<close> of the sequential cache; and a concrete schedule in which two
  probes of one key overlap although no probe is slow.
\<close>

section \<open>Seeded keys\<close>

definition seeded :: "string \<Rightarrow> instant \<Rightarrow> flight \<Rightarrow> bool" where
  "seeded k t0 s \<longleftrightarrow>
     t0 \<le> now s \<and>
     (now s < t0 + POSITIVE_TTL \<longrightarrow>
       (\<exists>i. fmlookup (index s) k = Some i \<and> i < length (heap s) \<and>
          present_cell (heap s ! i) = Some True \<and> t0 \<le> created (heap s ! i)))"

lemma seeded_mark: "seeded k (now s) (flight_mark k s)"
  by (simp add: seeded_def flight_mark_def heap_simps)

lemma seeded_index_live:
  assumes "seeded k t0 s" "now s < t0 + POSITIVE_TTL"
  obtains i where "fmlookup (index s) k = Some i" "i < length (heap s)"
    "present_cell (heap s ! i) = Some True" "t0 \<le> created (heap s ! i)" "live (now s) (heap s ! i)"
proof -
  obtain i where i: "fmlookup (index s) k = Some i" "i < length (heap s)"
    "present_cell (heap s ! i) = Some True" "t0 \<le> created (heap s ! i)"
    using assms by (auto simp: seeded_def)
  moreover have "live (now s) (heap s ! i)"
    using i(3,4) assms(2) by (simp add: live_ttl POSITIVE_TTL_def from_secs_def)
  ultimately show ?thesis by (rule that)
qed

text \<open>A step that keeps the index and every slot that is present keeps a key seeded.\<close>

lemma seeded_update:
  assumes "seeded k t0 s" "index s' = index s" "length (heap s') = length (heap s)" "now s \<le> now s'"
    and "\<And>i. i < length (heap s) \<Longrightarrow> present_cell (heap s ! i) = Some True \<Longrightarrow>
      present_cell (heap s' ! i) = Some True \<and> created (heap s' ! i) = created (heap s ! i)"
  shows "seeded k t0 s'"
  using assms unfolding seeded_def by fastforce

lemma seeded_add_slot:
  assumes "seeded k t0 s" "k' = k \<longrightarrow> cell = Some True \<or> \<not> index_live s k"
  shows "seeded k t0 (add_slot k' cell s)"
proof (cases "now s < t0 + POSITIVE_TTL")
  case True
  obtain i where i: "fmlookup (index s) k = Some i" "i < length (heap s)"
    "present_cell (heap s ! i) = Some True" "t0 \<le> created (heap s ! i)" "live (now s) (heap s ! i)"
    using assms(1) True by (rule seeded_index_live)
  then have "index_live s k" by (simp add: index_live_def)
  then show ?thesis
    using i assms by (auto simp: seeded_def heap_simps nth_append fmlookup_flight_sweep)
next
  case False
  then show ?thesis using assms(1) by (simp add: seeded_def)
qed

lemma flight_step_seeded:
  "flight_step s ev s' \<Longrightarrow> flight_inv s \<Longrightarrow> seeded k t0 s \<Longrightarrow> seeded k t0 s'"
proof (induction rule: flight_step.induct)
  case (tick s d)
  then show ?case by (intro seeded_update [OF tick(2)]) simp_all
next
  case (enter s t k' i s1)
  have "seeded k t0 s1"
    using enter(2)
  proof (cases rule: flight_slot_cases)
    case fresh
    have "seeded k t0 (add_slot k' None s)"
      by (rule seeded_add_slot [OF enter(4)]) (use fresh(1) in auto)
    then show ?thesis unfolding fresh(3) .
  qed (use enter(4) in simp)
  then show ?case by (rule seeded_update) simp_all
next
  case (begin_probe s t k' i e)
  show ?case using cells_set_permit [of i "Some t" s]
    by (intro seeded_update [OF begin_probe(5)]) (simp_all add: heap_simps)
next
  case (resolve s t k' i e b v)
  have "i < length (heap s)" "present_cell (heap s ! i) = None"
    using permit_uninit [OF resolve(2,1)] by simp_all
  then show ?case
    by (intro seeded_update [OF resolve(3)]) (auto simp: heap_simps nth_list_update)
next
  case (fail s t k' i e b err)
  show ?case using cells_set_permit [of i None s]
    by (intro seeded_update [OF fail(3)]) (simp_all add: heap_simps)
next
  case (cancel_probing s t k' i e b)
  show ?case using cells_set_permit [of i None s]
    by (intro seeded_update [OF cancel_probing(3)]) (simp_all add: heap_simps)
next
  case (mark s k')
  then show ?case by (simp add: flight_mark_def seeded_add_slot)
next
  case (hit s t k' i e v)
  show ?case by (rule seeded_update [OF hit(4)]) simp_all
next
  case (cancel_waiting s t k' i e)
  show ?case by (rule seeded_update [OF cancel_waiting(3)]) simp_all
qed

lemma flight_run_seeded:
  "flight_run s evs s' \<Longrightarrow> flight_inv s \<Longrightarrow> seeded k t0 s \<Longrightarrow> flight_inv s' \<and> seeded k t0 s'"
proof (induction rule: flight_run.induct)
  case (run_cons s ev s1 evs s2)
  then show ?case using flight_step_inv flight_step_seeded by blast
qed simp

section \<open>The map behind the heap\<close>

definition view :: "flight \<Rightarrow> probe_cache" where
  "view s = fmmap (\<lambda>i. slot.truncate (heap s ! i)) (index s)"

lemma live_truncate [simp]: "live t (slot.truncate x) = live t x"
  by (simp add: live_ttl slot.truncate_def)

lemma live_at_view: "live_at (now s) (view s) k = index_live s k"
  by (simp add: live_at_def index_live_def view_def split: option.splits)

lemma fcard_view: "fcard (fmdom (view s)) = fcard (fmdom (index s))"
  by (simp add: view_def)

lemma fmlookup_view: "fmlookup (view s) k = map_option (\<lambda>i. slot.truncate (heap s ! i)) (fmlookup (index s) k)"
  by (simp add: view_def)

lemma view_add_slot:
  assumes "flight_inv s"
  shows "view (add_slot k cell s) =
    fmupd k \<lparr>present_cell = cell, created = now s\<rparr> (sweep (now s) (view s))"
proof (rule fmap_ext)
  fix k'
  have "i < length (heap s)" if "fmlookup (index s) k' = Some i" for i
    using flight_invD(1) [OF assms that] by simp
  then show "fmlookup (view (add_slot k cell s)) k' =
    fmlookup (fmupd k \<lparr>present_cell = cell, created = now s\<rparr> (sweep (now s) (view s))) k'"
    by (cases "fmlookup (index s) k'")
      (auto simp: fmlookup_sweep live_at_view fcard_view fmlookup_flight_sweep heap_simps nth_append
        fmlookup_view slot.truncate_def)
qed

lemma flight_mark_view:
  "flight_inv s \<Longrightarrow> view (flight_mark k s) = mark_present k (now s) (view s)"
  by (simp add: flight_mark_def mark_present_def view_add_slot)

lemma flight_slot_view:
  assumes "flight_inv s" "flight_slot k s = (i, s1)"
  shows "slot_for k (now s) (view s) = (slot.truncate (heap s1 ! i), view s1)"
  using assms(2)
proof (cases rule: flight_slot_cases)
  case shared
  then have "fmlookup (view s) k = Some (slot.truncate (heap s ! i))" by (simp add: view_def)
  then show ?thesis using shared(2) unfolding shared(3) by (simp add: slot_for_def)
next
  case fresh
  have "\<not> live_at (now s) (view s) k" using fresh(1) by (simp add: live_at_view)
  then show ?thesis unfolding fresh(2,3) view_add_slot [OF assms(1)]
    by (auto simp: slot_for_def live_at_def heap_simps slot.truncate_def Let_def split: option.splits)
qed

lemma view_set_task [simp]: "view (set_task t st s) = view s"
  by (simp add: view_def)

lemma view_set_permit [simp]: "view (set_permit i p s) = view s"
proof -
  have "slot.truncate (heap (set_permit i p s) ! j) = slot.truncate (heap s ! j)" for j
    using cells_set_permit [of i p s j] by (simp add: slot.truncate_def)
  then show ?thesis by (simp add: view_def)
qed

section \<open>Concrete schedules\<close>

text \<open>The state a schedule leads to from the empty cache, and the definitions that evaluate it.\<close>

definition after :: "event list \<Rightarrow> flight" where
  "after evs = the (flight_exec_all evs flight_init)"

lemmas run_simps = flight_init_def flight_slot_def add_slot_def flight_sweep_def set_task_def
  set_permit_def resolve_slot_def flight_mark_def live_def saturating_duration_since_def UNRESOLVED_TTL_def
  POSITIVE_TTL_def NEGATIVE_TTL_def SWEEP_THRESHOLD_def from_secs_def fcard_finsert

lemma after_reachable:
  assumes "flight_exec_all evs flight_init \<noteq> None"
  shows "flight_reachable (after evs)"
proof -
  have "flight_run flight_init evs (after evs)"
    using assms by (auto simp: flight_exec_all_iff after_def)
  then show ?thesis using flight_reachable.start by (rule flight_run_reachable)
qed

section \<open>Properties\<close>

text \<open>Single flight per slot. In every reachable state, whatever the interleaving, at most
  one task runs a probe for a slot.\<close>

theorem one_probe_per_slot:
  assumes "flight_reachable s" "tasks s t = Probing k i e b" "tasks s u = Probing k' i e' b'"
  shows "t = u"
  using permit_uninit [OF reachable_inv [OF assms(1)] assms(2)]
    permit_uninit [OF reachable_inv [OF assms(1)] assms(3)] by simp

text \<open>C21: single flight per key. Two tasks probe the same key at once only if one of their
  slots was created \<open>UNRESOLVED_TTL\<close> ago or earlier.\<close>

theorem one_probe_per_key:
  assumes "flight_reachable s" "tasks s t = Probing k i e b" "tasks s u = Probing k j e' b'"
    and "now s < created (heap s ! i) + UNRESOLVED_TTL" "now s < created (heap s ! j) + UNRESOLVED_TTL"
  shows "t = u"
proof -
  note p = permit_uninit [OF reachable_inv [OF assms(1)] assms(2)]
    permit_uninit [OF reachable_inv [OF assms(1)] assms(3)]
  have "young s i" "young s j"
    using p assms(4,5) by (auto simp: young_def UNRESOLVED_TTL_def from_secs_def)
  then have "i = j"
    using key_invD(2) [OF reachable_key_inv [OF assms(1)]] p by simp
  then show ?thesis using p by simp
qed

text \<open>C22: no stale answer. In every reachable state, a task that got a value from the cache got
  one established less than 60 seconds (present) or 5 seconds (absent) before it
  entered, or later.\<close>

theorem answers_fresh:
  assumes "flight_reachable s" "tasks s t = Answered k e (Ok v) c"
  shows "e < c + (if v then from_secs 60 else from_secs 5)"
proof -
  have "task_fresh s (tasks s t)" using reachable_fresh [OF assms(1)] by (simp add: fresh_inv_def)
  then show ?thesis using assms(2)
    by (cases v) (simp_all add: task_fresh_def POSITIVE_TTL_def NEGATIVE_TTL_def)
qed

text \<open>A write is seen. Once \<open>mark_present\<close> has run for a key, every task that enters
  within \<open>POSITIVE_TTL\<close>, after any interleaving of other steps, gets a slot that already
  says present: it cannot start a probe, and what it is answered is \<open>true\<close>.\<close>

theorem marked_key_seen:
  assumes "flight_reachable s" "flight_run (flight_mark k s) evs s1"
    and "now s1 < now s + POSITIVE_TTL" "flight_step s1 (Enter t k) s2"
  shows "(\<nexists>s3. flight_step s2 (Begin t) s3) \<and>
    (\<exists>s3 c. flight_step s2 (Hit t) s3 \<and> tasks s3 t = Answered k (now s1) (Ok True) c)"
proof -
  have "flight_inv (flight_mark k s)"
    using reachable_inv [OF assms(1)] by (simp add: flight_mark_def add_slot_inv)
  then have "seeded k (now s) s1"
    using flight_run_seeded [OF assms(2) _ seeded_mark] by simp
  then obtain i where i: "fmlookup (index s1) k = Some i" "present_cell (heap s1 ! i) = Some True"
    "live (now s1) (heap s1 ! i)"
    using assms(3) by (rule seeded_index_live)
  then have s2: "s2 = set_task t (Waiting k i (now s1)) s1"
    using assms(4) by (simp add: flight_step_simps flight_slot_def)
  have "flight_step s2 (Hit t) (set_task t (Answered k (now s1) (Ok True) (resolved_at (heap s1 ! i))) s2)"
    using i(2) by (simp add: s2 flight_exec_iff)
  moreover have "\<nexists>s3. flight_step s2 (Begin t) s3"
    using i(2) by (simp add: s2 flight_step_simps)
  ultimately show ?thesis by (metis fun_upd_same update_simps(4))
qed

text \<open>No task is stranded. In every reachable state a task waiting on a slot can be
  answered from it, or can start the probe itself, or some task is probing that slot
  (and, by the next property, leaves the slot free for it when the probe fails or is
  cancelled).\<close>

theorem waiting_progress:
  assumes "flight_reachable s" "tasks s t = Waiting k i e"
  shows "(\<exists>s'. flight_step s (Hit t) s') \<or> (\<exists>s'. flight_step s (Begin t) s') \<or>
    (\<exists>u k' e' b. tasks s u = Probing k' i e' b)"
proof -
  have i: "i < length (heap s)" using flight_invD(2) [OF reachable_inv [OF assms(1)], of t] assms(2) by simp
  have ok: "slot_ok s i (heap s ! i)" using flight_invD(3) [OF reachable_inv [OF assms(1)] i] .
  show ?thesis
  proof (cases "present_cell (heap s ! i)")
    case (Some v)
    then show ?thesis using assms(2) by (auto simp: flight_step_simps)
  next
    case None
    show ?thesis
    proof (cases "permit (heap s ! i)")
      case None
      with \<open>present_cell (heap s ! i) = None\<close> assms(2) show ?thesis
        by (auto simp: flight_step_simps)
    next
      case (Some u)
      then show ?thesis using ok by (auto simp: slot_ok_def)
    qed
  qed
qed

text \<open>An error is not shared. When a probe fails, or its task is dropped (client
  disconnected), the slot's cell is left uninitialised and free: every other task waiting on
  it still waits and can start a probe of its own at once.\<close>

theorem failed_probe_frees_slot:
  assumes "flight_reachable s" "tasks s t = Probing k i e b" "tasks s u = Waiting k' i e'"
    and "flight_step s ev s'" "ev = Fail t err \<or> ev = Cancel t"
  shows "tasks s' u = Waiting k' i e' \<and> (\<exists>s''. flight_step s' (Begin u) s'')"
proof -
  note p = permit_uninit [OF reachable_inv [OF assms(1)] assms(2)]
  have "u \<noteq> t" using assms(2,3) by auto
  then show ?thesis
    using assms(2-5) p by (auto simp: flight_step_simps heap_simps)
qed

text \<open>The step relation is executable. A schedule can be run exactly when the relation
  allows it, and then to the same state.\<close>

lemma schedule_runs: "flight_run s evs s' \<longleftrightarrow> flight_exec_all evs s = Some s'"
  by (rule flight_exec_all_iff)

text \<open>Coalescing has a gap. With every probe lasting 30 seconds or less, two probes of one
  key still overlap: the slot's age counts from its creation, not from the start of the
  probe running in it.\<close>

theorem two_probes_of_one_key:
  "\<exists>s. flight_run flight_init
      [Enter 0 k, Enter 1 k, Begin 0, Tick (from_secs 30), Fail 0 err,
       Tick (from_secs 15), Begin 1, Tick (from_secs 15), Enter 2 k, Begin 2] s \<and>
    (\<exists>i e b. tasks s 1 = Probing k i e b \<and> now s \<le> b + from_secs 15) \<and>
    (\<exists>j e' b'. tasks s 2 = Probing k j e' b')"
  by (simp add: flight_exec_all_iff run_simps)

section \<open>Witnesses\<close>

lemma one_probe_per_slot_witness:
  "\<exists>t u. tasks (after [Enter 0 ''a'', Enter 1 ''a'', Begin 0]) t = Probing ''a'' 0 0 0 \<and>
     tasks (after [Enter 0 ''a'', Enter 1 ''a'', Begin 0]) u = Probing ''a'' 0 0 0 \<and> t = u"
proof -
  let ?evs = "[Enter 0 ''a'', Enter 1 ''a'', Begin 0]"
  have r: "flight_reachable (after ?evs)" by (rule after_reachable) (simp add: run_simps)
  have p: "tasks (after ?evs) 0 = Probing ''a'' 0 0 0" by (simp add: after_def run_simps)
  show ?thesis
    by (intro exI conjI) (rule p, rule p, rule one_probe_per_slot [OF r p p])
qed

lemma one_probe_per_key_witness:
  "\<exists>t u. tasks (after [Enter 0 ''a'', Begin 0, Tick 5]) t = Probing ''a'' 0 0 0 \<and>
     tasks (after [Enter 0 ''a'', Begin 0, Tick 5]) u = Probing ''a'' 0 0 0 \<and> t = u"
proof -
  let ?evs = "[Enter 0 ''a'', Begin 0, Tick 5]"
  have r: "flight_reachable (after ?evs)" by (rule after_reachable) (simp add: run_simps)
  have p: "tasks (after ?evs) 0 = Probing ''a'' 0 0 0" by (simp add: after_def run_simps)
  have young: "now (after ?evs) < created (heap (after ?evs) ! 0) + UNRESOLVED_TTL"
    by (simp add: after_def run_simps)
  show ?thesis
    by (intro exI conjI) (rule p, rule p, rule one_probe_per_key [OF r p p young young])
qed

lemma answers_fresh_witness:
  "\<exists>s c. tasks (s :: flight) 1 = Answered ''a'' (from_secs 4) (Ok False) c \<and> from_secs 4 < c + from_secs 5"
proof -
  let ?evs = "[Enter 0 ''a'', Begin 0, Resolve 0 False, Tick (from_secs 4), Enter 1 ''a'', Hit 1]"
  have "flight_reachable (after ?evs)" by (rule after_reachable) (simp add: run_simps)
  moreover have t: "tasks (after ?evs) 1 = Answered ''a'' (from_secs 4) (Ok False) 0"
    by (simp add: after_def run_simps)
  ultimately have "from_secs 4 < 0 + (if False then from_secs 60 else from_secs 5)"
    by (rule answers_fresh)
  then have "from_secs 4 < 0 + from_secs 5" by (simp only: if_False)
  with t show ?thesis by (intro exI [of _ "after ?evs"] exI [of _ 0] conjI)
qed

lemma marked_key_seen_witness:
  "\<exists>s2. flight_step (after [Enter 0 ''a'', Begin 0, Resolve 0 False, Mark ''a'', Tick (from_secs 59)])
      (Enter 1 ''a'') s2 \<and> (\<nexists>s3. flight_step s2 (Begin 1) s3) \<and>
    (\<exists>s3 c. flight_step s2 (Hit 1) s3 \<and> tasks s3 1 = Answered ''a'' (from_secs 59) (Ok True) c)"
proof -
  let ?s = "after [Enter 0 ''a'', Begin 0, Resolve 0 False]"
  let ?s1 = "after [Enter 0 ''a'', Begin 0, Resolve 0 False, Mark ''a'', Tick (from_secs 59)]"
  have r: "flight_reachable ?s" by (rule after_reachable) (simp add: run_simps)
  have run: "flight_run (flight_mark ''a'' ?s) [Tick (from_secs 59)] ?s1"
    by (simp add: flight_exec_all_iff after_def run_simps)
  have n: "now ?s1 < now ?s + POSITIVE_TTL" by (simp add: after_def run_simps)
  obtain s2 where step: "flight_step ?s1 (Enter 1 ''a'') s2"
    by (simp add: flight_exec_iff after_def run_simps)
  have "now ?s1 = from_secs 59" by (simp add: after_def run_simps)
  then show ?thesis using step marked_key_seen [OF r run n step] by auto
qed

lemma waiting_progress_witness:
  "\<exists>u k' e' b. tasks (after [Enter 0 ''a'', Enter 1 ''a'', Begin 0]) u = Probing k' 0 e' b"
proof -
  let ?evs = "[Enter 0 ''a'', Enter 1 ''a'', Begin 0]"
  have "flight_reachable (after ?evs)" by (rule after_reachable) (simp add: run_simps)
  moreover have "tasks (after ?evs) 1 = Waiting ''a'' 0 0" by (simp add: after_def run_simps)
  moreover have "\<nexists>s'. flight_step (after ?evs) (Hit 1) s'" "\<nexists>s'. flight_step (after ?evs) (Begin 1) s'"
    by (simp_all add: flight_exec_iff after_def run_simps)
  ultimately show ?thesis using waiting_progress [of "after ?evs" 1 "''a''" 0 0] by blast
qed

lemma failed_probe_frees_slot_witness:
  "\<exists>s' s''. flight_step (after [Enter 0 ''a'', Enter 1 ''a'', Begin 0]) (Cancel 0) s' \<and>
    flight_step s' (Begin 1) s''"
proof -
  let ?evs = "[Enter 0 ''a'', Enter 1 ''a'', Begin 0]"
  have "flight_reachable (after ?evs)" by (rule after_reachable) (simp add: run_simps)
  moreover have "tasks (after ?evs) 0 = Probing ''a'' 0 0 0" "tasks (after ?evs) 1 = Waiting ''a'' 0 0"
    by (simp_all add: after_def run_simps)
  moreover obtain s' where "flight_step (after ?evs) (Cancel 0) s'"
    by (simp add: flight_exec_iff after_def run_simps)
  ultimately show ?thesis
    using failed_probe_frees_slot [of "after ?evs" 0 "''a''" 0 0 0 1 "''a''" 0 "Cancel 0" s'] by blast
qed

end
