(* ===== verification/Flight_Spec.thy ===== *)
theory Flight_Spec
  imports Flight_Views
begin

text \<open>
  What the existence cache is, without slots, indices and sweeps: a memory that recalls, for
  each key, one bit until a deadline. The concurrent cache of \<open>Single_Flight\<close> implements it
  under every interleaving.
\<close>

section \<open>A memory with deadlines\<close>

type_synonym memory = "string \<Rightarrow> (bool \<times> instant) option"

definition recalls :: "memory \<Rightarrow> string \<Rightarrow> instant \<Rightarrow> bool option" where
  "recalls mem k t = (case mem k of None \<Rightarrow> None | Some (v, deadline) \<Rightarrow> if t < deadline then Some v else None)"

text \<open>Two memories that cannot be told apart from an instant on.\<close>

definition same_from :: "instant \<Rightarrow> memory \<Rightarrow> memory \<Rightarrow> bool" where
  "same_from n mem mem' \<longleftrightarrow> (\<forall>k t. n \<le> t \<longrightarrow> recalls mem k t = recalls mem' k t)"

text \<open>An object that was found is remembered for a minute, one that was missing for 5 seconds.\<close>

definition lifetime :: "bool \<Rightarrow> duration" where
  "lifetime v = from_secs (if v then 60 else 5)"

lemma same_from_refl [simp]: "same_from n mem mem"
  by (simp add: same_from_def)

lemma same_fromI: "(\<And>k t. n \<le> t \<Longrightarrow> recalls mem k t = recalls mem' k t) \<Longrightarrow> same_from n mem mem'"
  by (simp add: same_from_def)

section \<open>The memory that the cache holds\<close>

definition memory_of :: "flight \<Rightarrow> memory" where
  "memory_of s k =
     (case fmlookup (index s) k of
        None \<Rightarrow> None
      | Some i \<Rightarrow> map_option (\<lambda>v. (v, created (heap s ! i) + lifetime v)) (present_cell (heap s ! i)))"

lemma memory_cong: "index s' = index s \<Longrightarrow> heap s' = heap s \<Longrightarrow> memory_of s' = memory_of s"
  by (simp add: memory_of_def fun_eq_iff split: option.split)

lemma memory_set_task [simp]: "memory_of (set_task t st s) = memory_of s"
  by (rule memory_cong) simp_all

lemma live_deadline: "present_cell x = Some v \<Longrightarrow> live t x \<longleftrightarrow> t < created x + lifetime v"
  by (cases v) (auto simp: live_ttl lifetime_def POSITIVE_TTL_def NEGATIVE_TTL_def from_secs_def)

lemma recalls_memory_of: "recalls (memory_of s) k t = answer (view s) k t"
  by (cases "fmlookup (index s) k"; cases "present_cell (heap s ! the (fmlookup (index s) k))")
    (auto simp: recalls_def memory_of_def answer_def fmlookup_view live_deadline slot.truncate_def
      simp del: live_truncate)

lemma same_from_answers:
  "same_from n (memory_of s') (memory_of s) \<longleftrightarrow> (\<forall>k t. n \<le> t \<longrightarrow> answer (view s') k t = answer (view s) k t)"
  by (simp add: same_from_def recalls_memory_of)

lemma same_memory: "view s' = view s \<Longrightarrow> same_from n (memory_of s') (memory_of s)"
  by (simp add: same_from_answers)

text \<open>A slot that is added for a key overwrites what is remembered of it, and of nothing else.\<close>

lemma answer_add_slot:
  assumes "flight_inv s" "now s \<le> t"
  shows "answer (view (add_slot k cell s)) k' t =
    (if k' = k then (if t < now s + ttl cell then cell else None) else answer (view s) k' t)"
  using assms(2) ttl_pos [of cell]
  by (auto simp: view_add_slot [OF assms(1)] answer_fmupd answer_sweep live_ttl)

lemma answer_dead: "\<not> index_live s k \<Longrightarrow> now s \<le> t \<Longrightarrow> answer (view s) k t = None"
  by (auto simp: answer_def live_at_view [symmetric] live_at_def split: option.splits dest: live_antimono)

lemma memory_mark:
  assumes "flight_inv s"
  shows "same_from (now s) (memory_of (flight_mark k s)) ((memory_of s)(k \<mapsto> (True, now s + lifetime True)))"
proof (rule same_fromI)
  fix k' t assume "now s \<le> t"
  then show "recalls (memory_of (flight_mark k s)) k' t =
      recalls ((memory_of s)(k \<mapsto> (True, now s + lifetime True))) k' t"
    unfolding recalls_memory_of flight_mark_def answer_add_slot [OF assms \<open>now s \<le> t\<close>]
    by (auto simp: recalls_memory_of [symmetric] recalls_def lifetime_def POSITIVE_TTL_def)
qed

text \<open>A caller gets a slot that says what is recalled, and that is unresolved when nothing is.\<close>

lemma memory_enter:
  assumes "flight_inv s" "flight_slot k s = (i, s1)"
  shows "same_from (now s) (memory_of s1) (memory_of s)"
    and "present_cell (heap s1 ! i) = recalls (memory_of s) k (now s)"
  using assms(2)
proof (atomize (full), cases rule: flight_slot_cases)
  case shared
  have "recalls (memory_of s) k (now s) = present_cell (heap s ! i)"
    using shared(1,2) by (simp add: recalls_memory_of answer_def fmlookup_view slot.truncate_def [of "heap s ! i"] live_ttl)
  then show "same_from (now s) (memory_of s1) (memory_of s) \<and>
      present_cell (heap s1 ! i) = recalls (memory_of s) k (now s)"
    using shared(3) by simp
next
  case fresh
  have "same_from (now s) (memory_of s1) (memory_of s)"
    unfolding same_from_answers fresh(3) using answer_add_slot [OF assms(1), of _ k None] answer_dead [OF fresh(1)] by simp
  moreover have "present_cell (heap s1 ! i) = recalls (memory_of s) k (now s)"
    using answer_dead [OF fresh(1)] by (simp add: fresh(2,3) heap_simps recalls_memory_of)
  ultimately show "same_from (now s) (memory_of s1) (memory_of s) \<and>
      present_cell (heap s1 ! i) = recalls (memory_of s) k (now s)" ..
qed

text \<open>A probe that ends well teaches its answer, with a deadline that counts from the creation of the
  slot, unless the slot is not the key's any more.\<close>

lemma memory_resolve:
  assumes "flight_inv s" "i < length (heap s)" "slot_key (heap s ! i) = k"
  shows "memory_of (resolve_slot i v s) =
    (if fmlookup (index s) k = Some i then (memory_of s)(k \<mapsto> (v, created (heap s ! i) + lifetime v)) else memory_of s)"
proof (rule ext)
  fix k'
  show "memory_of (resolve_slot i v s) k' =
    (if fmlookup (index s) k = Some i then (memory_of s)(k \<mapsto> (v, created (heap s ! i) + lifetime v)) else memory_of s) k'"
  proof (cases "fmlookup (index s) k'")
    case (Some j)
    then have "j = i \<Longrightarrow> k' = k" using flight_invD(1) [OF assms(1)] assms(3) by simp
    then show ?thesis using Some assms(2) by (auto simp: memory_of_def heap_simps nth_list_update)
  qed (auto simp: memory_of_def heap_simps)
qed

section \<open>The refinement\<close>

text \<open>C34: the concurrent cache is a memory with deadlines. Under every interleaving, and from the
  present instant on, what the cache holds changes as that of a memory does: a recorded write
  is recalled as present for 60 seconds; a probe that ends with an answer teaches it, until 60
  seconds (present) or 5 seconds (absent) after its slot was made, unless a write or a newer
  slot has replaced that slot; and nothing else changes it: not a caller that enters, waits,
  probes, is answered, fails or is dropped, not the sweep, and no other key. A caller that
  enters is told at once what the memory recalls, and when it recalls nothing gets a slot
  that only a probe resolves.\<close>

theorem cache_refines_memory:
  assumes "flight_reachable s" "flight_step s ev s'"
  shows "case ev of
      Mark k \<Rightarrow> same_from (now s) (memory_of s') ((memory_of s)(k \<mapsto> (True, now s + from_secs 60)))
    | Resolve t v \<Rightarrow>
        (\<exists>k i e b. tasks s t = Probing k i e b \<and> created (heap s ! i) \<le> now s \<and>
           same_from (now s) (memory_of s')
             (if fmlookup (index s) k = Some i
              then (memory_of s)(k \<mapsto> (v, created (heap s ! i) + from_secs (if v then 60 else 5))) else memory_of s))
    | Enter t k \<Rightarrow>
        same_from (now s) (memory_of s') (memory_of s) \<and>
        (\<exists>i. tasks s' t = Waiting k i (now s) \<and> present_cell (heap s' ! i) = recalls (memory_of s) k (now s))
    | _ \<Rightarrow> same_from (now s) (memory_of s') (memory_of s)"
  using assms(2)
proof (cases rule: flight_step.cases)
  case (enter t k i s1)
  note e = memory_enter [OF reachable_inv [OF assms(1)] enter(4)]
  then show ?thesis using enter(1,2) by simp
next
  case (resolve t k i e b v)
  note p = permit_uninit [OF reachable_inv [OF assms(1)] resolve(3)]
  have "created (heap s ! i) \<le> now s"
    using flight_invD(3) [OF reachable_inv [OF assms(1)], of i] p by (simp add: slot_ok_def)
  then show ?thesis
    using memory_resolve [OF reachable_inv [OF assms(1)], of i k v] p resolve(1-3) by (auto simp: lifetime_def)
next
  case (mark k)
  then show ?thesis using memory_mark [OF reachable_inv [OF assms(1)], of k] by (simp add: lifetime_def)
next
  case (tick d)
  then show ?thesis by (simp add: memory_cong [of "s\<lparr>now := n\<rparr>" s for n])
qed (simp_all add: same_memory)

text \<open>A probe whose key was written while it ran: its late "absent" is not remembered.\<close>

lemma cache_refines_memory_witness:
  "same_from 0 (memory_of (after [Enter 0 ''a'', Begin 0, Mark ''a'', Resolve 0 False]))
     (memory_of (after [Enter 0 ''a'', Begin 0, Mark ''a'']))"
proof -
  let ?evs = "[Enter 0 ''a'', Begin 0, Mark ''a'']"
  have r: "flight_reachable (after ?evs)" by (rule after_reachable) (simp add: run_simps)
  have s: "flight_step (after ?evs) (Resolve 0 False) (after (?evs @ [Resolve 0 False]))"
    by (simp add: flight_exec_iff after_def run_simps)
  have t: "tasks (after ?evs) 0 = Probing ''a'' 0 0 0" "fmlookup (index (after ?evs)) ''a'' = Some 1" "now (after ?evs) = 0"
    by (simp_all add: after_def run_simps)
  show ?thesis using cache_refines_memory [OF r s] t by auto
qed

end
