(* ===== verification/Rust_Strings.thy ===== *)
theory Rust_Strings
  imports Prelude_Lib
begin

text \<open>
  What the server uses of Rust's \<open>str\<close>, \<open>char\<close> and \<open>u64\<close>: the decoding of UTF-8 into
  Unicode scalar values (\<open>str::chars\<close>), \<open>char::is_alphanumeric\<close> and \<open>str::parse::<u64>\<close>.

  A string is the list of its bytes, so \<open>length\<close> is \<open>str::len\<close>. The Unicode tables behind
  \<open>is_alphanumeric\<close> are the argument \<open>uni\<close>, read only for scalar values of 128 and above;
  below, the predicate is the ASCII one.
\<close>

section \<open>UTF-8\<close>

definition cont_byte :: "string \<Rightarrow> nat \<Rightarrow> nat" where
  "cont_byte bs i = (if i < length bs then of_char (bs ! i) mod 64 else 0)"

text \<open>
  \<open>str::chars\<close> on well-formed UTF-8: the lead byte gives the number of continuation bytes.
\<close>

fun chars :: "string \<Rightarrow> nat list" where
  "chars [] = []"
| "chars (b # bs) =
     (let n = (of_char b :: nat) in
      if n < 128 then n # chars bs
      else if n < 224 then (n mod 32 * 64 + cont_byte bs 0) # chars (drop 1 bs)
      else if n < 240 then
        (n mod 16 * 4096 + cont_byte bs 0 * 64 + cont_byte bs 1) # chars (drop 2 bs)
      else
        (n mod 8 * 262144 + cont_byte bs 0 * 4096 + cont_byte bs 1 * 64 + cont_byte bs 2)
          # chars (drop 3 bs))"

definition encode_bytes :: "nat \<Rightarrow> nat list" where
  "encode_bytes c =
     (if c < 128 then [c]
      else if c < 2048 then [192 + c div 64, 128 + c mod 64]
      else if c < 65536 then [224 + c div 4096, 128 + c div 64 mod 64, 128 + c mod 64]
      else
        [240 + c div 262144, 128 + c div 4096 mod 64, 128 + c div 64 mod 64, 128 + c mod 64])"

definition encode_char :: "nat \<Rightarrow> string" where
  "encode_char c = map char_of (encode_bytes c)"

definition encode_utf8 :: "nat list \<Rightarrow> string" where
  "encode_utf8 cs = concat (map encode_char cs)"

text \<open>A Unicode scalar value, the values of Rust's \<open>char\<close>.\<close>

definition is_scalar :: "nat \<Rightarrow> bool" where
  "is_scalar c \<longleftrightarrow> c < 0xD800 \<or> 0xE000 \<le> c \<and> c < 0x110000"

subsection \<open>Decoding inverts encoding\<close>

lemma of_char_char_of_nat: "n < 256 \<Longrightarrow> (of_char (char_of n) :: nat) = n"
  by simp

lemma cont_byte_value: "of_char (char_of (128 + x mod 64)) mod 64 = (x mod 64 :: nat)"
proof -
  have "x mod 64 < 64" by (rule mod_less_divisor) (rule zero_less_numeral)
  then have "128 + x mod 64 < 256" by linarith
  then have "of_char (char_of (128 + x mod 64)) = 128 + x mod 64"
    by (rule of_char_char_of_nat)
  moreover have "(128 + x mod 64) mod 64 = (128 mod 64 + x mod 64) mod 64"
    by (simp only: mod_add_left_eq)
  ultimately show ?thesis by (simp only: mod_mod_trivial) simp
qed

lemma chars_1: "of_char b < (128::nat) \<Longrightarrow> chars (b # s) = of_char b # chars s"
  by simp

lemma chars_2:
  assumes "(128::nat) \<le> of_char b" "of_char b < (224::nat)"
  shows "chars (b # b1 # s) = (of_char b mod 32 * 64 + of_char b1 mod 64) # chars s"
  using assms by (simp add: Let_def cont_byte_def)

lemma chars_3:
  assumes "(224::nat) \<le> of_char b" "of_char b < (240::nat)"
  shows "chars (b # b1 # b2 # s) =
    (of_char b mod 16 * 4096 + of_char b1 mod 64 * 64 + of_char b2 mod 64) # chars s"
  using assms by (simp add: Let_def cont_byte_def)

lemma chars_4:
  assumes "(240::nat) \<le> of_char b"
  shows "chars (b # b1 # b2 # b3 # s) =
    (of_char b mod 8 * 262144 + of_char b1 mod 64 * 4096 + of_char b2 mod 64 * 64
      + of_char b3 mod 64) # chars s"
  using assms by (simp add: Let_def cont_byte_def)

declare chars.simps(2) [simp del]

lemma lead_byte:
  assumes "k + x < (256::nat)" "k mod m = 0" "x < m"
  shows "of_char (char_of (k + x)) = k + x" "of_char (char_of (k + x)) mod m = x"
proof -
  show eq: "of_char (char_of (k + x)) = k + x"
    using assms(1) by (rule of_char_char_of_nat)
  have "(k + x) mod m = (k mod m + x) mod m" by (simp add: mod_simps)
  then show "of_char (char_of (k + x)) mod m = x"
    using assms eq by simp
qed

lemma split_64: "c div 64 * 64 + c mod 64 = (c::nat)"
  by (rule div_mult_mod_eq)

lemma div_4096: "c div 4096 = c div 64 div (64::nat)"
  by (simp add: div_mult2_eq [symmetric])

lemma div_262144: "c div 262144 = c div 64 div 64 div (64::nat)"
  by (simp add: div_mult2_eq [symmetric])

lemma recombine:
  "a * 64 + b = q \<Longrightarrow> q * 64 + r = c \<Longrightarrow> a * 4096 + b * 64 + r = (c::nat)"
  "a * 64 + b = q \<Longrightarrow> q * 4096 + r = c \<Longrightarrow> a * 262144 + b * 4096 + r = (c::nat)"
  by simp_all

lemma split_4096: "c div 4096 * 4096 + c div 64 mod 64 * 64 + c mod 64 = (c::nat)"
  unfolding div_4096 by (rule recombine(1) [OF split_64 split_64])

lemma split_262144:
  "c div 262144 * 262144 + c div 4096 mod 64 * 4096 + c div 64 mod 64 * 64 + c mod 64 = (c::nat)"
proof -
  have "c div 4096 div 64 * 64 + c div 4096 mod 64 = c div 4096"
    by (rule split_64)
  moreover have "c div 4096 * 4096 + (c div 64 mod 64 * 64 + c mod 64) = c"
    using split_4096 [of c] by (simp only: add.assoc)
  ultimately have "c div 4096 div 64 * 262144 + c div 4096 mod 64 * 4096
      + (c div 64 mod 64 * 64 + c mod 64) = c"
    by (rule recombine(2))
  moreover have "c div 4096 div 64 = c div 262144"
    by (simp only: div_262144 div_4096)
  ultimately show ?thesis by (simp only: add.assoc)
qed

lemma div_bound: "(c::nat) < a * b \<Longrightarrow> c div b < a"
  by (simp add: less_mult_imp_div_less)

lemma chars_encode_char:
  assumes "c < 0x110000"
  shows "chars (encode_char c @ s) = c # chars s"
proof -
  consider "c < 128" | "128 \<le> c" "c < 2048" | "2048 \<le> c" "c < 65536" | "65536 \<le> c"
    by linarith
  then show ?thesis
  proof cases
    case 1
    then show ?thesis by (simp add: encode_char_def encode_bytes_def chars_1)
  next
    case 2
    then have b: "c div 64 < 32" using div_bound [of c 32 64] by simp
    have "chars (char_of (192 + c div 64) # char_of (128 + c mod 64) # s) = c # chars s"
      using lead_byte [of 192 "c div 64" 32] b
      by (subst chars_2) (simp_all add: cont_byte_value split_64 del: of_char_of)
    then show ?thesis using 2 by (simp add: encode_char_def encode_bytes_def)
  next
    case 3
    then have b: "c div 4096 < 16" using div_bound [of c 16 4096] by simp
    have "chars (char_of (224 + c div 4096) # char_of (128 + c div 64 mod 64)
        # char_of (128 + c mod 64) # s) = c # chars s"
      using lead_byte [of 224 "c div 4096" 16] b
      by (subst chars_3) (simp_all add: cont_byte_value split_4096 del: of_char_of)
    then show ?thesis using 3 by (simp add: encode_char_def encode_bytes_def)
  next
    case 4
    have b: "c div 262144 < 5" using assms div_bound [of c 5 262144] by simp
    have "chars (char_of (240 + c div 262144) # char_of (128 + c div 4096 mod 64)
        # char_of (128 + c div 64 mod 64) # char_of (128 + c mod 64) # s) = c # chars s"
      using lead_byte [of 240 "c div 262144" 8] b
      by (subst chars_4) (simp_all add: cont_byte_value split_262144 del: of_char_of)
    then show ?thesis using 4 by (simp add: encode_char_def encode_bytes_def)
  qed
qed

lemma is_scalar_bound: "is_scalar c \<Longrightarrow> c < 0x110000"
  by (auto simp: is_scalar_def)

lemma chars_encode_utf8: "list_all is_scalar cs \<Longrightarrow> chars (encode_utf8 cs) = cs"
  by (induction cs) (simp_all add: encode_utf8_def chars_encode_char is_scalar_bound)

text \<open>A byte below 128 of an encoded string is a character of its own.\<close>

lemma cont_high: "128 \<le> 128 + x mod 64 \<and> 128 + x mod 64 < (256::nat)"
proof -
  have "x mod 64 < 64" by (rule mod_less_divisor) (rule zero_less_numeral)
  then show ?thesis by linarith
qed

lemma encode_bytes_high:
  assumes "128 \<le> c" "c < 0x110000"
  shows "\<forall>n \<in> set (encode_bytes c). 128 \<le> n \<and> n < 256"
proof -
  have leads: "c < 2048 \<Longrightarrow> 192 + c div 64 < 256" "c < 65536 \<Longrightarrow> 224 + c div 4096 < 256"
      "240 + c div 262144 < 256"
    using div_bound [of c 32 64] div_bound [of c 16 4096] div_bound [of c 5 262144] assms(2)
    by simp_all
  then show ?thesis
    using assms(1) cont_high [of c] cont_high [of "c div 64"] cont_high [of "c div 4096"]
    by (simp only: encode_bytes_def split: if_split) (simp del: mod_less)
qed

lemma encode_char_ascii_byte:
  assumes "b \<in> set (encode_char c)" "c < 0x110000" "of_char b < (128::nat)"
  shows "c = of_char b"
proof (cases "c < 128")
  case True
  then show ?thesis using assms(1)
    by (simp add: encode_char_def encode_bytes_def of_char_char_of_nat del: of_char_of)
next
  case False
  obtain n where n: "n \<in> set (encode_bytes c)" "b = char_of n"
    using assms(1) by (auto simp: encode_char_def)
  have "128 \<le> c" using False by simp
  then have "128 \<le> n" "n < 256" using encode_bytes_high assms(2) n(1) by blast+
  then have "(of_char b :: nat) = n" using n(2) by (simp only: of_char_char_of_nat)
  then show ?thesis using assms(3) \<open>128 \<le> n\<close> by linarith
qed

lemma encode_utf8_ascii_byte:
  assumes "b \<in> set (encode_utf8 cs)" "list_all is_scalar cs" "of_char b < (128::nat)"
  shows "of_char b \<in> set cs"
proof -
  obtain c where c: "c \<in> set cs" "b \<in> set (encode_char c)"
    using assms(1) by (auto simp: encode_utf8_def)
  then have "c < 0x110000" using assms(2) by (simp add: list_all_iff is_scalar_bound)
  with c(2) have "c = of_char b" using assms(3) by (rule encode_char_ascii_byte)
  then show ?thesis using c(1) by simp
qed

section \<open>Characters and numbers\<close>

definition ascii_alphanumeric :: "nat \<Rightarrow> bool" where
  "ascii_alphanumeric c \<longleftrightarrow> 48 \<le> c \<and> c \<le> 57 \<or> 65 \<le> c \<and> c \<le> 90 \<or> 97 \<le> c \<and> c \<le> 122"

definition is_alphanumeric :: "(nat \<Rightarrow> bool) \<Rightarrow> nat \<Rightarrow> bool" where
  "is_alphanumeric uni c = (if c < 128 then ascii_alphanumeric c else uni c)"

text \<open>
  \<open>str::parse::<u64>\<close>: an optional \<open>+\<close>, then at least one decimal digit, and no value above
  \<open>2 ^ 64 - 1\<close>.
\<close>

fun parse_digits :: "nat \<Rightarrow> string \<Rightarrow> nat option" where
  "parse_digits acc [] = (if acc < 2 ^ 64 then Some acc else None)"
| "parse_digits acc (b # bs) =
     (let n = (of_char b :: nat) in
      if 48 \<le> n \<and> n \<le> 57 then parse_digits (acc * 10 + (n - 48)) bs else None)"

definition parse_u64 :: "string \<Rightarrow> 64 word option" where
  "parse_u64 s =
     (let digits = (if prefix ''+'' s then drop 1 s else s) in
      if digits = [] then None else map_option of_nat (parse_digits 0 digits))"

end
