(* ===== verification/Http.thy ===== *)
theory Http
  imports Storage Rust_Strings
begin

text \<open>
  The HTTP data the server handles: methods, status codes, headers, requests and responses.
  A header map is an association list of lower-case names and byte values; \<open>get\<close> finds the
  first value of a name and \<open>insert\<close> replaces every value of it, as in the \<open>http\<close> crate.
\<close>

datatype http_method =
  GET | HEAD | PUT | POST | DELETE | PATCH | OPTIONS | TRACE | CONNECT | Extension string

fun method_name :: "http_method \<Rightarrow> string" where
  "method_name GET = ''GET''"
| "method_name HEAD = ''HEAD''"
| "method_name PUT = ''PUT''"
| "method_name POST = ''POST''"
| "method_name DELETE = ''DELETE''"
| "method_name PATCH = ''PATCH''"
| "method_name OPTIONS = ''OPTIONS''"
| "method_name TRACE = ''TRACE''"
| "method_name CONNECT = ''CONNECT''"
| "method_name (Extension s) = s"

datatype status_code =
    HTTP_OK
  | BAD_REQUEST
  | UNAUTHORIZED
  | FORBIDDEN
  | NOT_FOUND
  | METHOD_NOT_ALLOWED
  | CONFLICT
  | INTERNAL_SERVER_ERROR

fun as_u16 :: "status_code \<Rightarrow> nat" where
  "as_u16 HTTP_OK = 200"
| "as_u16 BAD_REQUEST = 400"
| "as_u16 UNAUTHORIZED = 401"
| "as_u16 FORBIDDEN = 403"
| "as_u16 NOT_FOUND = 404"
| "as_u16 METHOD_NOT_ALLOWED = 405"
| "as_u16 CONFLICT = 409"
| "as_u16 INTERNAL_SERVER_ERROR = 500"

lemma as_u16_5xx: "500 \<le> as_u16 s \<longleftrightarrow> s = INTERNAL_SERVER_ERROR"
  by (cases s) simp_all

type_synonym headers = "(string \<times> string) list"

definition header_get :: "headers \<Rightarrow> string \<Rightarrow> string option" where
  "header_get hs n = map_of hs n"

definition header_insert :: "string \<Rightarrow> string \<Rightarrow> headers \<Rightarrow> headers" where
  "header_insert n v hs = (n, v) # filter (\<lambda>(n', _). n' \<noteq> n) hs"

lemma header_get_insert [simp]:
  "header_get (header_insert n v hs) n' = (if n' = n then Some v else header_get hs n')"
  by (induction hs) (auto simp: header_get_def header_insert_def)

lemma header_insert_unique: "[x \<leftarrow> header_insert n v hs. fst x = n] = [(n, v)]"
  by (induction hs) (auto simp: header_insert_def)

datatype payload = Text string | Artifact body | Empty

record request =
  req_method :: http_method
  req_path :: string
  req_headers :: headers
  req_body :: body

record response =
  status :: status_code
  resp_headers :: headers
  resp_body :: payload

text \<open>
  \<open>IntoResponse\<close> for a status and a \<open>&str\<close>: the text is typed as plain UTF-8 text.
  \<open>IntoResponse\<close> for a status, a header and a \<open>&str\<close>: the header replaces that type.
\<close>

definition text_response :: "status_code \<Rightarrow> string \<Rightarrow> response" where
  "text_response s msg =
     \<lparr>status = s, resp_headers = [(''content-type'', ''text/plain; charset=utf-8'')],
      resp_body = Text msg\<rparr>"

definition typed_text_response :: "status_code \<Rightarrow> string \<Rightarrow> string \<Rightarrow> response" where
  "typed_text_response s ctype msg =
     (text_response s msg)\<lparr>resp_headers :=
        header_insert ''content-type'' ctype (resp_headers (text_response s msg))\<rparr>"

end
