(* ===== verification/Server_Error.thy ===== *)
theory Server_Error
  imports Http
begin

text \<open>
  The server's error type and its translation into a response (\<open>src/server/error.rs\<close>).
\<close>

datatype server_error = BadRequest | Unauthorized | Forbidden | InternalError | Storage storage_error

fun server_error_display :: "server_error \<Rightarrow> string" where
  "server_error_display BadRequest = ''Bad request''"
| "server_error_display Unauthorized = ''Unauthorized''"
| "server_error_display Forbidden = ''Forbidden''"
| "server_error_display InternalError = ''Internal server error''"
| "server_error_display (Storage e) = ''Storage error: '' @ storage_error_display e"

fun error_status_message :: "server_error \<Rightarrow> status_code \<times> string" where
  "error_status_message (Storage NotFound) = (NOT_FOUND, ''The record was not found'')"
| "error_status_message (Storage AlreadyExists) = (CONFLICT, ''Cannot override an existing record'')"
| "error_status_message (Storage ClientAbort) = (BAD_REQUEST, ''Client disconnected during upload'')"
| "error_status_message BadRequest = (BAD_REQUEST, ''Bad request'')"
| "error_status_message Unauthorized = (UNAUTHORIZED, ''Unauthorized'')"
| "error_status_message Forbidden = (FORBIDDEN, ''Forbidden'')"
| "error_status_message _ = (INTERNAL_SERVER_ERROR, ''Internal server error'')"

text \<open>
  The fallback arm logs every error but a storage error, which the storage layer has
  logged already.
\<close>

fun error_log :: "server_error \<Rightarrow> 's machine \<Rightarrow> 's machine" where
  "error_log InternalError m = emit (Server_Error_Event (server_error_display InternalError)) m"
| "error_log e m = m"

definition into_response :: "server_error \<Rightarrow> 's machine \<Rightarrow> response \<times> 's machine" where
  "into_response e m =
     (let (s, msg) = error_status_message e
      in (typed_text_response s ''text/plain'' msg, error_log e m))"

lemma error_log_later [simp]: "later m (error_log e m)"
  by (cases e) simp_all

lemma error_log_frame [simp]:
  "clock (error_log e m) = clock m" "calls (error_log e m) = calls m"
  "backend (error_log e m) = backend m"
  by (cases e; simp)+

lemma status_into_response: "status (fst (into_response e m)) = fst (error_status_message e)"
  by (simp add: into_response_def typed_text_response_def text_response_def split: prod.split)

lemma into_response_machine: "snd (into_response e m) = error_log e m"
  by (simp add: into_response_def split: prod.split)

lemma error_message_nonempty: "snd (error_status_message e) \<noteq> []"
  by (cases e rule: error_status_message.cases) simp_all

lemma into_response_body:
  "resp_body (fst (into_response e m)) = Text (snd (error_status_message e))"
  by (simp add: into_response_def typed_text_response_def text_response_def split: prod.split)

lemma into_response_content_type:
  "header_get (resp_headers (fst (into_response e m))) ''content-type'' = Some ''text/plain''"
  by (simp add: into_response_def typed_text_response_def split: prod.split)

lemma error_status_5xx:
  "fst (error_status_message e) = INTERNAL_SERVER_ERROR
    \<longleftrightarrow> e = InternalError \<or> e = Storage OperationFailed"
  by (cases e rule: error_status_message.cases) simp_all

end
