(* ===== verification/Validation.thy ===== *)
theory Validation
  imports Server_Error
begin

text \<open>
  The check of a cache key (\<open>src/server/validation.rs\<close>): not empty, every character
  alphanumeric or one of \<open>-\<close> and \<open>_\<close>, and at most 128 bytes. \<open>uni\<close> is the Unicode table
  of \<open>char::is_alphanumeric\<close> above ASCII.
\<close>

definition hash_char :: "(nat \<Rightarrow> bool) \<Rightarrow> nat \<Rightarrow> bool" where
  "hash_char uni c \<longleftrightarrow> is_alphanumeric uni c \<or> c = 45 \<or> c = 95"

definition validate_hash :: "(nat \<Rightarrow> bool) \<Rightarrow> string \<Rightarrow> server_error + unit" where
  "validate_hash uni hash =
     (if hash = [] then Err BadRequest
      else if \<not> list_all (hash_char uni) (chars hash) then Err BadRequest
      else if length hash > 128 then Err BadRequest
      else Ok ())"

lemma validate_hash_Ok_iff:
  "validate_hash uni h = Ok () \<longleftrightarrow>
     h \<noteq> [] \<and> list_all (hash_char uni) (chars h) \<and> length h \<le> 128"
  by (simp add: validate_hash_def)

lemma validate_hash_cases: "validate_hash uni h = Ok () \<or> validate_hash uni h = Err BadRequest"
  by (simp add: validate_hash_def)

lemma validate_hash_Err: "validate_hash uni h = Err e \<Longrightarrow> e = BadRequest"
  using validate_hash_cases [of uni h] by auto

text \<open>Over ASCII the accepted characters are exactly \<open>A-Z\<close>, \<open>a-z\<close>, \<open>0-9\<close>, \<open>-\<close> and \<open>_\<close>.\<close>

lemma hash_char_ascii:
  "c < 128 \<Longrightarrow> hash_char uni c \<longleftrightarrow> ascii_alphanumeric c \<or> c = 45 \<or> c = 95"
  by (simp add: hash_char_def is_alphanumeric_def)

lemma hash_char_ascii_reject:
  "hash_char uni c \<Longrightarrow> c < 128 \<Longrightarrow> c \<noteq> 46 \<and> c \<noteq> 47 \<and> c \<noteq> 37 \<and> 32 < c"
  by (auto simp: hash_char_ascii ascii_alphanumeric_def)

end
