(* ===== verification/Config.thy ===== *)
theory Config
  imports Rust_Strings
begin

text \<open>
  The server's configuration (\<open>src/domain/config.rs\<close>) and the program's error type
  (\<open>src/error.rs\<close>): the errors with their messages, and the validation every start goes
  through. Reading the values from flags and environment variables is \<open>clap\<close>'s work and not
  modelled.
\<close>

datatype config_error = MissingField string | Invalid string

datatype ip_addr = V4 "32 word" | V6 "128 word"

record server_config =
  port :: "16 word"
  bind_address :: ip_addr
  service_access_token :: string
  read_only_access_token :: "string option"

definition validate_server :: "server_config \<Rightarrow> config_error + unit" where
  "validate_server cfg =
     (if service_access_token cfg = [] then Err (MissingField ''SERVICE_ACCESS_TOKEN'')
      else
        (let port_check =
           (if port cfg = 0 then Err (Invalid ''port must be greater than 0'') else Ok ())
         in case read_only_access_token cfg of
              None \<Rightarrow> port_check
            | Some read_only_token \<Rightarrow>
                if read_only_token = [] then
                  Err (Invalid ''READ_ONLY_ACCESS_TOKEN must not be empty when provided'')
                else if read_only_token = service_access_token cfg then
                  Err (Invalid ''READ_ONLY_ACCESS_TOKEN must differ from SERVICE_ACCESS_TOKEN, otherwise it would grant write access'')
                else port_check))"

lemma validate_server_Ok_iff:
  "validate_server cfg = Ok () \<longleftrightarrow>
     service_access_token cfg \<noteq> [] \<and> port cfg \<noteq> 0 \<and>
     read_only_access_token cfg \<noteq> Some [] \<and>
     read_only_access_token cfg \<noteq> Some (service_access_token cfg)"
  by (auto simp: validate_server_def Let_def split: option.splits)

section \<open>Messages\<close>

text \<open>
  \<open>impl Display for ConfigError\<close>: the lines written by the successive \<open>writeln!\<close>, each then
  ended by a newline.
\<close>

definition missing_field_lines :: "string \<Rightarrow> string list" where
  "missing_field_lines field =
     (if field = ''AWS_REGION'' then
        [''Could not determine AWS region.'',
         ''Pls provide it via --region or AWS_REGION environment variable.'',
         '''',
         ''Note: If you see IMDS timeout warnings above, it means the program'',
         ''      attempted to auto-discover the region from EC2 metadata but'',
         ''      you are not running on AWS infrastructure.'']
      else if field = ''AWS_SECRET_ACCESS_KEY'' then
        [''AWS credentials must be provided as a complete pair.'',
         '''',
         ''You provided AWS_ACCESS_KEY_ID but not AWS_SECRET_ACCESS_KEY.'',
         '''',
         ''Alternatively, omit both to use AWS credential provider chain'',
         ''(IAM roles, instance profiles, etc.).'']
      else if field = ''AWS_ACCESS_KEY_ID'' then
        [''AWS credentials must be provided as a complete pair.'',
         '''',
         ''You provided AWS_SECRET_ACCESS_KEY but not AWS_ACCESS_KEY_ID.'',
         '''',
         ''Alternatively, omit both to use AWS credential provider chain'',
         ''(IAM roles, instance profiles, etc.).'']
      else if field = ''S3_BUCKET_NAME'' then
        [''S3 bucket name is required.'',
         '''',
         ''Provide the S3 bucket name via:'',
         ''  1. --bucket-name command line argument'',
         ''  2. S3_BUCKET_NAME environment variable'']
      else if field = ''SERVICE_ACCESS_TOKEN'' then
        [''Service access token is required for client authentication.'',
         '''',
         ''Provide the service access token via:'',
         ''  1. --service-access-token command line argument'',
         ''  2. SERVICE_ACCESS_TOKEN environment variable'',
         '''',
         ''This token must match the token configured in your Nx clients.'']
      else
        [''Field: '' @ field, '''', ''Please provide this required configuration parameter.''])"

fun config_error_lines :: "config_error \<Rightarrow> string list" where
  "config_error_lines (MissingField field) =
     ['''', ''Configuration Error: Missing required field'', '''']
       @ missing_field_lines field @ [''Run with --help for more information.'']"
| "config_error_lines (Invalid msg) =
     ['''', ''Configuration Error: Invalid value'', '''', msg, '''',
      ''Run with --help for more information.'']"

definition newline :: string where
  "newline = [CHR 0x0A]"

definition config_error_display :: "config_error \<Rightarrow> string" where
  "config_error_display e = concat (map (\<lambda>l. l @ newline) (config_error_lines e))"

end
