(* ===== verification/Server_State.thy ===== *)
theory Server_State
  imports Validation Config Probe_Cache
begin

text \<open>
  What the handlers and the middleware share: the state of a running server
  (\<open>AppState\<close> of \<open>src/server/mod.rs\<close>), and the third-party code they call, as one record
  of functions with its documented behaviour.
\<close>

section \<open>Third-party code\<close>

text \<open>
  \<^item> \<open>d_get_or_try_init\<close>: tokio's \<open>OnceCell::get_or_try_init\<close>;
  \<^item> \<open>d_ct_eq\<close>: \<open>ConstantTimeEq::ct_eq\<close> of \<open>subtle\<close> on byte strings;
  \<^item> \<open>d_to_str\<close>: \<open>HeaderValue::to_str\<close> of \<open>http\<close>;
  \<^item> \<open>d_match_path\<close>: axum's matching of a path against the registered routes, with the
    percent-decoded \<open>{hash}\<close> segment, \<open>None\<close> when it is not UTF-8;
  \<^item> \<open>d_axum_response\<close>: the responses axum makes itself (no route, method not allowed,
    rejected path parameter);
  \<^item> \<open>d_reader_stream\<close>: the chunks \<open>tokio_util\<close>'s \<open>StreamReader\<close> and \<open>ReaderStream\<close> make of a
    byte stream;
  \<^item> \<open>d_uni\<close>: the Unicode table of \<open>char::is_alphanumeric\<close> above ASCII.
\<close>

datatype route_match = Route_Health | Route_Cache "string option" | No_Route

record 's deps =
  d_get_or_try_init :: "'s get_or_try_init"
  d_ct_eq :: "string \<Rightarrow> string \<Rightarrow> bool"
  d_to_str :: "string \<Rightarrow> string option"
  d_match_path :: "string \<Rightarrow> route_match"
  d_axum_response :: "status_code \<Rightarrow> response"
  d_reader_stream :: "body \<Rightarrow> body"
  d_uni :: "nat \<Rightarrow> bool"

text \<open>The documented behaviour, one predicate per function, named where a theorem needs it.\<close>

definition ct_eq_spec :: "'s deps \<Rightarrow> bool" where
  "ct_eq_spec d \<longleftrightarrow> (\<forall>a b. d_ct_eq d a b = (a = b))"

definition to_str_spec :: "'s deps \<Rightarrow> bool" where
  "to_str_spec d \<longleftrightarrow> (\<forall>v s. d_to_str d v = Some s \<longrightarrow> s = v)"

definition axum_response_spec :: "'s deps \<Rightarrow> bool" where
  "axum_response_spec d \<longleftrightarrow> (\<forall>s. status (d_axum_response d s) = s)"

definition reader_stream_spec :: "'s deps \<Rightarrow> bool" where
  "reader_stream_spec d \<longleftrightarrow>
     (\<forall>b. body_bytes (d_reader_stream d b) = body_bytes b \<and>
          terminates (d_reader_stream d b) = terminates b \<and>
          complete (d_reader_stream d b) = complete b)"

definition cell_spec :: "'s deps \<Rightarrow> bool" where
  "cell_spec d \<longleftrightarrow> once_cell_spec (d_get_or_try_init d)"

text \<open>
  A concrete record with that behaviour, for evaluating the model: it knows the two routes,
  hands a path segment on as it is unless it holds a \<open>%\<close>, and has no letters above ASCII
  but those of Latin-1.
\<close>

definition reference_match_path :: "string \<Rightarrow> route_match" where
  "reference_match_path p =
     (if p = ''/health'' then Route_Health
      else case strip_prefix ''/v1/cache/'' p of
             None \<Rightarrow> No_Route
           | Some seg \<Rightarrow>
               if seg = [] \<or> CHR ''/'' \<in> set seg then No_Route
               else if CHR ''%'' \<in> set seg then Route_Cache None
               else Route_Cache (Some seg))"

definition reference_to_str :: "string \<Rightarrow> string option" where
  "reference_to_str v =
     (if list_all (\<lambda>c. 32 \<le> (of_char c :: nat) \<and> (of_char c :: nat) < 127) v then Some v else None)"

definition reference_deps :: "'s deps" where
  "reference_deps =
     \<lparr>d_get_or_try_init = reference_get_or_try_init, d_ct_eq = (=), d_to_str = reference_to_str,
      d_match_path = reference_match_path,
      d_axum_response = (\<lambda>s. \<lparr>status = s, resp_headers = [], resp_body = Empty\<rparr>),
      d_reader_stream = (\<lambda>b. b), d_uni = (\<lambda>c. 192 \<le> c \<and> c < 256 \<and> c \<noteq> 215 \<and> c \<noteq> 247)\<rparr>"

lemma reference_deps_specs [simp]:
  "ct_eq_spec reference_deps" "to_str_spec reference_deps" "axum_response_spec reference_deps"
  "reader_stream_spec reference_deps" "cell_spec reference_deps"
  by (auto simp: reference_deps_def ct_eq_spec_def to_str_spec_def axum_response_spec_def
      reader_stream_spec_def cell_spec_def once_cell_spec_reference reference_to_str_def)

section \<open>State\<close>

text \<open>
  \<open>AppState\<close>: the storage and the configuration never change, the probe cache does. The
  machine is the process around it.
\<close>

record 's app_state =
  storage :: "'s storage_provider"
  config :: server_config

record 's server =
  probe :: probe_cache
  machine :: "'s machine"

text \<open>
  A handler answers with a result, the part of the request body it left unread, and the
  next state; \<open>None\<close> when it never answers.
\<close>

type_synonym ('s, 'r) handled = "('r \<times> body \<times> 's server) option"

type_synonym 's handler = "request \<Rightarrow> 's server \<Rightarrow> ('s, response) handled"

end
