(* ===== verification/Handlers.thy ===== *)
theory Handlers
  imports Server_State
begin

text \<open>
  The request handlers (\<open>src/server/handlers.rs\<close>): draining a body, storing an artifact,
  retrieving one, and the health check.
\<close>

section \<open>Draining\<close>

definition DRAIN_TIMEOUT :: duration where
  "DRAIN_TIMEOUT = from_secs 60"

text \<open>
  Reading a stream to its end or its first error, given up when it does not complete before
  the limit: the time spent and what is left unread.
\<close>

fun drain_stream :: "duration \<Rightarrow> body \<Rightarrow> duration \<times> body" where
  "drain_stream limit Done = (0, Done)"
| "drain_stream limit Stalled = (limit, Stalled)"
| "drain_stream limit (Broken d) = (if d < limit then (d, Done) else (limit, Broken (d - limit)))"
| "drain_stream limit (Chunk d bs b) =
     (if d < limit then (let (t, rest) = drain_stream (limit - d) b in (d + t, rest))
      else (limit, Chunk (d - limit) bs b))"

definition drain_body_within :: "body \<Rightarrow> duration \<Rightarrow> 's machine \<Rightarrow> body \<times> 's machine" where
  "drain_body_within b limit m = (let (t, rest) = drain_stream limit b in (rest, elapse t m))"

definition drain_body :: "body \<Rightarrow> 's machine \<Rightarrow> body \<times> 's machine" where
  "drain_body b m = drain_body_within b DRAIN_TIMEOUT m"

section \<open>The handlers\<close>

definition store_artifact ::
  "'s deps \<Rightarrow> 's app_state \<Rightarrow> string \<Rightarrow> body \<Rightarrow> 's server \<Rightarrow> ('s, server_error + response) handled" where
  "store_artifact d app hash body srv =
     (case validate_hash (d_uni d) hash of
        Err invalid \<Rightarrow>
          (let (rest, m) = drain_body body (machine srv)
           in Some (Err invalid, rest, srv\<lparr>machine := m\<rparr>))
      | Ok _ \<Rightarrow>
          (let (ex, m1) = exists (storage app) hash (machine srv) in
           if unwrap_or False ex then
             (let p1 = mark_present hash (clock m1) (probe srv);
                  (rest, m2) = drain_body body m1
              in Some (Ok (text_response CONFLICT ''Cannot override an existing record''), rest,
                   srv\<lparr>probe := p1, machine := m2\<rparr>))
           else
             (case store (storage app) hash (d_reader_stream d body) m1 of
                None \<Rightarrow> None
              | Some (Ok _, rest, m2) \<Rightarrow>
                  Some (Ok (text_response HTTP_OK ''''), rest,
                    srv\<lparr>probe := mark_present hash (clock m2) (probe srv), machine := m2\<rparr>)
              | Some (Err e, rest, m2) \<Rightarrow>
                  if e = ClientAbort then Some (Err (Storage ClientAbort), rest, srv\<lparr>machine := m2\<rparr>)
                  else
                    (let (rest', m3) = drain_body rest (emit (Store_Declined hash e) m2)
                     in Some (Err Forbidden, rest', srv\<lparr>machine := m3\<rparr>)))))"

definition retrieve_artifact ::
  "'s deps \<Rightarrow> 's app_state \<Rightarrow> string \<Rightarrow> 's server \<Rightarrow> (server_error + response) \<times> 's server" where
  "retrieve_artifact d app hash srv =
     (case validate_hash (d_uni d) hash of
        Err invalid \<Rightarrow> (Err invalid, srv)
      | Ok _ \<Rightarrow>
          (let (r, p1, m1) =
             present (d_get_or_try_init d) hash (exists (storage app) hash) (probe srv) (machine srv)
           in
           if \<not> unwrap_or False r then
             (Err (Storage NotFound), srv\<lparr>probe := p1, machine := m1\<rparr>)
           else
             (case retrieve (storage app) hash m1 of
                (Err _, m2) \<Rightarrow> (Err (Storage NotFound), srv\<lparr>probe := p1, machine := m2\<rparr>)
              | (Ok reader, m2) \<Rightarrow>
                  (Ok \<lparr>status = HTTP_OK,
                       resp_headers = [(''content-type'', ''application/octet-stream'')],
                       resp_body = Artifact (d_reader_stream d reader)\<rparr>,
                   srv\<lparr>probe := p1, machine := m2\<rparr>))))"

definition health_check :: response where
  "health_check = text_response HTTP_OK ''OK''"

section \<open>Facts about draining\<close>

text \<open>A drain takes at most the limit; a body that ends within it is read to its end.\<close>

lemma drain_stream_bound: "fst (drain_stream limit b) \<le> limit"
proof (induction limit b rule: drain_stream.induct)
  case (4 limit d bs b)
  then show ?case by (cases "d < limit") (auto split: prod.split simp: le_diff_conv2)
qed auto

lemma drain_stream_complete:
  "fst (drain_stream limit b) < limit \<Longrightarrow> snd (drain_stream limit b) = Done"
proof (induction limit b rule: drain_stream.induct)
  case (4 limit d bs b)
  then show ?case by (cases "d < limit") (auto split: prod.splits simp: less_diff_conv)
qed (auto split: if_splits)

lemma drain_stream_remainder:
  "\<exists>taken. body_bytes b = taken @ body_bytes (snd (drain_stream limit b))"
proof (induction limit b rule: drain_stream.induct)
  case (4 limit d bs b)
  show ?case
  proof (cases "d < limit")
    case True
    with 4 obtain taken where "body_bytes b = taken @ body_bytes (snd (drain_stream (limit - d) b))"
      by blast
    then have "body_bytes (Chunk d bs b) = (bs @ taken) @ body_bytes (snd (drain_stream limit (Chunk d bs b)))"
      using True by (simp split: prod.split)
    then show ?thesis by blast
  qed simp
qed auto

lemma drain_body_later: "drain_body b m = (rest, m') \<Longrightarrow> later m m'"
  by (auto simp: drain_body_def drain_body_within_def split: prod.splits)

lemma drain_body_frame:
  "drain_body b m = (rest, m') \<Longrightarrow> log m' = log m \<and> calls m' = calls m \<and> backend m' = backend m"
  by (auto simp: drain_body_def drain_body_within_def split: prod.splits)

lemma drain_body_done:
  assumes "drain_body b m = (rest, m')"
  shows "rest = Done \<or> clock m' = clock m + DRAIN_TIMEOUT"
  using drain_stream_bound [of DRAIN_TIMEOUT b] drain_stream_complete [of DRAIN_TIMEOUT b] assms
  by (auto simp: drain_body_def drain_body_within_def split: prod.splits)

end
