(* ===== verification/Router.thy ===== *)
theory Router
  imports Handlers
begin

text \<open>
  The middleware (\<open>src/server/middleware.rs\<close>) and the router (\<open>create_router\<close> of
  \<open>src/server/mod.rs\<close>): authentication around the cache routes, the access log around
  everything, and the \<open>Connection: close\<close> header outermost.
\<close>

section \<open>Authentication\<close>

definition bearer_token :: "'s deps \<Rightarrow> request \<Rightarrow> string option" where
  "bearer_token d req =
     (case header_get (req_headers req) ''authorization'' of
        None \<Rightarrow> None
      | Some header \<Rightarrow>
          (case d_to_str d header of
             None \<Rightarrow> None
           | Some auth_value \<Rightarrow> strip_prefix ''Bearer '' auth_value))"

definition is_read_write :: "'s deps \<Rightarrow> server_config \<Rightarrow> string \<Rightarrow> bool" where
  "is_read_write d cfg token = d_ct_eq d token (service_access_token cfg)"

definition is_read_only :: "'s deps \<Rightarrow> server_config \<Rightarrow> string \<Rightarrow> bool" where
  "is_read_only d cfg token =
     (case read_only_access_token cfg of None \<Rightarrow> False | Some read_only \<Rightarrow> d_ct_eq d token read_only)"

definition is_read :: "http_method \<Rightarrow> bool" where
  "is_read meth \<longleftrightarrow> meth = GET \<or> meth = HEAD"

definition auth_middleware ::
  "'s deps \<Rightarrow> server_config \<Rightarrow> 's handler \<Rightarrow> request \<Rightarrow> 's server \<Rightarrow> ('s, server_error + response) handled" where
  "auth_middleware d cfg next_handler req srv =
     (case bearer_token d req of
        None \<Rightarrow> Some (Err Unauthorized, req_body req, srv)
      | Some token \<Rightarrow>
          if \<not> is_read_write d cfg token \<and> \<not> is_read_only d cfg token then
            Some (Err Unauthorized, req_body req, srv)
          else if \<not> is_read_write d cfg token \<and> \<not> is_read (req_method req) then
            (let (rest, m) = drain_body (req_body req) (machine srv)
             in Some (Err Forbidden, rest, srv\<lparr>machine := m\<rparr>))
          else
            (case next_handler req srv of
               None \<Rightarrow> None
             | Some (resp, rest, srv') \<Rightarrow> Some (Ok resp, rest, srv')))"

text \<open>axum turns the \<open>Err\<close> of a handler or a middleware into its response.\<close>

definition respond :: "('s, server_error + response) handled \<Rightarrow> ('s, response) handled" where
  "respond h =
     (case h of
        None \<Rightarrow> None
      | Some (Ok resp, rest, srv) \<Rightarrow> Some (resp, rest, srv)
      | Some (Err e, rest, srv) \<Rightarrow>
          (let (resp, m) = into_response e (machine srv) in Some (resp, rest, srv\<lparr>machine := m\<rparr>)))"

section \<open>Routes\<close>

text \<open>
  The methods of \<open>/v1/cache/{hash}\<close>: \<open>get\<close> serves HEAD as well, and a path parameter that is
  not UTF-8 is rejected before the handler runs.
\<close>

definition cache_methods :: "'s deps \<Rightarrow> 's app_state \<Rightarrow> string option \<Rightarrow> 's handler" where
  "cache_methods d app param req srv =
     (if req_method req = GET \<or> req_method req = HEAD then
        (case param of
           None \<Rightarrow> Some (d_axum_response d BAD_REQUEST, req_body req, srv)
         | Some hash \<Rightarrow>
             (let (r, srv') = retrieve_artifact d app hash srv
              in respond (Some (r, req_body req, srv'))))
      else if req_method req = PUT then
        (case param of
           None \<Rightarrow> Some (d_axum_response d BAD_REQUEST, req_body req, srv)
         | Some hash \<Rightarrow> respond (store_artifact d app hash (req_body req) srv))
      else Some (d_axum_response d METHOD_NOT_ALLOWED, req_body req, srv))"

definition route :: "'s deps \<Rightarrow> 's app_state \<Rightarrow> 's handler" where
  "route d app req srv =
     (case d_match_path d (req_path req) of
        Route_Health \<Rightarrow>
          if req_method req = GET \<or> req_method req = HEAD then
            Some (health_check, req_body req, srv)
          else Some (d_axum_response d METHOD_NOT_ALLOWED, req_body req, srv)
      | Route_Cache param \<Rightarrow>
          respond (auth_middleware d (config app) (cache_methods d app param) req srv)
      | No_Route \<Rightarrow> Some (d_axum_response d NOT_FOUND, req_body req, srv))"

section \<open>The outer layers\<close>

definition content_length_of :: "'s deps \<Rightarrow> response \<Rightarrow> 64 word option" where
  "content_length_of d resp =
     (case header_get (resp_headers resp) ''content-length'' of
        None \<Rightarrow> None
      | Some v \<Rightarrow> (case d_to_str d v of None \<Rightarrow> None | Some s \<Rightarrow> parse_u64 s))"

definition access_log_middleware :: "'s deps \<Rightarrow> 's handler \<Rightarrow> 's handler" where
  "access_log_middleware d next_handler req srv =
     (let start = clock (machine srv) in
      case next_handler req srv of
        None \<Rightarrow> None
      | Some (resp, rest, srv') \<Rightarrow>
          (let elapsed = saturating_duration_since (clock (machine srv')) start;
               ev = Request_Completed (method_name (req_method req)) (req_path req)
                      (as_u16 (status resp)) (as_millis elapsed) (content_length_of d resp)
           in Some (resp, rest, srv'\<lparr>machine := emit ev (machine srv')\<rparr>)))"

definition connection_close_layer :: "'s handler \<Rightarrow> 's handler" where
  "connection_close_layer next_handler req srv =
     (case next_handler req srv of
        None \<Rightarrow> None
      | Some (resp, rest, srv') \<Rightarrow>
          Some (resp\<lparr>resp_headers := header_insert ''connection'' ''close'' (resp_headers resp)\<rparr>,
                rest, srv'))"

text \<open>The whole router, from a request to its response.\<close>

definition create_router :: "'s deps \<Rightarrow> 's app_state \<Rightarrow> 's handler" where
  "create_router d app = connection_close_layer (access_log_middleware d (route d app))"

end
