(* ===== verification/Handler_Facts.thy ===== *)
theory Handler_Facts
  imports Router
begin

text \<open>
  The branches of the handlers and of the middleware as elimination rules, and what they
  guarantee: for every storage, and, in the context of \<open>storage_contract\<close>, for every storage
  that keeps the contract of the trait.
\<close>

section \<open>Branches\<close>

lemma validate_hash_split:
  obtains (valid) "validate_hash uni h = Ok ()" | (invalid) "validate_hash uni h = Err BadRequest"
  using validate_hash_cases [of uni h] by blast

lemma store_artifact_cases:
  assumes "store_artifact d app h b srv = Some (r, rest, srv')"
  obtains
    (invalid) m where "validate_hash (d_uni d) h = Err BadRequest" "r = Err BadRequest"
      "drain_body b (machine srv) = (rest, m)" "srv' = srv\<lparr>machine := m\<rparr>"
  | (conflict) m1 m2 where "validate_hash (d_uni d) h = Ok ()"
      "exists (storage app) h (machine srv) = (Ok True, m1)"
      "r = Ok (text_response CONFLICT ''Cannot override an existing record'')"
      "drain_body b m1 = (rest, m2)"
      "srv' = srv\<lparr>probe := mark_present h (clock m1) (probe srv), machine := m2\<rparr>"
  | (stored) ex m1 m2 where "validate_hash (d_uni d) h = Ok ()"
      "exists (storage app) h (machine srv) = (ex, m1)" "ex \<noteq> Ok True"
      "store (storage app) h (d_reader_stream d b) m1 = Some (Ok (), rest, m2)"
      "r = Ok (text_response HTTP_OK '''')"
      "srv' = srv\<lparr>probe := mark_present h (clock m2) (probe srv), machine := m2\<rparr>"
  | (aborted) ex m1 m2 where "validate_hash (d_uni d) h = Ok ()"
      "exists (storage app) h (machine srv) = (ex, m1)" "ex \<noteq> Ok True"
      "store (storage app) h (d_reader_stream d b) m1 = Some (Err ClientAbort, rest, m2)"
      "r = Err (Storage ClientAbort)" "srv' = srv\<lparr>machine := m2\<rparr>"
  | (declined) ex m1 e rest1 m2 m3 where "validate_hash (d_uni d) h = Ok ()"
      "exists (storage app) h (machine srv) = (ex, m1)" "ex \<noteq> Ok True" "e \<noteq> ClientAbort"
      "store (storage app) h (d_reader_stream d b) m1 = Some (Err e, rest1, m2)"
      "drain_body rest1 (emit (Store_Declined h e) m2) = (rest, m3)"
      "r = Err Forbidden" "srv' = srv\<lparr>machine := m3\<rparr>"
proof (cases rule: validate_hash_split [of "d_uni d" h])
  case invalid': invalid
  then show ?thesis using assms invalid by (auto simp: store_artifact_def split: prod.splits)
next
  case valid
  obtain ex m1 where ex: "exists (storage app) h (machine srv) = (ex, m1)"
    by (cases "exists (storage app) h (machine srv)")
  show ?thesis
  proof (cases "ex = Ok True")
    case True
    then show ?thesis using assms valid ex conflict
      by (auto simp: store_artifact_def Let_def split: prod.splits)
  next
    case False
    then obtain s rest1 m2 where
      st: "store (storage app) h (d_reader_stream d b) m1 = Some (s, rest1, m2)"
      using assms valid ex
      by (auto simp: store_artifact_def unwrap_or_False Let_def split: option.splits)
    note facts = assms valid ex False st
    show ?thesis
    proof (cases s)
      case (Inl e)
      then show ?thesis using facts aborted declined [of ex m1 e rest1 m2]
        by (cases "e = ClientAbort")
          (auto simp: store_artifact_def unwrap_or_False Let_def split: prod.splits)
    next
      case (Inr u)
      then show ?thesis using facts stored
        by (auto simp: store_artifact_def unwrap_or_False)
    qed
  qed
qed

lemma store_artifact_None:
  assumes "store_artifact d app h b srv = None"
  obtains ex m1 where "validate_hash (d_uni d) h = Ok ()"
    "exists (storage app) h (machine srv) = (ex, m1)" "ex \<noteq> Ok True"
    "store (storage app) h (d_reader_stream d b) m1 = None"
proof -
  obtain ex m1 where ex: "exists (storage app) h (machine srv) = (ex, m1)"
    by (cases "exists (storage app) h (machine srv)")
  show ?thesis
    using assms ex that
    by (cases rule: validate_hash_split [of "d_uni d" h])
      (auto simp: store_artifact_def unwrap_or_False Let_def split: prod.splits if_splits option.splits sum.splits)
qed

lemma retrieve_artifact_cases:
  assumes "retrieve_artifact d app h srv = (r, srv')"
  obtains
    (invalid) "validate_hash (d_uni d) h = Err BadRequest" "r = Err BadRequest" "srv' = srv"
  | (absent) pr p1 m1 where "validate_hash (d_uni d) h = Ok ()"
      "present (d_get_or_try_init d) h (exists (storage app) h) (probe srv) (machine srv) = (pr, p1, m1)"
      "pr \<noteq> Ok True" "r = Err (Storage NotFound)" "srv' = srv\<lparr>probe := p1, machine := m1\<rparr>"
  | (failed) p1 m1 e m2 where "validate_hash (d_uni d) h = Ok ()"
      "present (d_get_or_try_init d) h (exists (storage app) h) (probe srv) (machine srv) = (Ok True, p1, m1)"
      "retrieve (storage app) h m1 = (Err e, m2)"
      "r = Err (Storage NotFound)" "srv' = srv\<lparr>probe := p1, machine := m2\<rparr>"
  | (served) p1 m1 reader m2 where "validate_hash (d_uni d) h = Ok ()"
      "present (d_get_or_try_init d) h (exists (storage app) h) (probe srv) (machine srv) = (Ok True, p1, m1)"
      "retrieve (storage app) h m1 = (Ok reader, m2)"
      "r = Ok \<lparr>status = HTTP_OK, resp_headers = [(''content-type'', ''application/octet-stream'')],
               resp_body = Artifact (d_reader_stream d reader)\<rparr>"
      "srv' = srv\<lparr>probe := p1, machine := m2\<rparr>"
proof (cases rule: validate_hash_split [of "d_uni d" h])
  case invalid': invalid
  then show ?thesis using assms invalid by (simp add: retrieve_artifact_def)
next
  case valid
  obtain pr p1 m1 where
    pr: "present (d_get_or_try_init d) h (exists (storage app) h) (probe srv) (machine srv) = (pr, p1, m1)"
    by (cases "present (d_get_or_try_init d) h (exists (storage app) h) (probe srv) (machine srv)")
  obtain rr m2 where rr: "retrieve (storage app) h m1 = (rr, m2)"
    by (cases "retrieve (storage app) h m1")
  show ?thesis
  proof (cases "pr = Ok True")
    case True
    then show ?thesis using assms valid pr rr failed served
      by (cases rr) (auto simp: retrieve_artifact_def)
  next
    case False
    then show ?thesis using assms valid pr absent
      by (auto simp: retrieve_artifact_def unwrap_or_False)
  qed
qed

lemma respond_cases:
  assumes "respond hnd = Some (resp, rest, srv')"
  obtains (ok) "hnd = Some (Ok resp, rest, srv')"
  | (err) e srv where "hnd = Some (Err e, rest, srv)" "resp = fst (into_response e (machine srv))"
      "srv' = srv\<lparr>machine := error_log e (machine srv)\<rparr>"
  using assms
  by (auto simp: respond_def into_response_machine [symmetric] split: option.splits sum.splits prod.splits)

lemma respond_None [simp]: "respond hnd = None \<longleftrightarrow> hnd = None"
  by (auto simp: respond_def split: option.splits sum.splits prod.splits)

definition authenticated :: "'s deps \<Rightarrow> server_config \<Rightarrow> request \<Rightarrow> bool" where
  "authenticated d cfg req =
     (case bearer_token d req of None \<Rightarrow> False | Some t \<Rightarrow> is_read_write d cfg t \<or> is_read_only d cfg t)"

definition may_write :: "'s deps \<Rightarrow> server_config \<Rightarrow> request \<Rightarrow> bool" where
  "may_write d cfg req = (case bearer_token d req of None \<Rightarrow> False | Some t \<Rightarrow> is_read_write d cfg t)"

text \<open>The three outcomes of the authentication.\<close>

lemma auth_middleware_eq:
  "auth_middleware d cfg nxt req srv =
     (if \<not> authenticated d cfg req then Some (Err Unauthorized, req_body req, srv)
      else if \<not> may_write d cfg req \<and> \<not> is_read (req_method req) then
        (let (rest, m) = drain_body (req_body req) (machine srv)
         in Some (Err Forbidden, rest, srv\<lparr>machine := m\<rparr>))
      else map_option (\<lambda>(resp, rest, srv'). (Ok resp, rest, srv')) (nxt req srv))"
  by (auto simp: auth_middleware_def authenticated_def may_write_def split: option.split)

lemma may_write_iff:
  "ct_eq_spec d \<Longrightarrow> may_write d cfg req \<longleftrightarrow> bearer_token d req = Some (service_access_token cfg)"
  by (auto simp: may_write_def is_read_write_def ct_eq_spec_def split: option.split)

lemma authenticated_iff:
  "ct_eq_spec d \<Longrightarrow> authenticated d cfg req \<longleftrightarrow>
     (\<exists>t. bearer_token d req = Some t \<and>
       (t = service_access_token cfg \<or> read_only_access_token cfg = Some t))"
  by (auto simp: authenticated_def is_read_write_def is_read_only_def ct_eq_spec_def split: option.split)

lemma may_write_authenticated: "may_write d cfg req \<Longrightarrow> authenticated d cfg req"
  by (auto simp: may_write_def authenticated_def split: option.splits)

text \<open>What the router adds around a route: the header and the access-log line.\<close>

definition access_event :: "'s deps \<Rightarrow> request \<Rightarrow> response \<Rightarrow> duration \<Rightarrow> log_event" where
  "access_event d req resp elapsed =
     Request_Completed (method_name (req_method req)) (req_path req) (as_u16 (status resp))
       (as_millis elapsed) (content_length_of d resp)"

definition closing :: "response \<Rightarrow> response" where
  "closing resp = resp\<lparr>resp_headers := header_insert ''connection'' ''close'' (resp_headers resp)\<rparr>"

lemma closing_simps [simp]:
  "status (closing resp) = status resp" "resp_body (closing resp) = resp_body resp"
  "header_get (resp_headers (closing resp)) n =
     (if n = ''connection'' then Some ''close'' else header_get (resp_headers resp) n)"
  by (simp_all add: closing_def)

lemma create_router_eq:
  "create_router d app req srv =
     map_option (\<lambda>(resp, rest, srv1).
       (closing resp, rest, srv1\<lparr>machine :=
          emit (access_event d req resp (clock (machine srv1) - clock (machine srv))) (machine srv1)\<rparr>))
       (route d app req srv)"
  by (auto simp: create_router_def connection_close_layer_def access_log_middleware_def closing_def
      access_event_def saturating_duration_since_def Let_def split: option.split)

lemma create_router_cases:
  assumes "create_router d app req srv = Some (resp, rest, srv')"
  obtains resp1 srv1 where "route d app req srv = Some (resp1, rest, srv1)" "resp = closing resp1"
    "srv' = srv1\<lparr>machine :=
       emit (access_event d req resp1 (clock (machine srv1) - clock (machine srv))) (machine srv1)\<rparr>"
  using assms by (auto simp: create_router_eq)


section \<open>Requests that are never answered\<close>

lemma auth_middleware_None:
  "auth_middleware d cfg nxt req srv = None \<longleftrightarrow>
     authenticated d cfg req \<and> (may_write d cfg req \<or> is_read (req_method req)) \<and> nxt req srv = None"
  by (simp add: auth_middleware_eq Let_def split: prod.split)

lemma cache_methods_None:
  "cache_methods d app param req srv = None \<longleftrightarrow>
     req_method req = PUT \<and>
     (\<exists>hash. param = Some hash \<and> store_artifact d app hash (req_body req) srv = None)"
proof (cases param)
  case None
  then show ?thesis by (simp add: cache_methods_def)
next
  case (Some hash)
  then show ?thesis by (simp add: cache_methods_def Let_def del: not_None_eq split: prod.split)
qed

lemma route_None:
  "route d app req srv = None \<longleftrightarrow>
     req_method req = PUT \<and> may_write d (config app) req \<and>
     (\<exists>hash. d_match_path d (req_path req) = Route_Cache (Some hash) \<and>
       store_artifact d app hash (req_body req) srv = None)"
proof (cases "d_match_path d (req_path req)")
  case (Route_Cache param)
  then show ?thesis
    by (auto simp: route_def auth_middleware_None cache_methods_None is_read_def
        dest: may_write_authenticated)
qed (simp_all add: route_def)

lemma create_router_None:
  "create_router d app req srv = None \<longleftrightarrow> route d app req srv = None"
  by (simp add: create_router_eq)

section \<open>The server over a storage that keeps the contract\<close>

lemma present_later:
  assumes "cell_spec d" "\<And>r m'. p m = (r, m') \<Longrightarrow> later m m'"
    "present (d_get_or_try_init d) h p c m = (r, c', m')"
  shows "later m m'"
proof -
  have eq: "d_get_or_try_init d = reference_get_or_try_init"
    using assms(1) by (simp add: cell_spec_def once_cell_unique)
  have "later m (snd (p m))" using assms(2) by (cases "p m") simp
  then have "later m (snd (snd (present reference_get_or_try_init h p c m)))"
    by (rule cache.ask_later)
  then show ?thesis using assms(3) eq by simp
qed

context storage_contract
begin

lemma exists_store_later:
  "exists provider h m = (ex, m1) \<Longrightarrow> store provider h b m1 = Some (s, rest, m2) \<Longrightarrow> later m m2"
  using exists_later store_later later_trans by blast

lemma store_artifact_later:
  assumes "storage app = provider" "store_artifact d app h b srv = Some (r, rest, srv')"
  shows "later (machine srv) (machine srv')"
  using assms(2)
proof (cases rule: store_artifact_cases)
  case (invalid m)
  then show ?thesis using drain_body_later by auto
next
  case (conflict m1 m2)
  have "later (machine srv) m1" using conflict(2) assms(1) exists_later by simp
  also have "later m1 m2" using conflict(4) by (rule drain_body_later)
  finally show ?thesis using conflict(5) by simp
next
  case (stored ex m1 m2)
  then show ?thesis using assms(1) exists_store_later by simp
next
  case (aborted ex m1 m2)
  then show ?thesis using assms(1) exists_store_later by simp
next
  case (declined ex m1 e rest1 m2 m3)
  have "later (machine srv) m2" using declined(2,5) assms(1) exists_store_later by simp
  then have "later (machine srv) (emit (Store_Declined h e) m2)" by (rule later_emitI)
  also have "later (emit (Store_Declined h e) m2) m3" using declined(6) by (rule drain_body_later)
  finally show ?thesis using declined(8) by simp
qed

lemma store_artifact_drained:
  assumes "storage app = provider" "store_artifact d app h b srv = Some (r, rest, srv')"
  shows "rest = Done \<or> clock (machine srv) + DRAIN_TIMEOUT \<le> clock (machine srv')"
  using assms(2)
proof (cases rule: store_artifact_cases)
  case (invalid m)
  then show ?thesis using drain_body_done by fastforce
next
  case (conflict m1 m2)
  have "later (machine srv) m1" using conflict(2) assms(1) exists_later by simp
  then have "clock (machine srv) \<le> clock m1" by (rule later_clock)
  then show ?thesis using drain_body_done [OF conflict(4)] conflict(5) by auto
next
  case (stored ex m1 m2)
  then show ?thesis using assms(1) store_ok_reads_all by auto
next
  case (aborted ex m1 m2)
  then show ?thesis using assms(1) store_abort_ends by auto
next
  case (declined ex m1 e rest1 m2 m3)
  have "later (machine srv) m2" using declined(2,5) assms(1) exists_store_later by simp
  then have "clock (machine srv) \<le> clock m2" by (rule later_clock)
  then show ?thesis using drain_body_done [OF declined(6)] declined(8) by auto
qed

lemma store_artifact_returns:
  assumes "storage app = provider" "reader_stream_spec d" "terminates b"
  shows "\<exists>r rest srv'. store_artifact d app h b srv = Some (r, rest, srv')"
proof (cases "store_artifact d app h b srv")
  case None
  then show ?thesis
  proof (cases rule: store_artifact_None)
    case (1 ex m1)
    have "terminates (d_reader_stream d b)" using assms by (simp add: reader_stream_spec_def)
    from store_returns [OF this, of h m1] 1(4) assms(1) show ?thesis by simp
  qed
next
  case (Some x)
  then show ?thesis by (cases x) auto
qed

lemma retrieve_artifact_later:
  assumes "storage app = provider" "cell_spec d" "retrieve_artifact d app h srv = (r, srv')"
  shows "later (machine srv) (machine srv')"
proof -
  have p: "later (machine srv) m1"
    if "present (d_get_or_try_init d) h (exists (storage app) h) (probe srv) (machine srv) = (pr, p1, m1)"
    for pr p1 m1
    using assms(2) _ that by (rule present_later) (use assms(1) exists_later in blast)
  from assms(3) show ?thesis
    by (cases rule: retrieve_artifact_cases)
      (use p retrieve_later assms(1) in \<open>auto intro: later_trans\<close>)
qed

lemma respond_later:
  assumes "respond hnd = Some (resp, rest, srv')"
    and "\<And>r rest srv1. hnd = Some (r, rest, srv1) \<Longrightarrow> later m (machine srv1)"
  shows "later m (machine srv')"
  using assms(1)
proof (cases rule: respond_cases)
  case ok
  then show ?thesis using assms(2) by blast
next
  case (err e srv)
  then show ?thesis using assms(2) later_trans [of m "machine srv"] by fastforce
qed

lemma cache_methods_later:
  assumes "storage app = provider" "cell_spec d" "cache_methods d app param req srv = Some (resp, rest, srv')"
  shows "later (machine srv) (machine srv')"
  using assms(3) retrieve_artifact_later [OF assms(1,2)] store_artifact_later [OF assms(1)]
  by (auto simp: cache_methods_def split: if_splits option.splits prod.splits elim!: respond_later)

lemma auth_middleware_later:
  assumes "auth_middleware d cfg nxt req srv = Some (r, rest, srv')"
    and "\<And>resp rest srv'. nxt req srv = Some (resp, rest, srv') \<Longrightarrow> later (machine srv) (machine srv')"
  shows "later (machine srv) (machine srv')"
  using assms drain_body_later
  by (fastforce simp: auth_middleware_eq split: if_splits prod.splits)

lemma route_later:
  assumes "storage app = provider" "cell_spec d" "route d app req srv = Some (resp, rest, srv')"
  shows "later (machine srv) (machine srv')"
  using assms(3) cache_methods_later [OF assms(1,2)]
  by (auto simp: route_def split: if_splits route_match.splits elim!: respond_later auth_middleware_later)

lemma create_router_later:
  assumes "storage app = provider" "cell_spec d" "create_router d app req srv = Some (resp, rest, srv')"
  shows "later (machine srv) (machine srv')"
  using assms(3)
proof (cases rule: create_router_cases)
  case (1 resp1 srv1)
  then show ?thesis using route_later [OF assms(1,2)] by (auto intro: later_emitI)
qed

lemma create_router_returns:
  assumes "storage app = provider" "reader_stream_spec d" "terminates (req_body req)"
  shows "\<exists>resp rest srv'. create_router d app req srv = Some (resp, rest, srv')"
proof (cases "create_router d app req srv")
  case None
  then obtain hash where "store_artifact d app hash (req_body req) srv = None"
    by (auto simp: create_router_None route_None)
  then show ?thesis using store_artifact_returns [OF assms, of hash srv] by simp
next
  case (Some x)
  then show ?thesis by (cases x) auto
qed

end

end
