(* ===== verification/Server_Run.thy ===== *)
theory Server_Run
  imports Handler_Facts
begin

text \<open>
  A running server (\<open>run_server\<close> of \<open>src/server/mod.rs\<close>): the fresh state, the self-probe
  task with its ticker, and the requests served one after the other. Binding the socket is
  an argument.
\<close>

section \<open>The self-probe\<close>

definition SELF_PROBE_INTERVAL :: duration where
  "SELF_PROBE_INTERVAL = from_secs 60"

definition self_probe_once :: "'s storage_provider \<Rightarrow> 's machine \<Rightarrow> 's machine" where
  "self_probe_once storage_impl m =
     (let start = clock m;
          (outcome, m1) = exists storage_impl PROBE_KEY m;
          elapsed = saturating_duration_since (clock m1) start
      in emit (Self_Probe (as_millis elapsed) (is_ok outcome)) m1)"

text \<open>
  One turn of the spawned loop. A tick of \<open>tokio::time::interval\<close> completes at its deadline,
  or at once when the deadline has passed; the next deadline is one period later.
\<close>

definition wait_until :: "instant \<Rightarrow> 's machine \<Rightarrow> 's machine" where
  "wait_until deadline m = elapse (saturating_duration_since deadline (clock m)) m"

definition self_probe_turn ::
  "'s storage_provider \<Rightarrow> instant \<times> 's machine \<Rightarrow> instant \<times> 's machine" where
  "self_probe_turn storage_impl st =
     (case st of (deadline, m) \<Rightarrow>
        (deadline + SELF_PROBE_INTERVAL, self_probe_once storage_impl (wait_until deadline m)))"

text \<open>The loop has no exit: the state after each number of turns.\<close>

fun self_probe_loop :: "'s storage_provider \<Rightarrow> nat \<Rightarrow> instant \<times> 's machine \<Rightarrow> instant \<times> 's machine" where
  "self_probe_loop storage_impl 0 st = st"
| "self_probe_loop storage_impl (Suc n) st =
     self_probe_loop storage_impl n (self_probe_turn storage_impl st)"

section \<open>Running\<close>

text \<open>
  \<open>run_server\<close> up to \<open>axum::serve\<close>: the state it serves from and the deadline of the first
  self-probe, or the error of binding the address.
\<close>

definition run_server ::
  "(ip_addr \<Rightarrow> 16 word \<Rightarrow> 'io + unit) \<Rightarrow> 's storage_provider \<Rightarrow> server_config \<Rightarrow> 's machine
    \<Rightarrow> ('io + ('s app_state \<times> 's server \<times> instant)) \<times> 's machine" where
  "run_server bind storage_impl cfg m =
     (let app = \<lparr>storage = storage_impl, config = cfg\<rparr>;
          deadline = clock m
      in case bind (bind_address cfg) (port cfg) of
           Err e \<Rightarrow> (Err e, m)
         | Ok _ \<Rightarrow>
             (let m1 = emit Server_Running m
              in (Ok (app, \<lparr>probe = fmempty, machine = m1\<rparr>, deadline), m1)))"

text \<open>\<open>axum::serve\<close> on requests that arrive one after the other.\<close>

fun serve :: "'s deps \<Rightarrow> 's app_state \<Rightarrow> request list \<Rightarrow> 's server \<Rightarrow> (response list \<times> 's server) option" where
  "serve d app [] srv = Some ([], srv)"
| "serve d app (req # reqs) srv =
     (case create_router d app req srv of
        None \<Rightarrow> None
      | Some (resp, rest, srv1) \<Rightarrow>
          (case serve d app reqs srv1 of
             None \<Rightarrow> None
           | Some (resps, srv2) \<Rightarrow> Some (resp # resps, srv2)))"

section \<open>Facts\<close>

lemma wait_until_simps [simp]:
  "clock (wait_until t m) = max (clock m) t" "log (wait_until t m) = log m"
  "calls (wait_until t m) = calls m" "backend (wait_until t m) = backend m"
  by (auto simp: wait_until_def saturating_duration_since_def)

lemma serve_append:
  "serve d app (r1 @ r2) srv =
     (case serve d app r1 srv of
        None \<Rightarrow> None
      | Some (a1, srv1) \<Rightarrow>
          (case serve d app r2 srv1 of None \<Rightarrow> None | Some (a2, srv2) \<Rightarrow> Some (a1 @ a2, srv2)))"
  by (induction r1 arbitrary: srv) (auto split: option.splits)

context storage_contract
begin

lemma self_probe_once_facts:
  "\<exists>d r. log (self_probe_once provider m) = log (snd (exists provider PROBE_KEY m)) @ [Self_Probe d r] \<and>
     clock m \<le> clock (self_probe_once provider m)"
proof -
  obtain r m1 where e: "exists provider PROBE_KEY m = (r, m1)" by (cases "exists provider PROBE_KEY m")
  have "later m m1" using e by (rule exists_later)
  then show ?thesis using e later_clock by (auto simp: self_probe_once_def Let_def)
qed

lemma self_probe_loop_deadline:
  "fst (self_probe_loop provider n (deadline, m)) = deadline + n * SELF_PROBE_INTERVAL"
  by (induction n arbitrary: deadline m) (simp_all add: self_probe_turn_def)

lemma self_probe_loop_clock:
  "0 < n \<Longrightarrow> deadline + (n - 1) * SELF_PROBE_INTERVAL \<le> clock (snd (self_probe_loop provider n (deadline, m)))"
proof (induction n arbitrary: deadline m)
  case (Suc n)
  let ?m1 = "self_probe_once provider (wait_until deadline m)"
  have m1: "deadline \<le> clock ?m1" using self_probe_once_facts [of "wait_until deadline m"] by auto
  show ?case
  proof (cases n)
    case 0
    then show ?thesis using m1 by (simp add: self_probe_turn_def)
  next
    case (Suc k)
    then show ?thesis using Suc.IH [of "deadline + SELF_PROBE_INTERVAL" ?m1]
      by (simp add: self_probe_turn_def algebra_simps)
  qed
qed simp

lemma serve_later:
  assumes "storage app = provider" "cell_spec d" "serve d app reqs srv = Some (resps, srv')"
  shows "later (machine srv) (machine srv')"
  using assms(3)
proof (induction reqs arbitrary: srv resps)
  case (Cons req reqs)
  obtain resp rest srv1 resps1 where step: "create_router d app req srv = Some (resp, rest, srv1)"
    and rec: "serve d app reqs srv1 = Some (resps1, srv')"
    using Cons.prems by (auto split: option.splits)
  show ?case
    using create_router_later [OF assms(1,2) step] Cons.IH [OF rec] by (rule later_trans)
qed simp

lemma serve_returns:
  assumes "storage app = provider" "reader_stream_spec d" "\<forall>req \<in> set reqs. terminates (req_body req)"
  shows "\<exists>resps srv'. serve d app reqs srv = Some (resps, srv')"
  using assms(3)
proof (induction reqs arbitrary: srv)
  case (Cons req reqs)
  obtain resp rest srv1 where "create_router d app req srv = Some (resp, rest, srv1)"
    using create_router_returns [OF assms(1,2)] Cons.prems by (metis list.set_intros(1))
  then show ?case using Cons.IH [of srv1] Cons.prems by auto
qed simp

end

end
