(* ===== verification/Server_Flight.thy ===== *)
theory Server_Flight
  imports Server_Run Flight_Views
begin

text \<open>
  The whole server under concurrency: any number of requests, the self-probe and time,
  interleaved at the points where a request's task can be suspended. The tasks share the
  existence cache (the machine of \<open>Single_Flight\<close>) and the world behind the storage.

  A storage operation takes effect at one instant between its call and its return, so it is
  two steps: one that runs the operation of the \<open>StorageProvider\<close> on the world, and one in
  which its result reaches the handler; the time it takes is time that passes around them.
  An upload is one such operation: what other requests can see of it is the object it
  commits. Between two steps of a task its client may hang up, which drops the task.
\<close>

section \<open>State\<close>

text \<open>
  Where a request's task is suspended: a GET in \<open>present\<close> (before or after its HeadObject
  took effect) or in \<open>retrieve\<close>, a PUT in \<open>exists\<close> or in \<open>store\<close>, and either in a drain.
\<close>

datatype stage =
    Awaiting string
  | Headed string "storage_error + bool"
  | Reading string
  | Was_Read string "storage_error + body"
  | Checking string body
  | Checked string body "storage_error + bool"
  | Writing string body
  | Written string "storage_error + unit" body
  | Draining "server_error + response" body instant

text \<open>A request that arrived keeps the instant of its arrival, for the access log.\<close>

datatype job = Unused | Active request instant stage | Finished request response body | Gone request

record 's cserver =
  probes :: flight
  world :: "'s machine"
  jobs :: "nat \<Rightarrow> job"

definition cserver_init :: "'s machine \<Rightarrow> 's cserver" where
  "cserver_init m = \<lparr>probes = flight_init, world = m, jobs = (\<lambda>_. Unused)\<rparr>"

text \<open>The machine a storage operation runs on: the shared world at the present instant.\<close>

definition machine_now :: "'s cserver \<Rightarrow> 's machine" where
  "machine_now s = (world s)\<lparr>clock := now (probes s)\<rparr>"

definition set_job :: "nat \<Rightarrow> job \<Rightarrow> 's cserver \<Rightarrow> 's cserver" where
  "set_job t j s = s\<lparr>jobs := (jobs s)(t := j)\<rparr>"

definition set_stage :: "nat \<Rightarrow> request \<Rightarrow> instant \<Rightarrow> stage \<Rightarrow> 's cserver \<Rightarrow> 's cserver" where
  "set_stage t req t0 st s = set_job t (Active req t0 st) s"

section \<open>What a task does between two suspension points\<close>

text \<open>The response leaves through the access log and the \<open>Connection: close\<close> layer.\<close>

definition finish ::
  "'s deps \<Rightarrow> nat \<Rightarrow> request \<Rightarrow> instant \<Rightarrow> (server_error + response) \<Rightarrow> body \<Rightarrow> 's cserver \<Rightarrow> 's cserver" where
  "finish d t req t0 r rest s =
     (let (resp, m) = (case r of Ok resp \<Rightarrow> (resp, machine_now s) | Err e \<Rightarrow> into_response e (machine_now s))
      in set_job t (Finished req (closing resp) rest)
           (s\<lparr>world := emit (access_event d req resp (saturating_duration_since (now (probes s)) t0)) m\<rparr>))"

text \<open>A drain ends when the body does, or at its limit; the answer comes after it.\<close>

definition start_drain ::
  "nat \<Rightarrow> request \<Rightarrow> instant \<Rightarrow> (server_error + response) \<Rightarrow> body \<Rightarrow> 's cserver \<Rightarrow> 's cserver" where
  "start_drain t req t0 r b s =
     (let (taken, rest) = drain_stream DRAIN_TIMEOUT b
      in set_stage t req t0 (Draining r rest (now (probes s) + taken)) s)"

text \<open>\<open>retrieve_artifact\<close>: from its start into \<open>present\<close>, from there on, and from \<open>retrieve\<close> on.\<close>

definition begin_get :: "'s deps \<Rightarrow> nat \<Rightarrow> request \<Rightarrow> instant \<Rightarrow> string \<Rightarrow> 's cserver \<Rightarrow> 's cserver" where
  "begin_get d t req t0 hash s =
     (case validate_hash (d_uni d) hash of
        Err invalid \<Rightarrow> finish d t req t0 (Err invalid) (req_body req) s
      | Ok _ \<Rightarrow>
          (let (i, p) = flight_slot hash (probes s)
           in set_stage t req t0 (Awaiting hash)
                (s\<lparr>probes := set_task t (Waiting hash i (now (probes s))) p\<rparr>)))"

definition after_present ::
  "'s deps \<Rightarrow> nat \<Rightarrow> request \<Rightarrow> instant \<Rightarrow> string \<Rightarrow> storage_error + bool \<Rightarrow> 's cserver \<Rightarrow> 's cserver" where
  "after_present d t req t0 hash r s =
     (if \<not> unwrap_or False r then finish d t req t0 (Err (Storage NotFound)) (req_body req) s
      else set_stage t req t0 (Reading hash) s)"

definition after_retrieve ::
  "'s deps \<Rightarrow> nat \<Rightarrow> request \<Rightarrow> instant \<Rightarrow> storage_error + body \<Rightarrow> 's cserver \<Rightarrow> 's cserver" where
  "after_retrieve d t req t0 r s =
     (case r of
        Err _ \<Rightarrow> finish d t req t0 (Err (Storage NotFound)) (req_body req) s
      | Ok reader \<Rightarrow>
          finish d t req t0
            (Ok \<lparr>status = HTTP_OK,
                 resp_headers = [(''content-type'', ''application/octet-stream'')],
                 resp_body = Artifact (d_reader_stream d reader)\<rparr>) (req_body req) s)"

text \<open>\<open>store_artifact\<close>: from its start into \<open>exists\<close>, from there on, and from \<open>store\<close> on.\<close>

definition begin_put :: "'s deps \<Rightarrow> nat \<Rightarrow> request \<Rightarrow> instant \<Rightarrow> string \<Rightarrow> 's cserver \<Rightarrow> 's cserver" where
  "begin_put d t req t0 hash s =
     (case validate_hash (d_uni d) hash of
        Err invalid \<Rightarrow> start_drain t req t0 (Err invalid) (req_body req) s
      | Ok _ \<Rightarrow> set_stage t req t0 (Checking hash (req_body req)) s)"

definition after_check ::
  "nat \<Rightarrow> request \<Rightarrow> instant \<Rightarrow> string \<Rightarrow> body \<Rightarrow> storage_error + bool \<Rightarrow> 's cserver \<Rightarrow> 's cserver" where
  "after_check t req t0 hash b r s =
     (if unwrap_or False r then
        start_drain t req t0 (Ok (text_response CONFLICT ''Cannot override an existing record'')) b
          (s\<lparr>probes := flight_mark hash (probes s)\<rparr>)
      else set_stage t req t0 (Writing hash b) s)"

definition after_store ::
  "'s deps \<Rightarrow> nat \<Rightarrow> request \<Rightarrow> instant \<Rightarrow> string \<Rightarrow> storage_error + unit \<Rightarrow> body \<Rightarrow> 's cserver \<Rightarrow> 's cserver" where
  "after_store d t req t0 hash r rest s =
     (case r of
        Ok _ \<Rightarrow>
          finish d t req t0 (Ok (text_response HTTP_OK '''')) rest
            (s\<lparr>probes := flight_mark hash (probes s)\<rparr>)
      | Err e \<Rightarrow>
          if e = ClientAbort then finish d t req t0 (Err (Storage ClientAbort)) rest s
          else start_drain t req t0 (Err Forbidden) rest
                 (s\<lparr>world := emit (Store_Declined hash e) (world s)\<rparr>))"

text \<open>From the arrival of a request to its first suspension point: routes, authentication, methods.\<close>

definition begin_cache ::
  "'s deps \<Rightarrow> nat \<Rightarrow> request \<Rightarrow> instant \<Rightarrow> string option \<Rightarrow> 's cserver \<Rightarrow> 's cserver" where
  "begin_cache d t req t0 param s =
     (if req_method req = GET \<or> req_method req = HEAD then
        (case param of
           None \<Rightarrow> finish d t req t0 (Ok (d_axum_response d BAD_REQUEST)) (req_body req) s
         | Some hash \<Rightarrow> begin_get d t req t0 hash s)
      else if req_method req = PUT then
        (case param of
           None \<Rightarrow> finish d t req t0 (Ok (d_axum_response d BAD_REQUEST)) (req_body req) s
         | Some hash \<Rightarrow> begin_put d t req t0 hash s)
      else finish d t req t0 (Ok (d_axum_response d METHOD_NOT_ALLOWED)) (req_body req) s)"

definition begin_auth ::
  "'s deps \<Rightarrow> server_config \<Rightarrow> nat \<Rightarrow> request \<Rightarrow> instant \<Rightarrow> string option \<Rightarrow> 's cserver \<Rightarrow> 's cserver" where
  "begin_auth d cfg t req t0 param s =
     (case bearer_token d req of
        None \<Rightarrow> finish d t req t0 (Err Unauthorized) (req_body req) s
      | Some token \<Rightarrow>
          if \<not> is_read_write d cfg token \<and> \<not> is_read_only d cfg token then
            finish d t req t0 (Err Unauthorized) (req_body req) s
          else if \<not> is_read_write d cfg token \<and> \<not> is_read (req_method req) then
            start_drain t req t0 (Err Forbidden) (req_body req) s
          else begin_cache d t req t0 param s)"

definition arrive :: "'s deps \<Rightarrow> 's app_state \<Rightarrow> nat \<Rightarrow> request \<Rightarrow> 's cserver \<Rightarrow> 's cserver" where
  "arrive d app t req s =
     (let t0 = now (probes s) in
      case d_match_path d (req_path req) of
        Route_Health \<Rightarrow>
          if req_method req = GET \<or> req_method req = HEAD then
            finish d t req t0 (Ok health_check) (req_body req) s
          else finish d t req t0 (Ok (d_axum_response d METHOD_NOT_ALLOWED)) (req_body req) s
      | Route_Cache param \<Rightarrow> begin_auth d (config app) t req t0 param s
      | No_Route \<Rightarrow> finish d t req t0 (Ok (d_axum_response d NOT_FOUND)) (req_body req) s)"

section \<open>Steps\<close>

datatype action =
    Pass duration
  | Arrive nat request
  | Cell_Hit nat
  | Probe_Start nat
  | Head_Effect nat
  | Probe_End nat
  | Get_Effect nat
  | Get_End nat
  | Check_Effect nat
  | Check_End nat
  | Put_Effect nat
  | Put_End nat
  | Drain_End nat
  | Hang_Up nat
  | Self_Check

text \<open>The client is gone: its task is dropped, and with it a waiting or a running probe.\<close>

definition drop_task :: "nat \<Rightarrow> flight \<Rightarrow> flight" where
  "drop_task t p =
     (case tasks p t of
        Waiting k i e \<Rightarrow> set_task t Idle p
      | Probing k i e b \<Rightarrow> set_task t Idle (set_permit i None p)
      | _ \<Rightarrow> p)"

inductive server_step :: "'s deps \<Rightarrow> 's app_state \<Rightarrow> 's cserver \<Rightarrow> action \<Rightarrow> 's cserver \<Rightarrow> bool"
  for d app where
  pass: "server_step d app s (Pass delay) (s\<lparr>probes := (probes s)\<lparr>now := now (probes s) + delay\<rparr>\<rparr>)"
| arrive: "jobs s t = Unused \<Longrightarrow> server_step d app s (Arrive t req) (arrive d app t req s)"
| cell_hit: "jobs s t = Active req t0 (Awaiting h) \<Longrightarrow> tasks (probes s) t = Waiting h i e \<Longrightarrow>
     present_cell (heap (probes s) ! i) = Some v \<Longrightarrow>
     server_step d app s (Cell_Hit t)
       (after_present d t req t0 h (Ok v)
         (s\<lparr>probes := set_task t (Answered h e (Ok v) (resolved_at (heap (probes s) ! i))) (probes s)\<rparr>))"
| probe_start: "jobs s t = Active req t0 (Awaiting h) \<Longrightarrow> tasks (probes s) t = Waiting h i e \<Longrightarrow>
     present_cell (heap (probes s) ! i) = None \<Longrightarrow> permit (heap (probes s) ! i) = None \<Longrightarrow>
     server_step d app s (Probe_Start t)
       (s\<lparr>probes := set_task t (Probing h i e (now (probes s))) (set_permit i (Some t) (probes s))\<rparr>)"
| head_effect: "jobs s t = Active req t0 (Awaiting h) \<Longrightarrow> tasks (probes s) t = Probing h i e b \<Longrightarrow>
     exists (storage app) h (machine_now s) = (r, m) \<Longrightarrow>
     server_step d app s (Head_Effect t) (set_stage t req t0 (Headed h r) (s\<lparr>world := m\<rparr>))"
| probe_end: "jobs s t = Active req t0 (Headed h (Ok v)) \<Longrightarrow> tasks (probes s) t = Probing h i e b \<Longrightarrow>
     server_step d app s (Probe_End t)
       (after_present d t req t0 h (Ok v)
         (s\<lparr>probes := set_task t (Answered h e (Ok v) (now (probes s))) (resolve_slot i v (probes s))\<rparr>))"
| probe_fail: "jobs s t = Active req t0 (Headed h (Err err)) \<Longrightarrow> tasks (probes s) t = Probing h i e b \<Longrightarrow>
     server_step d app s (Probe_End t)
       (after_present d t req t0 h (Err err)
         (s\<lparr>probes := set_task t (Answered h e (Err err) (now (probes s))) (set_permit i None (probes s))\<rparr>))"
| get_effect: "jobs s t = Active req t0 (Reading h) \<Longrightarrow> retrieve (storage app) h (machine_now s) = (r', m) \<Longrightarrow>
     server_step d app s (Get_Effect t) (set_stage t req t0 (Was_Read h r') (s\<lparr>world := m\<rparr>))"
| get_end: "jobs s t = Active req t0 (Was_Read h r') \<Longrightarrow>
     server_step d app s (Get_End t) (after_retrieve d t req t0 r' s)"
| check_effect: "jobs s t = Active req t0 (Checking h data) \<Longrightarrow>
     exists (storage app) h (machine_now s) = (r, m) \<Longrightarrow>
     server_step d app s (Check_Effect t) (set_stage t req t0 (Checked h data r) (s\<lparr>world := m\<rparr>))"
| check_end: "jobs s t = Active req t0 (Checked h data r) \<Longrightarrow>
     server_step d app s (Check_End t) (after_check t req t0 h data r s)"
| put_effect: "jobs s t = Active req t0 (Writing h data) \<Longrightarrow>
     store (storage app) h (d_reader_stream d data) (machine_now s) = Some (st, rest, m) \<Longrightarrow>
     server_step d app s (Put_Effect t) (set_stage t req t0 (Written h st rest) (s\<lparr>world := m\<rparr>))"
| put_end: "jobs s t = Active req t0 (Written h st rest) \<Longrightarrow>
     server_step d app s (Put_End t) (after_store d t req t0 h st rest s)"
| drain_end: "jobs s t = Active req t0 (Draining res rest deadline) \<Longrightarrow> deadline \<le> now (probes s) \<Longrightarrow>
     server_step d app s (Drain_End t) (finish d t req t0 res rest s)"
| hang_up: "jobs s t = Active req t0 sg \<Longrightarrow>
     server_step d app s (Hang_Up t) (set_job t (Gone req) (s\<lparr>probes := drop_task t (probes s)\<rparr>))"
| self_check: "server_step d app s Self_Check (s\<lparr>world := self_probe_once (storage app) (machine_now s)\<rparr>)"

inductive_cases server_stepE: "server_step d app s a s'"

inductive_simps server_step_simps:
  "server_step d app s (Pass delay) s'" "server_step d app s (Arrive t req) s'"
  "server_step d app s (Cell_Hit t) s'" "server_step d app s (Probe_Start t) s'"
  "server_step d app s (Head_Effect t) s'" "server_step d app s (Probe_End t) s'"
  "server_step d app s (Get_Effect t) s'" "server_step d app s (Get_End t) s'"
  "server_step d app s (Check_Effect t) s'" "server_step d app s (Check_End t) s'"
  "server_step d app s (Put_Effect t) s'" "server_step d app s (Put_End t) s'"
  "server_step d app s (Drain_End t) s'" "server_step d app s (Hang_Up t) s'"
  "server_step d app s Self_Check s'"

inductive server_run :: "'s deps \<Rightarrow> 's app_state \<Rightarrow> 's cserver \<Rightarrow> action list \<Rightarrow> 's cserver \<Rightarrow> bool"
  for d app where
  run_done: "server_run d app s [] s"
| run_step: "server_step d app s a s1 \<Longrightarrow> server_run d app s1 acts s2 \<Longrightarrow> server_run d app s (a # acts) s2"

inductive_simps server_run_simps [simp]:
  "server_run d app s [] s'" "server_run d app s (a # acts) s'"

text \<open>The states a server started on some machine can be in.\<close>

definition server_reachable :: "'s deps \<Rightarrow> 's app_state \<Rightarrow> 's machine \<Rightarrow> 's cserver \<Rightarrow> bool" where
  "server_reachable d app m s \<longleftrightarrow> (\<exists>acts. server_run d app (cserver_init m) acts s)"

text \<open>The steps as a function, for running the server on concrete schedules.\<close>

fun server_exec :: "'s deps \<Rightarrow> 's app_state \<Rightarrow> action \<Rightarrow> 's cserver \<Rightarrow> 's cserver option" where
  "server_exec d app (Pass delay) s = Some (s\<lparr>probes := (probes s)\<lparr>now := now (probes s) + delay\<rparr>\<rparr>)"
| "server_exec d app (Arrive t req) s = (if jobs s t = Unused then Some (arrive d app t req s) else None)"
| "server_exec d app (Cell_Hit t) s =
     (case (jobs s t, tasks (probes s) t) of
        (Active req t0 (Awaiting h), Waiting h' i e) \<Rightarrow>
          (case present_cell (heap (probes s) ! i) of
             Some v \<Rightarrow>
               if h' = h then
                 Some (after_present d t req t0 h (Ok v)
                   (s\<lparr>probes := set_task t (Answered h e (Ok v) (resolved_at (heap (probes s) ! i))) (probes s)\<rparr>))
               else None
           | None \<Rightarrow> None)
      | _ \<Rightarrow> None)"
| "server_exec d app (Probe_Start t) s =
     (case (jobs s t, tasks (probes s) t) of
        (Active req t0 (Awaiting h), Waiting h' i e) \<Rightarrow>
          if h' = h \<and> present_cell (heap (probes s) ! i) = None \<and> permit (heap (probes s) ! i) = None then
            Some (s\<lparr>probes := set_task t (Probing h i e (now (probes s))) (set_permit i (Some t) (probes s))\<rparr>)
          else None
      | _ \<Rightarrow> None)"
| "server_exec d app (Head_Effect t) s =
     (case (jobs s t, tasks (probes s) t) of
        (Active req t0 (Awaiting h), Probing h' i e b) \<Rightarrow>
          if h' = h then
            (let (r, m) = exists (storage app) h (machine_now s)
             in Some (set_stage t req t0 (Headed h r) (s\<lparr>world := m\<rparr>)))
          else None
      | _ \<Rightarrow> None)"
| "server_exec d app (Probe_End t) s =
     (case (jobs s t, tasks (probes s) t) of
        (Active req t0 (Headed h r), Probing h' i e b) \<Rightarrow>
          if h' = h then
            (case r of
               Ok v \<Rightarrow>
                 Some (after_present d t req t0 h (Ok v)
                   (s\<lparr>probes := set_task t (Answered h e (Ok v) (now (probes s))) (resolve_slot i v (probes s))\<rparr>))
             | Err err \<Rightarrow>
                 Some (after_present d t req t0 h (Err err)
                   (s\<lparr>probes := set_task t (Answered h e (Err err) (now (probes s))) (set_permit i None (probes s))\<rparr>)))
          else None
      | _ \<Rightarrow> None)"
| "server_exec d app (Get_Effect t) s =
     (case jobs s t of
        Active req t0 (Reading h) \<Rightarrow>
          (let (r, m) = retrieve (storage app) h (machine_now s)
           in Some (set_stage t req t0 (Was_Read h r) (s\<lparr>world := m\<rparr>)))
      | _ \<Rightarrow> None)"
| "server_exec d app (Get_End t) s =
     (case jobs s t of
        Active req t0 (Was_Read h r) \<Rightarrow> Some (after_retrieve d t req t0 r s)
      | _ \<Rightarrow> None)"
| "server_exec d app (Check_Effect t) s =
     (case jobs s t of
        Active req t0 (Checking h data) \<Rightarrow>
          (let (r, m) = exists (storage app) h (machine_now s)
           in Some (set_stage t req t0 (Checked h data r) (s\<lparr>world := m\<rparr>)))
      | _ \<Rightarrow> None)"
| "server_exec d app (Check_End t) s =
     (case jobs s t of
        Active req t0 (Checked h data r) \<Rightarrow> Some (after_check t req t0 h data r s)
      | _ \<Rightarrow> None)"
| "server_exec d app (Put_Effect t) s =
     (case jobs s t of
        Active req t0 (Writing h data) \<Rightarrow>
          (case store (storage app) h (d_reader_stream d data) (machine_now s) of
             Some (r, rest, m) \<Rightarrow> Some (set_stage t req t0 (Written h r rest) (s\<lparr>world := m\<rparr>))
           | None \<Rightarrow> None)
      | _ \<Rightarrow> None)"
| "server_exec d app (Put_End t) s =
     (case jobs s t of
        Active req t0 (Written h r rest) \<Rightarrow> Some (after_store d t req t0 h r rest s)
      | _ \<Rightarrow> None)"
| "server_exec d app (Drain_End t) s =
     (case jobs s t of
        Active req t0 (Draining r rest deadline) \<Rightarrow>
          if deadline \<le> now (probes s) then Some (finish d t req t0 r rest s) else None
      | _ \<Rightarrow> None)"
| "server_exec d app (Hang_Up t) s =
     (case jobs s t of
        Active req t0 st \<Rightarrow> Some (set_job t (Gone req) (s\<lparr>probes := drop_task t (probes s)\<rparr>))
      | _ \<Rightarrow> None)"
| "server_exec d app Self_Check s = Some (s\<lparr>world := self_probe_once (storage app) (machine_now s)\<rparr>)"

fun server_exec_all :: "'s deps \<Rightarrow> 's app_state \<Rightarrow> action list \<Rightarrow> 's cserver \<Rightarrow> 's cserver option" where
  "server_exec_all d app [] s = Some s"
| "server_exec_all d app (a # acts) s =
     (case server_exec d app a s of None \<Rightarrow> None | Some s1 \<Rightarrow> server_exec_all d app acts s1)"

lemma server_exec_complete: "server_step d app s a s' \<Longrightarrow> server_exec d app a s = Some s'"
  by (induction rule: server_step.induct) simp_all

lemma server_exec_sound:
  assumes "server_exec d app a s = Some s'"
  shows "server_step d app s a s'"
  using assms
  by (cases a)
    (auto simp: server_step_simps Let_def split: if_splits job.splits stage.splits task.splits option.splits
      sum.splits prod.splits)

lemma server_exec_iff: "server_step d app s a s' \<longleftrightarrow> server_exec d app a s = Some s'"
  using server_exec_sound server_exec_complete by blast

lemma server_exec_all_iff: "server_run d app s acts s' \<longleftrightarrow> server_exec_all d app acts s = Some s'"
  by (induction acts arbitrary: s) (auto simp: server_exec_iff split: option.splits)

end
