(* ===== verification/Server_Flight_Facts.thy ===== *)
theory Server_Flight_Facts
  imports Server_Flight
begin

text \<open>
  What holds in every reachable state of the concurrent server: its tasks and those of the
  existence cache go together, so that what the cache guarantees under concurrency holds of
  it inside the server.
\<close>

section \<open>The parts of the state\<close>

lemma set_job_simps [simp]:
  "probes (set_job t j s) = probes s" "world (set_job t j s) = world s" "jobs (set_job t j s) = (jobs s)(t := j)"
  by (simp_all add: set_job_def)

lemma set_stage_simps [simp]:
  "probes (set_stage t req t0 st s) = probes s" "world (set_stage t req t0 st s) = world s"
  "jobs (set_stage t req t0 st s) = (jobs s)(t := Active req t0 st)"
  by (simp_all add: set_stage_def)

lemma machine_now_simps [simp]:
  "clock (machine_now s) = now (probes s)" "log (machine_now s) = log (world s)"
  "calls (machine_now s) = calls (world s)" "backend (machine_now s) = backend (world s)"
  by (simp_all add: machine_now_def)

text \<open>The response a result becomes.\<close>

definition response_of :: "server_error + response \<Rightarrow> response" where
  "response_of r =
     (case r of
        Ok resp \<Rightarrow> resp
      | Err e \<Rightarrow> typed_text_response (fst (error_status_message e)) ''text/plain'' (snd (error_status_message e)))"

lemma response_of_Ok [simp]: "response_of (Ok resp) = resp"
  by (simp add: response_of_def)

lemma into_response_of [simp]: "into_response e m = (response_of (Err e), error_log e m)"
  by (simp add: response_of_def into_response_def split: prod.split)

lemma status_response_of_Err: "status (response_of (Err e)) = fst (error_status_message e)"
  by (simp add: response_of_def typed_text_response_def text_response_def)

lemma finish_simps [simp]:
  "probes (finish d t req t0 r rest s) = probes s"
  "jobs (finish d t req t0 r rest s) = (jobs s)(t := Finished req (closing (response_of r)) rest)"
  "backend (world (finish d t req t0 r rest s)) = backend (world s)"
  by (cases r; simp add: finish_def)+

lemma start_drain_simps [simp]:
  "probes (start_drain t req t0 r b s) = probes s" "world (start_drain t req t0 r b s) = world s"
  by (simp_all add: start_drain_def split: prod.split)

lemma jobs_start_drain:
  "\<exists>rest deadline. jobs (start_drain t req t0 r b s) = (jobs s)(t := Active req t0 (Draining r rest deadline))"
  by (simp add: start_drain_def split: prod.split) blast

lemma tasks_flight_mark [simp]: "tasks (flight_mark k p) = tasks p"
  by (simp add: flight_mark_def)

lemma tasks_flight_slot: "flight_slot k p = (i, p1) \<Longrightarrow> tasks p1 = tasks p"
  by (erule flight_slot_cases) simp_all

section \<open>Requests and cache tasks go together\<close>

fun job_linked :: "job \<Rightarrow> task \<Rightarrow> bool" where
  "job_linked Unused st \<longleftrightarrow> st = Idle"
| "job_linked (Active req t0 (Awaiting h)) st \<longleftrightarrow> (\<exists>i e b. st = Waiting h i e \<or> st = Probing h i e b)"
| "job_linked (Active req t0 (Headed h r)) st \<longleftrightarrow> (\<exists>i e b. st = Probing h i e b)"
| "job_linked _ st \<longleftrightarrow> (\<forall>k i e b. st \<noteq> Waiting k i e \<and> st \<noteq> Probing k i e b)"

definition linked :: "'s cserver \<Rightarrow> bool" where
  "linked s \<longleftrightarrow> (\<forall>t. job_linked (jobs s t) (tasks (probes s) t))"

lemma linked_init: "linked (cserver_init m)"
  by (simp add: linked_def cserver_init_def flight_init_def)

lemma linkedD: "linked s \<Longrightarrow> jobs s t = j \<Longrightarrow> job_linked j (tasks (probes s) t)"
  by (auto simp: linked_def)

lemma linked_update:
  assumes "linked s" "jobs s' = (jobs s)(t := j)"
    and "\<And>u. u \<noteq> t \<Longrightarrow> tasks (probes s') u = tasks (probes s) u" "job_linked j (tasks (probes s') t)"
  shows "linked s'"
  using assms by (auto simp: linked_def)

text \<open>
  What a step may do: it moves the job of one task, its own; it leaves the cache alone or
  is a step of the cache for the same task.
\<close>

definition quiet_task :: "task \<Rightarrow> bool" where
  "quiet_task st \<longleftrightarrow> (\<forall>k i e b. st \<noteq> Waiting k i e \<and> st \<noteq> Probing k i e b)"

lemma job_linked_quiet [simp]:
  "job_linked (Finished req resp rest) st = quiet_task st" "job_linked (Gone req) st = quiet_task st"
  "job_linked (Active req t0 (Reading h)) st = quiet_task st"
  "job_linked (Active req t0 (Was_Read h rr)) st = quiet_task st"
  "job_linked (Active req t0 (Checking h data)) st = quiet_task st"
  "job_linked (Active req t0 (Checked h data ex)) st = quiet_task st"
  "job_linked (Active req t0 (Writing h data)) st = quiet_task st"
  "job_linked (Active req t0 (Written h w rest)) st = quiet_task st"
  "job_linked (Active req t0 (Draining res rest deadline)) st = quiet_task st"
  by (simp_all add: quiet_task_def)

lemma quiet_task_simps [simp]:
  "quiet_task Idle" "quiet_task (Answered k e r c)" "\<not> quiet_task (Waiting k i e)" "\<not> quiet_task (Probing k i e b)"
  by (simp_all add: quiet_task_def)

declare job_linked.simps(4-) [simp del]

lemma linked_finish:
  assumes "linked s" "quiet_task (tasks (probes s1) t)" "jobs s1 = jobs s"
    and "\<And>u. u \<noteq> t \<Longrightarrow> tasks (probes s1) u = tasks (probes s) u"
  shows "linked (finish d t req t0 r rest s1)"
  by (rule linked_update [OF assms(1), where t = t and j = "Finished req (closing (response_of r)) rest"])
    (simp_all add: assms)

lemma linked_set_stage:
  assumes "linked s" "jobs s1 = jobs s" "job_linked (Active req t0 st) (tasks (probes s1) t)"
    and "\<And>u. u \<noteq> t \<Longrightarrow> tasks (probes s1) u = tasks (probes s) u"
  shows "linked (set_stage t req t0 st s1)"
  by (rule linked_update [OF assms(1), where t = t and j = "Active req t0 st"]) (simp_all add: assms)

lemma linked_start_drain:
  assumes "linked s" "quiet_task (tasks (probes s1) t)" "jobs s1 = jobs s"
    and "\<And>u. u \<noteq> t \<Longrightarrow> tasks (probes s1) u = tasks (probes s) u"
  shows "linked (start_drain t req t0 r b s1)"
  using linked_set_stage [OF assms(1,3) _ assms(4)] assms(2) by (simp add: start_drain_def split: prod.split)

lemma linked_after_present:
  assumes "linked s" "jobs s1 = jobs s" "quiet_task (tasks (probes s1) t)"
    and "\<And>u. u \<noteq> t \<Longrightarrow> tasks (probes s1) u = tasks (probes s) u"
  shows "linked (after_present d t req t0 h r s1)"
proof (cases "unwrap_or False r")
  case True
  then show ?thesis using linked_set_stage [OF assms(1,2) _ assms(4)] assms(3) by (simp add: after_present_def)
next
  case False
  then show ?thesis using linked_finish [OF assms(1,3,2,4)] by (simp add: after_present_def)
qed

lemma linked_begin_get:
  assumes "linked s" "quiet_task (tasks (probes s) t)"
  shows "linked (begin_get d t req t0 h s)"
proof (cases "validate_hash (d_uni d) h")
  case (Inl e)
  then show ?thesis using linked_finish [OF assms refl refl] by (simp add: begin_get_def)
next
  case (Inr u)
  obtain i p where p: "flight_slot h (probes s) = (i, p)" by (cases "flight_slot h (probes s)")
  have "linked (set_stage t req t0 (Awaiting h)
      (s\<lparr>probes := set_task t (Waiting h i (now (probes s))) p\<rparr>))"
    by (rule linked_set_stage [OF assms(1)]) (simp_all add: tasks_flight_slot [OF p])
  then show ?thesis using Inr p by (simp add: begin_get_def)
qed

lemma linked_begin_put:
  assumes "linked s" "quiet_task (tasks (probes s) t)"
  shows "linked (begin_put d t req t0 h s)"
  using linked_start_drain [OF assms refl refl] linked_set_stage [OF assms(1) refl] assms(2)
  by (simp add: begin_put_def split: sum.split)

lemma linked_arrive:
  assumes "linked s" "jobs s t = Unused"
  shows "linked (arrive d app t req s)"
proof -
  have q: "quiet_task (tasks (probes s) t)" using linkedD [OF assms] by simp
  note fin = linked_finish [OF assms(1) q refl refl]
  show ?thesis
    using fin linked_start_drain [OF assms(1) q refl refl] linked_begin_get [OF assms(1) q] linked_begin_put [OF assms(1) q]
    by (simp add: arrive_def begin_auth_def begin_cache_def Let_def split: route_match.split option.split)
qed

lemma linked_step: "server_step d app s a s' \<Longrightarrow> linked s \<Longrightarrow> linked s'"
proof (induction rule: server_step.induct)
  case (pass s delay)
  then show ?case by (simp add: linked_def)
next
  case (arrive s t req)
  then show ?case by (rule linked_arrive [rotated])
next
  case (cell_hit s t req t0 h i e v)
  show ?case by (rule linked_after_present [OF cell_hit(4)]) simp_all
next
  case (probe_start s t req t0 h i e)
  show ?case
    by (rule linked_update [OF probe_start(5), where t = t and j = "jobs s t"]) (simp_all add: probe_start(1) fun_upd_idem)
next
  case (head_effect s t req t0 h i e b r m)
  show ?case by (rule linked_set_stage [OF head_effect(4)]) (simp_all add: head_effect(2))
next
  case (probe_end s t req t0 h v i e b)
  show ?case by (rule linked_after_present [OF probe_end(3)]) simp_all
next
  case (probe_fail s t req t0 h err i e b)
  show ?case by (rule linked_after_present [OF probe_fail(3)]) simp_all
next
  case (get_effect s t req t0 h r' m)
  show ?case using linkedD [OF get_effect(3,1)] by (intro linked_set_stage [OF get_effect(3)]) simp_all
next
  case (get_end s t req t0 h r')
  then show ?case using linkedD [OF get_end(2,1)] linked_finish [OF get_end(2) _ refl refl]
    by (simp add: after_retrieve_def split: sum.split)
next
  case (check_effect s t req t0 h data r m)
  show ?case using linkedD [OF check_effect(3,1)] by (intro linked_set_stage [OF check_effect(3)]) simp_all
next
  case (check_end s t req t0 h data r)
  have q: "quiet_task (tasks (probes s) t)" using linkedD [OF check_end(2,1)] by simp
  show ?case
  proof (cases "unwrap_or False r")
    case True
    show ?thesis unfolding after_check_def if_P [OF True]
      by (rule linked_start_drain [OF check_end(2)]) (simp_all add: q)
  next
    case False
    show ?thesis unfolding after_check_def if_not_P [OF False]
      by (rule linked_set_stage [OF check_end(2)]) (simp_all add: q)
  qed
next
  case (put_effect s t req t0 h data st rest m)
  show ?case using linkedD [OF put_effect(3,1)] by (intro linked_set_stage [OF put_effect(3)]) simp_all
next
  case (put_end s t req t0 h st rest)
  have q: "quiet_task (tasks (probes s) t)" using linkedD [OF put_end(2,1)] by simp
  show ?case
  proof (cases st)
    case (Inl err)
    have "linked (start_drain t req t0 (Err Forbidden) rest (s\<lparr>world := emit (Store_Declined h err) (world s)\<rparr>))"
      by (rule linked_start_drain [OF put_end(2)]) (simp_all add: q)
    moreover have "linked (finish d t req t0 (Err (Storage ClientAbort)) rest s)"
      by (rule linked_finish [OF put_end(2) q]) simp_all
    ultimately show ?thesis using Inl by (simp add: after_store_def)
  next
    case (Inr u)
    have "linked (finish d t req t0 (Ok (text_response HTTP_OK '''')) rest (s\<lparr>probes := flight_mark h (probes s)\<rparr>))"
      by (rule linked_finish [OF put_end(2)]) (simp_all add: q)
    then show ?thesis using Inr by (simp add: after_store_def)
  qed
next
  case (drain_end s t req t0 res rest deadline)
  show ?case using linkedD [OF drain_end(3,1)] by (intro linked_finish [OF drain_end(3)]) simp_all
next
  case (hang_up s t req t0 sg)
  show ?case
    by (rule linked_update [OF hang_up(2), where t = t and j = "Gone req"])
      (auto simp: drop_task_def split: task.split)
next
  case (self_check s)
  then show ?case by (simp add: linked_def)
qed

section \<open>The cache inside the server is the cache on its own\<close>

lemma probes_after [simp]:
  "probes (after_present d t req t0 h r s) = probes s"
  "probes (after_retrieve d t req t0 r' s) = probes s"
  "probes (after_check t req t0 h data r s) = (if unwrap_or False r then flight_mark h (probes s) else probes s)"
  "probes (after_store d t req t0 h w rest s) = (if w = Ok () then flight_mark h (probes s) else probes s)"
  "probes (begin_put d t req t0 h s) = probes s"
  by (simp_all add: after_present_def after_retrieve_def after_check_def after_store_def begin_put_def
      split: sum.split)

lemma probes_begin_get:
  "probes (begin_get d t req t0 h s) =
     (if validate_hash (d_uni d) h = Ok () then
        (case flight_slot h (probes s) of (i, p) \<Rightarrow> set_task t (Waiting h i (now (probes s))) p)
      else probes s)"
  by (simp add: begin_get_def split: sum.split prod.split)

lemma probes_arrive:
  obtains (same) "probes (arrive d app t req s) = probes s"
  | (enter) h i p where "flight_slot h (probes s) = (i, p)"
      "probes (arrive d app t req s) = set_task t (Waiting h i (now (probes s))) p"
proof (cases "probes (arrive d app t req s) = probes s")
  case False
  then obtain h where "probes (arrive d app t req s) = probes (begin_get d t req (now (probes s)) h s)"
    "validate_hash (d_uni d) h = Ok ()"
    by (auto simp: arrive_def begin_auth_def begin_cache_def probes_begin_get Let_def
        split: route_match.splits option.splits if_splits)
  then show ?thesis using enter
    by (cases "flight_slot h (probes s)") (auto simp: probes_begin_get)
qed (rule same)

lemma flight_step_drop:
  assumes "drop_task t p \<noteq> p"
  shows "flight_step p (Cancel t) (drop_task t p)"
  using assms by (auto simp: drop_task_def intro: flight_step.intros split: task.splits)

lemma server_step_probes:
  "server_step d app s a s' \<Longrightarrow> linked s \<Longrightarrow>
     probes s' = probes s \<or> (\<exists>ev. flight_step (probes s) ev (probes s'))"
proof (induction rule: server_step.induct)
  case (arrive s t req)
  have idle: "tasks (probes s) t = Idle" using linkedD [OF arrive(2,1)] by simp
  show ?case
  proof (cases rule: probes_arrive [of d app t req s])
    case (enter h i p)
    then show ?thesis using flight_step.enter [OF idle enter(1)] by auto
  qed simp
next
  case (pass s delay)
  then show ?case using flight_step.tick by auto
next
  case (cell_hit s t req t0 h i e v)
  then show ?case using flight_step.hit by fastforce
next
  case (probe_start s t req t0 h i e)
  then show ?case using flight_step.begin_probe by fastforce
next
  case (probe_end s t req t0 h v i e b)
  then show ?case using flight_step.resolve by fastforce
next
  case (probe_fail s t req t0 h err i e b)
  then show ?case using flight_step.fail by fastforce
next
  case (check_end s t req t0 h data r)
  then show ?case using flight_step.mark by auto
next
  case (put_end s t req t0 h st rest)
  then show ?case using flight_step.mark by auto
next
  case (hang_up s t req t0 sg)
  then show ?case using flight_step_drop [of t "probes s"] by auto
qed simp_all

lemma server_run_induct_inv:
  assumes "server_run d app s acts s'" "P s"
    and "\<And>s a s'. server_step d app s a s' \<Longrightarrow> P s \<Longrightarrow> P s'"
  shows "P s'"
  using assms(1,2) by (induction rule: server_run.induct) (auto intro: assms(3))

lemma server_reachable_inv:
  assumes "server_reachable d app m s" "P (cserver_init m)"
    and "\<And>s a s'. server_step d app s a s' \<Longrightarrow> P s \<Longrightarrow> P s'"
  shows "P s"
  using assms server_run_induct_inv [where P = P] unfolding server_reachable_def by blast

lemma server_run_inv:
  assumes "server_run d app s acts s'" "linked s \<and> flight_inv (probes s)"
  shows "linked s' \<and> flight_inv (probes s')"
  using assms
proof (rule server_run_induct_inv [where P = "\<lambda>s. linked s \<and> flight_inv (probes s)"])
  fix s a s' assume step: "server_step d app s a s'" and inv: "linked s \<and> flight_inv (probes s)"
  then show "linked s' \<and> flight_inv (probes s')"
    using linked_step [OF step] server_step_probes [OF step] by (auto intro: flight_step_inv)
qed

lemma server_run_append:
  "server_run d app s acts1 s1 \<Longrightarrow> server_run d app s1 acts2 s2 \<Longrightarrow> server_run d app s (acts1 @ acts2) s2"
  by (induction rule: server_run.induct) (auto intro: server_run.intros)

lemma server_reachable_run:
  "server_reachable d app m s \<Longrightarrow> server_run d app s acts s' \<Longrightarrow> server_reachable d app m s'"
  unfolding server_reachable_def using server_run_append by blast

lemma server_reachable_step:
  "server_reachable d app m s \<Longrightarrow> server_step d app s a s' \<Longrightarrow> server_reachable d app m s'"
  by (rule server_reachable_run [where acts = "[a]"]) auto

lemma reachable_linked: "server_reachable d app m s \<Longrightarrow> linked s"
  by (rule server_reachable_inv [where P = linked]) (auto intro: linked_init linked_step)

text \<open>So every property of the reachable states of \<open>Single_Flight\<close> holds in the server.\<close>

lemma reachable_probes:
  assumes "server_reachable d app m s"
  shows "flight_reachable (probes s)"
proof -
  have "linked s \<and> flight_reachable (probes s)"
    using assms
  proof (rule server_reachable_inv [where P = "\<lambda>s. linked s \<and> flight_reachable (probes s)"])
    show "linked (cserver_init m) \<and> flight_reachable (probes (cserver_init m))"
      by (simp add: linked_init) (simp add: cserver_init_def flight_reachable.start)
    show "linked s' \<and> flight_reachable (probes s')"
      if "server_step d app s a s'" "linked s \<and> flight_reachable (probes s)" for s a s'
      using that linked_step server_step_probes flight_reachable.step by metis
  qed
  then show ?thesis by simp
qed

end
