(* ===== verification/Server_Answers.thy ===== *)
theory Server_Answers
  imports Server_Flight_Facts
begin

text \<open>
  Typing the concurrent server: what kind of request each suspended task serves, and what
  each answer may look like. Every step preserves it, so every answer sent under any
  interleaving is one that its request has earned.
\<close>

section \<open>Requests that reach a handler's storage calls\<close>

definition get_request :: "'s deps \<Rightarrow> 's app_state \<Rightarrow> request \<Rightarrow> string \<Rightarrow> bool" where
  "get_request d app req h \<longleftrightarrow>
     d_match_path d (req_path req) = Route_Cache (Some h) \<and> is_read (req_method req) \<and>
     authenticated d (config app) req \<and> validate_hash (d_uni d) h = Ok ()"

definition put_request :: "'s deps \<Rightarrow> 's app_state \<Rightarrow> request \<Rightarrow> string \<Rightarrow> bool" where
  "put_request d app req h \<longleftrightarrow>
     d_match_path d (req_path req) = Route_Cache (Some h) \<and> req_method req = PUT \<and>
     may_write d (config app) req \<and> validate_hash (d_uni d) h = Ok ()"

section \<open>Answers\<close>

text \<open>A refusal that the Nx client accepts: exactly \<open>text/plain\<close>, and not empty.\<close>

definition plain_refusal :: "response \<Rightarrow> bool" where
  "plain_refusal resp \<longleftrightarrow>
     header_get (resp_headers resp) ''content-type'' = Some ''text/plain'' \<and>
     (case resp_body resp of Text msg \<Rightarrow> msg \<noteq> [] | _ \<Rightarrow> False)"

definition ok_answer :: "'s deps \<Rightarrow> 's app_state \<Rightarrow> request \<Rightarrow> response \<Rightarrow> bool" where
  "ok_answer d app req resp \<longleftrightarrow>
     d_match_path d (req_path req) = Route_Health \<and> is_read (req_method req) \<and> resp_body resp = Text ''OK'' \<or>
     (\<exists>h stream. get_request d app req h \<and> resp_body resp = Artifact stream \<and>
        header_get (resp_headers resp) ''content-type'' = Some ''application/octet-stream'') \<or>
     (\<exists>h. put_request d app req h \<and> resp_body resp = Text '''')"

definition on_cache_route :: "'s deps \<Rightarrow> request \<Rightarrow> bool" where
  "on_cache_route d req \<longleftrightarrow> (\<exists>param. d_match_path d (req_path req) = Route_Cache param)"

fun earned :: "'s deps \<Rightarrow> 's app_state \<Rightarrow> request \<Rightarrow> response \<Rightarrow> status_code \<Rightarrow> bool" where
  "earned d app req resp HTTP_OK \<longleftrightarrow> ok_answer d app req resp"
| "earned d app req resp BAD_REQUEST \<longleftrightarrow> on_cache_route d req \<and> authenticated d (config app) req"
| "earned d app req resp UNAUTHORIZED \<longleftrightarrow>
     on_cache_route d req \<and> \<not> authenticated d (config app) req \<and> plain_refusal resp"
| "earned d app req resp FORBIDDEN \<longleftrightarrow>
     on_cache_route d req \<and> authenticated d (config app) req \<and> \<not> is_read (req_method req) \<and>
     (may_write d (config app) req \<longrightarrow> req_method req = PUT) \<and> plain_refusal resp"
| "earned d app req resp NOT_FOUND \<longleftrightarrow>
     d_match_path d (req_path req) = No_Route \<or> (\<exists>h. get_request d app req h)"
| "earned d app req resp METHOD_NOT_ALLOWED \<longleftrightarrow>
     d_match_path d (req_path req) = Route_Health \<and> \<not> is_read (req_method req) \<or>
     on_cache_route d req \<and> may_write d (config app) req \<and> \<not> is_read (req_method req) \<and> req_method req \<noteq> PUT"
| "earned d app req resp CONFLICT \<longleftrightarrow> (\<exists>h. put_request d app req h)"
| "earned d app req resp INTERNAL_SERVER_ERROR \<longleftrightarrow> False"

definition answer_ok :: "'s deps \<Rightarrow> 's app_state \<Rightarrow> request \<Rightarrow> response \<Rightarrow> bool" where
  "answer_ok d app req resp \<longleftrightarrow>
     header_get (resp_headers resp) ''connection'' = Some ''close'' \<and> earned d app req resp (status resp)"

section \<open>Suspended tasks\<close>

fun stage_ok :: "'s deps \<Rightarrow> 's app_state \<Rightarrow> request \<Rightarrow> stage \<Rightarrow> bool" where
  "stage_ok d app req (Awaiting h) \<longleftrightarrow> get_request d app req h"
| "stage_ok d app req (Headed h r) \<longleftrightarrow> get_request d app req h"
| "stage_ok d app req (Reading h) \<longleftrightarrow> get_request d app req h"
| "stage_ok d app req (Was_Read h r) \<longleftrightarrow> get_request d app req h"
| "stage_ok d app req (Checking h data) \<longleftrightarrow> put_request d app req h \<and> data = req_body req"
| "stage_ok d app req (Checked h data r) \<longleftrightarrow> put_request d app req h \<and> data = req_body req"
| "stage_ok d app req (Writing h data) \<longleftrightarrow> put_request d app req h \<and> data = req_body req"
| "stage_ok d app req (Written h r rest) \<longleftrightarrow> put_request d app req h"
| "stage_ok d app req (Draining r rest deadline) \<longleftrightarrow>
     answer_ok d app req (closing (response_of r)) \<and> status (response_of r) \<noteq> HTTP_OK"

fun job_ok :: "'s deps \<Rightarrow> 's app_state \<Rightarrow> job \<Rightarrow> bool" where
  "job_ok d app Unused \<longleftrightarrow> True"
| "job_ok d app (Active req t0 st) \<longleftrightarrow> stage_ok d app req st"
| "job_ok d app (Finished req resp rest) \<longleftrightarrow> answer_ok d app req resp"
| "job_ok d app (Gone req) \<longleftrightarrow> True"

definition jobs_ok :: "'s deps \<Rightarrow> 's app_state \<Rightarrow> 's cserver \<Rightarrow> bool" where
  "jobs_ok d app s \<longleftrightarrow> (\<forall>t. job_ok d app (jobs s t))"

lemma jobs_ok_init: "jobs_ok d app (cserver_init m)"
  by (simp add: jobs_ok_def cserver_init_def)

lemma jobs_okD: "jobs_ok d app s \<Longrightarrow> jobs s t = j \<Longrightarrow> job_ok d app j"
  by (auto simp: jobs_ok_def)

lemma jobs_ok_update: "jobs_ok d app s \<Longrightarrow> jobs s' = (jobs s)(t := j) \<Longrightarrow> job_ok d app j \<Longrightarrow> jobs_ok d app s'"
  by (simp add: jobs_ok_def)

section \<open>The answers the code makes\<close>

lemma answer_ok_closing:
  "answer_ok d app req (closing resp) \<longleftrightarrow> earned d app req (closing resp) (status resp)"
  by (simp add: answer_ok_def)

lemma plain_refusal_Err: "plain_refusal (closing (response_of (Err e)))"
proof -
  have "snd (error_status_message e) \<noteq> []" by (rule error_message_nonempty)
  then show ?thesis
    by (simp add: plain_refusal_def response_of_def typed_text_response_def text_response_def)
qed

lemma answer_unauthorized:
  "on_cache_route d req \<Longrightarrow> \<not> authenticated d (config app) req \<Longrightarrow>
     answer_ok d app req (closing (response_of (Err Unauthorized)))"
  by (simp add: answer_ok_closing status_response_of_Err plain_refusal_Err)

lemma answer_forbidden:
  "on_cache_route d req \<Longrightarrow> authenticated d (config app) req \<Longrightarrow> \<not> is_read (req_method req) \<Longrightarrow>
     (may_write d (config app) req \<longrightarrow> req_method req = PUT) \<Longrightarrow>
     answer_ok d app req (closing (response_of (Err Forbidden)))"
  by (simp add: answer_ok_closing status_response_of_Err plain_refusal_Err)

lemma answer_bad_request:
  "on_cache_route d req \<Longrightarrow> authenticated d (config app) req \<Longrightarrow> e = BadRequest \<or> e = Storage ClientAbort \<Longrightarrow>
     answer_ok d app req (closing (response_of (Err e)))"
  by (auto simp: answer_ok_closing status_response_of_Err)

lemma answer_not_found:
  "get_request d app req h \<Longrightarrow> answer_ok d app req (closing (response_of (Err (Storage NotFound))))"
  by (auto simp: answer_ok_closing status_response_of_Err)

lemma put_request_facts:
  "put_request d app req h \<Longrightarrow>
     on_cache_route d req \<and> authenticated d (config app) req \<and> \<not> is_read (req_method req) \<and> req_method req = PUT"
  by (auto simp: put_request_def on_cache_route_def is_read_def dest: may_write_authenticated)

lemma get_request_facts:
  "get_request d app req h \<Longrightarrow> on_cache_route d req \<and> authenticated d (config app) req \<and> is_read (req_method req)"
  by (auto simp: get_request_def on_cache_route_def)

section \<open>Every step keeps the types\<close>

text \<open>A task's next job is well-typed when it ends, drains, or waits for the storage as it may.\<close>

definition next_ok :: "'s deps \<Rightarrow> 's app_state \<Rightarrow> nat \<Rightarrow> 's cserver \<Rightarrow> 's cserver \<Rightarrow> bool" where
  "next_ok d app t s s' \<longleftrightarrow> (\<exists>j. jobs s' = (jobs s)(t := j) \<and> job_ok d app j)"

lemma next_okI: "jobs s' = (jobs s)(t := j) \<Longrightarrow> job_ok d app j \<Longrightarrow> next_ok d app t s s'"
  by (auto simp: next_ok_def)

lemma next_ok_jobs: "next_ok d app t s s' \<Longrightarrow> jobs_ok d app s \<Longrightarrow> jobs_ok d app s'"
  by (auto simp: next_ok_def intro: jobs_ok_update)

lemma next_ok_frame [simp]: "next_ok d app t (s\<lparr>probes := p\<rparr>) s' = next_ok d app t s s'"
  "next_ok d app t (s\<lparr>world := m\<rparr>) s' = next_ok d app t s s'"
  by (simp_all add: next_ok_def)

lemma next_ok_finish:
  "answer_ok d app req (closing (response_of r)) \<Longrightarrow> next_ok d app t s (finish d t req t0 r rest s)"
  by (rule next_okI, rule finish_simps) simp

lemma next_ok_set_stage: "stage_ok d app req st \<Longrightarrow> next_ok d app t s (set_stage t req t0 st s)"
  by (rule next_okI, rule set_stage_simps) simp

lemma next_ok_start_drain:
  "answer_ok d app req (closing (response_of r)) \<Longrightarrow> status (response_of r) \<noteq> HTTP_OK \<Longrightarrow>
     next_ok d app t s (start_drain t req t0 r b s)"
  by (simp add: start_drain_def next_ok_set_stage split: prod.split)

lemma next_ok_axum:
  assumes "axum_response_spec d" "earned d app req (closing (d_axum_response d st)) st"
  shows "next_ok d app t s (finish d t req t0 (Ok (d_axum_response d st)) rest s)"
  using assms by (intro next_ok_finish) (simp add: answer_ok_closing axum_response_spec_def)

lemma next_ok_begin_get:
  assumes "d_match_path d (req_path req) = Route_Cache (Some h)" "is_read (req_method req)"
    "authenticated d (config app) req"
  shows "next_ok d app t s (begin_get d t req t0 h s)"
proof (cases rule: validate_hash_split [of "d_uni d" h])
  case valid
  obtain i p where "flight_slot h (probes s) = (i, p)" by (cases "flight_slot h (probes s)")
  then show ?thesis using valid assms next_ok_set_stage [of d app req "Awaiting h" t "s\<lparr>probes := q\<rparr>" t0 for q]
    by (simp add: begin_get_def get_request_def)
next
  case invalid
  then show ?thesis using assms answer_bad_request [of d req app]
    by (auto simp: begin_get_def on_cache_route_def intro!: next_ok_finish)
qed

lemma next_ok_begin_put:
  assumes "d_match_path d (req_path req) = Route_Cache (Some h)" "req_method req = PUT" "may_write d (config app) req"
  shows "next_ok d app t s (begin_put d t req t0 h s)"
proof (cases rule: validate_hash_split [of "d_uni d" h])
  case valid
  then show ?thesis using assms by (auto simp: begin_put_def put_request_def intro: next_ok_set_stage)
next
  case invalid
  have "answer_ok d app req (closing (response_of (Err BadRequest)))"
    using assms may_write_authenticated by (intro answer_bad_request) (auto simp: on_cache_route_def)
  then show ?thesis using invalid by (auto simp: begin_put_def status_response_of_Err intro!: next_ok_start_drain)
qed

lemma next_ok_begin_cache:
  assumes "axum_response_spec d" "d_match_path d (req_path req) = Route_Cache param"
    "authenticated d (config app) req" "is_read (req_method req) \<or> may_write d (config app) req"
  shows "next_ok d app t s (begin_cache d t req t0 param s)"
proof -
  have route: "on_cache_route d req" using assms(2) by (simp add: on_cache_route_def)
  consider (read) "is_read (req_method req)" | (put) "req_method req = PUT" "may_write d (config app) req"
    | (other) "\<not> is_read (req_method req)" "req_method req \<noteq> PUT" "may_write d (config app) req"
    using assms(4) by (auto simp: is_read_def)
  then show ?thesis
  proof cases
    case read
    then show ?thesis using assms route
      by (auto simp: begin_cache_def is_read_def split: option.split
          intro!: next_ok_begin_get next_ok_axum [OF assms(1)])
  next
    case put
    then show ?thesis using assms route
      by (auto simp: begin_cache_def split: option.split
          intro!: next_ok_begin_put next_ok_axum [OF assms(1)])
  next
    case other
    then show ?thesis using route
      by (auto simp: begin_cache_def is_read_def intro!: next_ok_axum [OF assms(1)])
  qed
qed

lemma begin_auth_eq:
  "begin_auth d cfg t req t0 param s =
     (if \<not> authenticated d cfg req then finish d t req t0 (Err Unauthorized) (req_body req) s
      else if \<not> may_write d cfg req \<and> \<not> is_read (req_method req) then
        start_drain t req t0 (Err Forbidden) (req_body req) s
      else begin_cache d t req t0 param s)"
  by (auto simp: begin_auth_def authenticated_def may_write_def split: option.split)

lemma next_ok_begin_auth:
  assumes "axum_response_spec d" "d_match_path d (req_path req) = Route_Cache param"
  shows "next_ok d app t s (begin_auth d (config app) t req t0 param s)"
proof -
  have route: "on_cache_route d req" using assms(2) by (simp add: on_cache_route_def)
  show ?thesis
    using answer_unauthorized [OF route] answer_forbidden [OF route]
    by (auto simp: begin_auth_eq status_response_of_Err
        intro!: next_ok_begin_cache [OF assms] next_ok_finish next_ok_start_drain)
qed

lemma next_ok_arrive:
  assumes "axum_response_spec d"
  shows "next_ok d app t s (arrive d app t req s)"
proof (cases "d_match_path d (req_path req)")
  case Route_Health
  have "is_read (req_method req) \<Longrightarrow> answer_ok d app req (closing (response_of (Ok health_check)))"
    using Route_Health by (simp add: answer_ok_closing health_check_def text_response_def ok_answer_def)
  then show ?thesis using Route_Health
    by (cases "is_read (req_method req)")
      (auto simp: arrive_def Let_def is_read_def intro!: next_ok_finish [where r = "Ok health_check"]
        next_ok_axum [OF assms])
next
  case (Route_Cache param)
  then show ?thesis by (simp add: arrive_def next_ok_begin_auth [OF assms])
next
  case No_Route
  then show ?thesis by (simp add: arrive_def next_ok_axum [OF assms])
qed

lemma header_get_single: "header_get [(n, v)] n = Some v"
  by (simp add: header_get_def)

lemma jobs_ok_step:
  assumes "axum_response_spec d"
  shows "server_step d app s a s' \<Longrightarrow> jobs_ok d app s \<Longrightarrow> jobs_ok d app s'"
proof (induction rule: server_step.induct)
  case (arrive s t req)
  then show ?case using next_ok_arrive [OF assms] next_ok_jobs by blast
next
  case (cell_hit s t req t0 h i e v)
  then show ?case using jobs_okD [OF cell_hit(4,1)]
    by (auto simp: after_present_def jobs_ok_def intro: answer_not_found)
next
  case (probe_end s t req t0 h v i e b)
  then show ?case using jobs_okD [OF probe_end(3,1)]
    by (auto simp: after_present_def jobs_ok_def intro: answer_not_found)
next
  case (probe_fail s t req t0 h err i e b)
  then show ?case using jobs_okD [OF probe_fail(3,1)]
    by (auto simp: after_present_def jobs_ok_def intro: answer_not_found)
next
  case (head_effect s t req t0 h i e b r m)
  then show ?case using jobs_okD [OF head_effect(4,1)] by (simp add: jobs_ok_def)
next
  case (get_effect s t req t0 h r' m)
  then show ?case using jobs_okD [OF get_effect(3,1)] by (simp add: jobs_ok_def)
next
  case (get_end s t req t0 h r')
  have g: "get_request d app req h" using jobs_okD [OF get_end(2,1)] by simp
  show ?case
  proof (cases r')
    case (Inl err)
    have "next_ok d app t s (after_retrieve d t req t0 r' s)"
      using Inl next_ok_finish [OF answer_not_found [OF g]] by (simp add: after_retrieve_def)
    then show ?thesis using get_end(2) by (rule next_ok_jobs)
  next
    case (Inr reader)
    let ?resp = "\<lparr>status = HTTP_OK, resp_headers = [(''content-type'', ''application/octet-stream'')],
      resp_body = Artifact (d_reader_stream d reader)\<rparr>"
    have "ok_answer d app req (closing ?resp)"
      using g by (auto simp: ok_answer_def header_get_single)
    then have "answer_ok d app req (closing (response_of (Ok ?resp)))" by (simp add: answer_ok_closing)
    then have "next_ok d app t s (after_retrieve d t req t0 r' s)"
      using Inr by (simp add: after_retrieve_def next_ok_finish)
    then show ?thesis using get_end(2) by (rule next_ok_jobs)
  qed
next
  case (check_effect s t req t0 h data r m)
  then show ?case using jobs_okD [OF check_effect(3,1)] by (simp add: jobs_ok_def)
next
  case (check_end s t req t0 h data r)
  have p: "put_request d app req h" "data = req_body req" using jobs_okD [OF check_end(2,1)] by simp_all
  have "answer_ok d app req (closing (response_of (Ok (text_response CONFLICT msg))))" for msg
    using p(1) by (auto simp: answer_ok_closing text_response_def)
  then have "next_ok d app t s (after_check t req t0 h data r s)"
    using p next_ok_set_stage [of d app req "Writing h data"]
      next_ok_start_drain [of d app req "Ok (text_response CONFLICT msg)" t "s\<lparr>probes := q\<rparr>" for msg q]
    by (simp add: after_check_def text_response_def)
  then show ?case using check_end(2) by (rule next_ok_jobs)
next
  case (put_effect s t req t0 h data st rest m)
  then show ?case using jobs_okD [OF put_effect(3,1)] by (simp add: jobs_ok_def)
next
  case (put_end s t req t0 h st rest)
  have p: "put_request d app req h" using jobs_okD [OF put_end(2,1)] by simp
  note f = put_request_facts [OF p]
  have "next_ok d app t s (after_store d t req t0 h st rest s)"
  proof (cases st)
    case (Inl err)
    have "next_ok d app t (s\<lparr>world := w\<rparr>) (start_drain t req t0 (Err Forbidden) rest (s\<lparr>world := w\<rparr>))" for w
      using f by (intro next_ok_start_drain answer_forbidden) (simp_all add: status_response_of_Err is_read_def)
    moreover have "next_ok d app t s (finish d t req t0 (Err (Storage ClientAbort)) rest s)"
      using f by (intro next_ok_finish answer_bad_request) simp_all
    ultimately show ?thesis using Inl by (simp add: after_store_def)
  next
    case (Inr u)
    have "answer_ok d app req (closing (response_of (Ok (text_response HTTP_OK ''''))))"
      using p by (auto simp: answer_ok_closing text_response_def ok_answer_def)
    then have "next_ok d app t (s\<lparr>probes := q\<rparr>) (finish d t req t0 (Ok (text_response HTTP_OK '''')) rest (s\<lparr>probes := q\<rparr>))" for q
      by (rule next_ok_finish)
    then show ?thesis using Inr by (simp add: after_store_def)
  qed
  then show ?case using put_end(2) by (rule next_ok_jobs)
next
  case (drain_end s t req t0 res rest deadline)
  then show ?case using jobs_okD [OF drain_end(3,1)] next_ok_finish next_ok_jobs by (metis job_ok.simps(2) stage_ok.simps(9))
qed (simp_all add: jobs_ok_def)

lemma reachable_jobs_ok:
  assumes "axum_response_spec d" "server_reachable d app m s"
  shows "jobs_ok d app s"
  using assms(2) by (rule server_reachable_inv [where P = "jobs_ok d app"])
    (auto intro: jobs_ok_init jobs_ok_step [OF assms(1)])

end
