(* ===== verification/Aws_Config.thy ===== *)
theory Aws_Config
  imports Config
begin

text \<open>
  The storage configuration (\<open>src/infra/aws.rs\<close>, \<open>AwsStorageConfig\<close>): its validation, the
  region chain and the choice of credentials.

  The AWS SDK's own region and credential providers are arguments: \<open>region_sources\<close> holds
  what the environment, profile and instance-metadata providers answer, \<open>default_chain\<close> what
  the default credentials chain answers.
\<close>

record aws_storage_config =
  region :: "string option"
  access_key_id :: "string option"
  secret_access_key :: "string option"
  session_token :: "string option"
  bucket_name :: string
  endpoint_url :: "string option"
  timeout_seconds :: "64 word"

record region_sources =
  env_region :: "string option"
  profile_region :: "string option"
  imds_region :: "string option"

definition or_else :: "'a option \<Rightarrow> 'a option \<Rightarrow> 'a option" where
  "or_else first second = (case first of Some r \<Rightarrow> Some r | None \<Rightarrow> second)"

text \<open>\<open>impl ProvideRegion for AwsStorageConfig\<close>.\<close>

definition provide_region :: "region_sources \<Rightarrow> aws_storage_config \<Rightarrow> string option" where
  "provide_region src cfg =
     or_else (or_else (or_else (region cfg) (env_region src)) (profile_region src)) (imds_region src)"

text \<open>\<open>impl ProvideCredentials for AwsStorageConfig\<close>.\<close>

record credentials =
  cred_access_key_id :: string
  cred_secret_access_key :: string
  cred_session_token :: "string option"
  cred_provider_name :: string

definition provide_credentials :: "('e + credentials) \<Rightarrow> aws_storage_config \<Rightarrow> 'e + credentials" where
  "provide_credentials default_chain cfg =
     (case (access_key_id cfg, secret_access_key cfg) of
        (Some k, Some s) \<Rightarrow>
          Ok \<lparr>cred_access_key_id = k, cred_secret_access_key = s,
              cred_session_token = session_token cfg, cred_provider_name = ''nx-cache-server''\<rparr>
      | _ \<Rightarrow> default_chain)"

text \<open>\<open>impl ConfigValidator for AwsStorageConfig\<close>, with its early returns in order.\<close>

definition validate_storage :: "region_sources \<Rightarrow> aws_storage_config \<Rightarrow> config_error + unit" where
  "validate_storage src cfg =
     (if bucket_name cfg = [] then Err (MissingField ''S3_BUCKET_NAME'')
      else if (case endpoint_url cfg of
                 None \<Rightarrow> False
               | Some u \<Rightarrow> \<not> starts_with ''http://'' u \<and> \<not> starts_with ''https://'' u)
      then Err (Invalid ''S3 endpoint URL must start with http:// or https://'')
      else
        (case (access_key_id cfg, secret_access_key cfg) of
           (Some _, None) \<Rightarrow> Err (MissingField ''AWS_SECRET_ACCESS_KEY'')
         | (None, Some _) \<Rightarrow> Err (MissingField ''AWS_ACCESS_KEY_ID'')
         | _ \<Rightarrow>
             if provide_region src cfg = None then Err (MissingField ''AWS_REGION'')
             else Ok ()))"

lemma validate_storage_Ok_iff:
  "validate_storage src cfg = Ok () \<longleftrightarrow>
     bucket_name cfg \<noteq> [] \<and>
     (\<forall>u. endpoint_url cfg = Some u \<longrightarrow> starts_with ''http://'' u \<or> starts_with ''https://'' u) \<and>
     (access_key_id cfg = None \<longleftrightarrow> secret_access_key cfg = None) \<and>
     (\<exists>r. provide_region src cfg = Some r)"
  by (auto simp: validate_storage_def split: option.splits)

lemma provide_region_configured: "region cfg = Some r \<Longrightarrow> provide_region src cfg = Some r"
  by (simp add: provide_region_def or_else_def)

lemma provide_region_None_iff:
  "provide_region src cfg = None \<longleftrightarrow>
     region cfg = None \<and> env_region src = None \<and> profile_region src = None \<and> imds_region src = None"
  by (auto simp: provide_region_def or_else_def split: option.splits)

end
