(* ===== verification/S3_Storage.thy ===== *)
theory S3_Storage
  imports Aws_Config Probe_Cache
begin

text \<open>
  The S3 implementation of the storage trait (\<open>src/infra/aws.rs\<close>): the startup check of
  \<open>S3Storage::new\<close>, \<open>fill_part\<close>, \<open>exists\<close>, \<open>store\<close> (single PutObject or multipart upload)
  and \<open>retrieve\<close>.

  The SDK client is an argument: one function per request the code sends, from the
  backend's state to the response, the time the call took (its retries included) and the
  backend's next state. Nothing is assumed of it here.
\<close>

section \<open>The client\<close>

type_synonym ('s, 'r) sdk_call = "'s \<Rightarrow> (sdk_error + 'r) \<times> duration \<times> 's"

record 's s3_client =
  head_object :: "string \<Rightarrow> string \<Rightarrow> ('s, unit) sdk_call"
  put_object :: "string \<Rightarrow> string \<Rightarrow> bytes \<Rightarrow> ('s, unit) sdk_call"
  create_multipart_upload :: "string \<Rightarrow> string \<Rightarrow> ('s, string option) sdk_call"
  upload_part :: "string \<Rightarrow> string \<Rightarrow> string \<Rightarrow> 32 word \<Rightarrow> 64 word \<Rightarrow> bytes \<Rightarrow> ('s, string option) sdk_call"
  complete_multipart_upload :: "string \<Rightarrow> string \<Rightarrow> string \<Rightarrow> (32 word \<times> string) list \<Rightarrow> ('s, unit) sdk_call"
  abort_multipart_upload :: "string \<Rightarrow> string \<Rightarrow> string \<Rightarrow> ('s, unit) sdk_call"
  get_object :: "string \<Rightarrow> string \<Rightarrow> ('s, body) sdk_call"

text \<open>Sending one request: it takes its time, moves the backend, and enters the history.\<close>

definition send :: "s3_request \<Rightarrow> ('s, 'r) sdk_call \<Rightarrow> 's machine \<Rightarrow> (sdk_error + 'r) \<times> 's machine" where
  "send req call m =
     (let (r, d, s) = call (backend m)
      in (r, m\<lparr>clock := clock m + d, calls := calls m @ [req], backend := s\<rparr>))"

lemma send_later: "send req call m = (r, m') \<Longrightarrow> later m m'"
  by (auto simp: send_def later_def split: prod.splits)

lemma send_calls: "send req call m = (r, m') \<Longrightarrow> calls m' = calls m @ [req]"
  by (auto simp: send_def split: prod.splits)

lemma send_log: "send req call m = (r, m') \<Longrightarrow> log m' = log m"
  by (auto simp: send_def split: prod.splits)

text \<open>\<open>log_s3_error\<close>.\<close>

definition log_s3_error :: "string \<Rightarrow> string \<Rightarrow> sdk_error \<Rightarrow> 's machine \<Rightarrow> 's machine" where
  "log_s3_error operation hash err m = emit (S3_Failed operation hash err) m"

section \<open>Filling a part\<close>

definition MULTIPART_PART_SIZE :: nat where
  "MULTIPART_PART_SIZE = 8 * 1024 * 1024"

text \<open>
  The outcome of \<open>fill_part\<close>: the buffer and whether the stream ended, or a client abort;
  with the unread remainder and the running count of received bytes. \<open>None\<close> when the read
  never returns.
\<close>

type_synonym 's fill_outcome =
  "((storage_error + (bytes \<times> bool)) \<times> body \<times> nat \<times> 's machine) option"

fun fill_loop :: "nat \<Rightarrow> string \<Rightarrow> bytes \<Rightarrow> body \<Rightarrow> nat \<Rightarrow> 's machine \<Rightarrow> 's fill_outcome" where
  "fill_loop part_size hash buffer b bytes_received m =
     (if length buffer < part_size then
        (case b of
           Chunk d chunk rest \<Rightarrow>
             fill_loop part_size hash (buffer @ chunk) rest (bytes_received + length chunk) (elapse d m)
         | Broken d \<Rightarrow>
             Some (Err ClientAbort, Done, bytes_received,
               emit (Client_Aborted hash bytes_received) (elapse d m))
         | Done \<Rightarrow> Some (Ok (buffer, True), Done, bytes_received, m)
         | Stalled \<Rightarrow> None)
      else Some (Ok (buffer, False), b, bytes_received, m))"

definition fill_part :: "body \<Rightarrow> nat \<Rightarrow> string \<Rightarrow> nat \<Rightarrow> 's machine \<Rightarrow> 's fill_outcome" where
  "fill_part data part_size hash bytes_received m =
     fill_loop part_size hash [] data bytes_received m"

declare fill_loop.simps [simp del]

lemma fill_loop_full: "n \<le> length buf \<Longrightarrow> fill_loop n h buf b k m = Some (Ok (buf, False), b, k, m)"
  by (simp add: fill_loop.simps)

lemma fill_loop_step:
  assumes "length buf < n"
  shows "fill_loop n h buf Done k m = Some (Ok (buf, True), Done, k, m)"
    and "fill_loop n h buf Stalled k m = None"
    and "fill_loop n h buf (Broken d) k m =
      Some (Err ClientAbort, Done, k, emit (Client_Aborted h k) (elapse d m))"
    and "fill_loop n h buf (Chunk d bs b) k m =
      fill_loop n h (buf @ bs) b (k + length bs) (elapse d m)"
  using assms by (simp_all add: fill_loop.simps)

text \<open>
  What a returning \<open>fill_loop\<close> has done: it has moved the bytes of the stream into the
  buffer in order, counted them, and stopped at the part size, at the end of the stream, or
  at the read error.
\<close>

definition fill_post :: "nat \<Rightarrow> bytes \<Rightarrow> body \<Rightarrow> nat \<Rightarrow> (storage_error + (bytes \<times> bool)) \<Rightarrow> body \<Rightarrow> nat \<Rightarrow> bool" where
  "fill_post n buf b k r rest k' \<longleftrightarrow>
     (case r of
        Ok (out, eof) \<Rightarrow>
          out @ body_bytes rest = buf @ body_bytes b \<and> k' + length buf = k + length out \<and>
          complete b = complete rest \<and>
          (if eof then length out < n \<and> rest = Done
           else n \<le> length out \<and> (length buf < n \<longrightarrow> length out < n + max_chunk b))
      | Err e \<Rightarrow> e = ClientAbort \<and> rest = Done \<and> \<not> complete b)"

lemma fill_loop_post:
  "fill_loop n h buf b k m = Some (r, rest, k', m') \<Longrightarrow>
     fill_post n buf b k r rest k' \<and> max_chunk rest \<le> max_chunk b \<and> size rest \<le> size b \<and>
     (terminates b \<longrightarrow> terminates rest) \<and> later m m' \<and> calls m' = calls m"
proof (induction b arbitrary: buf k m)
  case (Chunk d bs b)
  show ?case
  proof (cases "length buf < n")
    case True
    let ?m = "elapse d m"
    have eq: "fill_loop n h (buf @ bs) b (k + length bs) ?m = Some (r, rest, k', m')"
      using Chunk.prems True by (simp add: fill_loop_step)
    note ih = Chunk.IH [OF eq]
    have "later m m'" using ih later_trans [of m ?m m'] by simp
    moreover have "fill_post n buf (Chunk d bs b) k r rest k'"
    proof (cases r)
      case (Inr p)
      obtain out eof where p: "p = (out, eof)" by (cases p)
      show ?thesis
      proof (cases "length (buf @ bs) < n")
        case inner: True
        then show ?thesis using ih Inr p by (auto simp: fill_post_def)
      next
        case False
        then have "out = buf @ bs" "\<not> eof" "rest = b"
          using eq Inr p by (simp_all add: fill_loop_full)
        then show ?thesis using ih True Inr p by (auto simp: fill_post_def)
      qed
    qed (use ih in \<open>auto simp: fill_post_def\<close>)
    ultimately show ?thesis using ih by auto
  next
    case False
    then show ?thesis using Chunk.prems by (auto simp: fill_loop_full fill_post_def)
  qed
next
  case Done
  then show ?case
    by (cases "length buf < n") (auto simp: fill_loop_step fill_loop_full fill_post_def)
next
  case Stalled
  then show ?case
    by (cases "length buf < n") (auto simp: fill_loop_step fill_loop_full fill_post_def)
next
  case (Broken d)
  then show ?case
    by (cases "length buf < n")
      (auto simp: fill_loop_step fill_loop_full fill_post_def intro!: later_emitI later_elapseI)
qed

lemma fill_loop_progress:
  assumes "fill_loop n h buf b k m = Some (Ok (out, False), rest, k', m')" "length buf < n"
  shows "size rest < size b"
proof (cases b)
  case (Chunk d bs b')
  then have "fill_loop n h (buf @ bs) b' (k + length bs) (elapse d m) = Some (Ok (out, False), rest, k', m')"
    using assms by (simp add: fill_loop_step)
  from fill_loop_post [OF this] show ?thesis using Chunk by simp
qed (use assms in \<open>simp_all add: fill_loop_step\<close>)

lemma fill_loop_returns: "terminates b \<Longrightarrow> \<exists>r rest k' m'. fill_loop n h buf b k m = Some (r, rest, k', m')"
proof (induction b arbitrary: buf k m)
  case (Chunk d bs b)
  then show ?case
    by (cases "length buf < n") (simp_all add: fill_loop_step fill_loop_full)
next
  case Done
  then show ?case by (cases "length buf < n") (simp_all add: fill_loop_step fill_loop_full)
next
  case (Broken d)
  then show ?case by (cases "length buf < n") (simp_all add: fill_loop_step fill_loop_full)
qed simp

section \<open>\<open>exists\<close> and \<open>retrieve\<close>\<close>

definition s3_exists ::
  "'s s3_client \<Rightarrow> string \<Rightarrow> string \<Rightarrow> 's machine \<Rightarrow> (storage_error + bool) \<times> 's machine" where
  "s3_exists client bucket hash m =
     (case send (HeadObject bucket hash) (head_object client bucket hash) m of
        (Ok _, m1) \<Rightarrow> (Ok True, m1)
      | (Err e, m1) \<Rightarrow>
          if as_service_error e = Some Head_Not_Found then (Ok False, m1)
          else (Err OperationFailed, log_s3_error ''head'' hash e m1))"

definition s3_retrieve ::
  "'s s3_client \<Rightarrow> string \<Rightarrow> string \<Rightarrow> 's machine \<Rightarrow> (storage_error + body) \<times> 's machine" where
  "s3_retrieve client bucket hash m =
     (case send (GetObject bucket hash) (get_object client bucket hash) m of
        (Ok stream, m1) \<Rightarrow> (Ok stream, m1)
      | (Err e, m1) \<Rightarrow>
          if as_service_error e = Some No_Such_Key then (Err NotFound, m1)
          else (Err OperationFailed, log_s3_error ''get'' hash e m1))"

section \<open>\<open>store\<close>\<close>

text \<open>The whole body in one part: a plain PutObject.\<close>

definition put_whole ::
  "'s s3_client \<Rightarrow> string \<Rightarrow> string \<Rightarrow> bytes \<Rightarrow> 's machine \<Rightarrow> (storage_error + unit) \<times> 's machine" where
  "put_whole client bucket hash buffer m =
     (case send (PutObject bucket hash buffer) (put_object client bucket hash buffer) m of
        (Ok _, m1) \<Rightarrow> (Ok (), m1)
      | (Err e, m1) \<Rightarrow> (Err OperationFailed, log_s3_error ''put'' hash e m1))"

text \<open>One turn of the upload loop up to the push onto \<open>completed_parts\<close>: its ETag.\<close>

definition upload_one ::
  "'s s3_client \<Rightarrow> string \<Rightarrow> string \<Rightarrow> string \<Rightarrow> 32 word \<Rightarrow> bytes \<Rightarrow> 's machine
    \<Rightarrow> (storage_error + string) \<times> 's machine" where
  "upload_one client bucket hash upload_id part_number part m =
     (case send (UploadPart bucket hash upload_id part_number (of_nat (length part)) part)
             (upload_part client bucket hash upload_id part_number (of_nat (length part)) part) m of
        (Err e, m1) \<Rightarrow> (Err OperationFailed, log_s3_error ''multipart-part'' hash e m1)
      | (Ok None, m1) \<Rightarrow> (Err OperationFailed, emit (Missing_ETag hash (unat part_number)) m1)
      | (Ok (Some e_tag), m1) \<Rightarrow> (Ok e_tag, m1))"

text \<open>The half of a turn that uploads the buffer, when there is one to upload.\<close>

definition upload_turn ::
  "'s s3_client \<Rightarrow> string \<Rightarrow> string \<Rightarrow> string \<Rightarrow> bytes \<Rightarrow> (32 word \<times> string) list \<Rightarrow> 32 word
    \<Rightarrow> 's machine \<Rightarrow> (storage_error + ((32 word \<times> string) list \<times> 32 word)) \<times> 's machine" where
  "upload_turn client bucket hash upload_id part_body completed_parts part_number m =
     (if part_body = [] then (Ok (completed_parts, part_number), m)
      else
        (case upload_one client bucket hash upload_id part_number part_body m of
           (Err e, m1) \<Rightarrow> (Err e, m1)
         | (Ok e_tag, m1) \<Rightarrow> (Ok (completed_parts @ [(part_number, e_tag)], part_number + 1), m1)))"

text \<open>
  The loop of \<open>upload_result\<close>. Its state is the buffer, whether the stream ended, the rest
  of the stream, the received bytes, the completed parts and the next part number.
\<close>

type_synonym 's loop_outcome =
  "((storage_error + (32 word \<times> string) list) \<times> body \<times> 's machine) option"

function upload_loop ::
  "'s s3_client \<Rightarrow> string \<Rightarrow> string \<Rightarrow> string \<Rightarrow> bytes \<Rightarrow> bool \<Rightarrow> body \<Rightarrow> nat
    \<Rightarrow> (32 word \<times> string) list \<Rightarrow> 32 word \<Rightarrow> 's machine \<Rightarrow> 's loop_outcome" where
  "upload_loop client bucket hash upload_id buffer eof data bytes_received completed_parts part_number m =
     (case upload_turn client bucket hash upload_id buffer completed_parts part_number m of
        (Err e, m1) \<Rightarrow> Some (Err e, data, m1)
      | (Ok (completed, next_number), m1) \<Rightarrow>
          if eof then Some (Ok completed, data, m1)
          else
            (case fill_part data MULTIPART_PART_SIZE hash bytes_received m1 of
               None \<Rightarrow> None
             | Some (Err e, rest, received, m2) \<Rightarrow> Some (Err e, rest, m2)
             | Some (Ok (next_buffer, next_eof), rest, received, m2) \<Rightarrow>
                 upload_loop client bucket hash upload_id next_buffer next_eof rest received
                   completed next_number m2))"
  by pat_completeness auto

lemma part_size_pos: "0 < MULTIPART_PART_SIZE"
  by (simp add: MULTIPART_PART_SIZE_def)

lemma fill_part_smaller:
  assumes "fill_part b MULTIPART_PART_SIZE h k m = Some (Ok (buf', eof'), rest, k', m')"
  shows "2 * size rest + (if eof' then 0 else 1) < 2 * size b + 1"
proof (cases eof')
  case True
  then show ?thesis using fill_loop_post assms by (force simp: fill_part_def)
next
  case False
  then have "size rest < size b"
    using assms part_size_pos fill_loop_progress by (fastforce simp: fill_part_def)
  then show ?thesis by simp
qed

termination upload_loop
  by (relation "measure (\<lambda>(c, b, h, u, buf, eof, data, k, cs, pn, m). 2 * size data + (if eof then 0 else 1))")
    (auto dest!: fill_part_smaller)

declare upload_loop.simps [simp del]

text \<open>\<open>AbortMultipartUpload\<close> after a failed loop; a failing abort is only logged.\<close>

definition abort_upload :: "'s s3_client \<Rightarrow> string \<Rightarrow> string \<Rightarrow> string \<Rightarrow> 's machine \<Rightarrow> 's machine" where
  "abort_upload client bucket hash upload_id m =
     (case send (AbortMultipartUpload bucket hash upload_id)
             (abort_multipart_upload client bucket hash upload_id) m of
        (Ok _, m1) \<Rightarrow> m1
      | (Err abort_err, m1) \<Rightarrow> log_s3_error ''multipart-abort'' hash abort_err m1)"

definition complete_upload ::
  "'s s3_client \<Rightarrow> string \<Rightarrow> string \<Rightarrow> string \<Rightarrow> (32 word \<times> string) list \<Rightarrow> 's machine
    \<Rightarrow> (storage_error + unit) \<times> 's machine" where
  "complete_upload client bucket hash upload_id parts m =
     (case send (CompleteMultipartUpload bucket hash upload_id parts)
             (complete_multipart_upload client bucket hash upload_id parts) m of
        (Ok _, m1) \<Rightarrow> (Ok (), m1)
      | (Err e, m1) \<Rightarrow> (Err OperationFailed, log_s3_error ''multipart-complete'' hash e m1))"

definition s3_store ::
  "'s s3_client \<Rightarrow> string \<Rightarrow> string \<Rightarrow> body \<Rightarrow> 's machine
    \<Rightarrow> ((storage_error + unit) \<times> body \<times> 's machine) option" where
  "s3_store client bucket hash data m =
     (case fill_part data MULTIPART_PART_SIZE hash 0 m of
        None \<Rightarrow> None
      | Some (Err e, rest, received, m1) \<Rightarrow> Some (Err e, rest, m1)
      | Some (Ok (buffer, eof), rest, received, m1) \<Rightarrow>
          if eof then
            (let (r, m2) = put_whole client bucket hash buffer m1 in Some (r, rest, m2))
          else
            (case send (CreateMultipartUpload bucket hash) (create_multipart_upload client bucket hash) m1 of
               (Err e, m2) \<Rightarrow>
                 Some (Err OperationFailed, rest, log_s3_error ''multipart-create'' hash e m2)
             | (Ok None, m2) \<Rightarrow> Some (Err OperationFailed, rest, emit (Missing_Upload_Id hash) m2)
             | (Ok (Some upload_id), m2) \<Rightarrow>
                 (case upload_loop client bucket hash upload_id buffer eof rest received [] 1 m2 of
                    None \<Rightarrow> None
                  | Some (Err err, rest2, m3) \<Rightarrow>
                      Some (Err err, rest2, abort_upload client bucket hash upload_id m3)
                  | Some (Ok completed_parts, rest2, m3) \<Rightarrow>
                      (let (r, m4) = complete_upload client bucket hash upload_id completed_parts m3
                       in Some (r, rest2, m4)))))"

text \<open>The implementation of the trait.\<close>

definition s3_storage :: "'s s3_client \<Rightarrow> string \<Rightarrow> 's storage_provider" where
  "s3_storage client bucket =
     \<lparr>exists = s3_exists client bucket, store = s3_store client bucket,
      retrieve = s3_retrieve client bucket\<rparr>"

end
