(* ===== verification/S3_Trace.thy ===== *)
theory S3_Trace
  imports S3_Storage
begin

text \<open>
  What the S3 storage does, for every SDK client: the requests it sends and their order, the
  bytes they carry, the memory it holds, what it logs, and that it meets the contract the
  server relies on (\<open>storage_contract\<close>).
\<close>

section \<open>An induction rule for the upload loop\<close>

lemma upload_loop_rule [consumes 1, case_names turn_fail finished fill_fail again]:
  assumes run: "upload_loop c b h u buf eof data k cs pn m = Some (r, rest, m')"
    and turn_fail: "\<And>buf eof data k cs pn m e m1.
      upload_turn c b h u buf cs pn m = (Err e, m1) \<Longrightarrow> P buf eof data k cs pn m (Err e) data m1"
    and finished: "\<And>buf data k cs pn m cs1 pn1 m1.
      upload_turn c b h u buf cs pn m = (Ok (cs1, pn1), m1) \<Longrightarrow> P buf True data k cs pn m (Ok cs1) data m1"
    and fill_fail: "\<And>buf data k cs pn m cs1 pn1 m1 e rest k2 m2.
      upload_turn c b h u buf cs pn m = (Ok (cs1, pn1), m1) \<Longrightarrow>
      fill_part data MULTIPART_PART_SIZE h k m1 = Some (Err e, rest, k2, m2) \<Longrightarrow>
      P buf False data k cs pn m (Err e) rest m2"
    and again: "\<And>buf data k cs pn m cs1 pn1 m1 buf2 eof2 rest2 k2 m2 r rest m'.
      upload_turn c b h u buf cs pn m = (Ok (cs1, pn1), m1) \<Longrightarrow>
      fill_part data MULTIPART_PART_SIZE h k m1 = Some (Ok (buf2, eof2), rest2, k2, m2) \<Longrightarrow>
      P buf2 eof2 rest2 k2 cs1 pn1 m2 r rest m' \<Longrightarrow>
      P buf False data k cs pn m r rest m'"
  shows "P buf eof data k cs pn m r rest m'"
  using run
proof (induction "2 * size data + (if eof then 0 else 1)" arbitrary: buf eof data k cs pn m
    rule: less_induct)
  case less
  obtain res m1 where turn: "upload_turn c b h u buf cs pn m = (res, m1)"
    by (cases "upload_turn c b h u buf cs pn m")
  note unroll = less.prems [unfolded upload_loop.simps [of c b h u buf eof data k cs pn m] turn]
  show ?case
  proof (cases res)
    case (Inl e)
    then show ?thesis using unroll turn turn_fail by auto
  next
    case (Inr st)
    obtain cs1 pn1 where st: "st = (cs1, pn1)" by (cases st)
    show ?thesis
    proof (cases eof)
      case True
      then show ?thesis using unroll turn finished Inr st by auto
    next
      case False
      then obtain f rest2 k2 m2 where
        fill: "fill_part data MULTIPART_PART_SIZE h k m1 = Some (f, rest2, k2, m2)"
        using unroll Inr st by (cases "fill_part data MULTIPART_PART_SIZE h k m1") auto
      show ?thesis
      proof (cases f)
        case (Inl e)
        then show ?thesis using unroll turn fill_fail Inr st False fill by auto
      next
        case f: (Inr p)
        obtain buf2 eof2 where p: "p = (buf2, eof2)" by (cases p)
        have "upload_loop c b h u buf2 eof2 rest2 k2 cs1 pn1 m2 = Some (r, rest, m')"
          using unroll Inr st False fill f p by simp
        moreover have "2 * size rest2 + (if eof2 then 0 else 1) < 2 * size data + 1"
          using fill f p by (intro fill_part_smaller) simp
        ultimately have "P buf2 eof2 rest2 k2 cs1 pn1 m2 r rest m'"
          using less.hyps False by simp
        then have "P buf False data k cs pn m r rest m'"
          by (rule again [rotated 2]) (use turn fill f p Inr st in simp_all)
        then show ?thesis using False by simp
      qed
    qed
  qed
qed

lemma upload_loop_returns:
  "terminates data \<Longrightarrow> \<exists>r rest m'. upload_loop c b h u buf eof data k cs pn m = Some (r, rest, m')"
proof (induction "2 * size data + (if eof then 0 else 1)" arbitrary: buf eof data k cs pn m
    rule: less_induct)
  case less
  obtain res m1 where turn: "upload_turn c b h u buf cs pn m = (res, m1)"
    by (cases "upload_turn c b h u buf cs pn m")
  obtain f rest k2 m2 where fill: "fill_part data MULTIPART_PART_SIZE h k m1 = Some (f, rest, k2, m2)"
    using fill_loop_returns [OF less.prems] unfolding fill_part_def by blast
  show ?case
  proof (cases "\<exists>st buf2 eof2. res = Ok st \<and> \<not> eof \<and> f = Ok (buf2, eof2)")
    case True
    then obtain cs1 pn1 buf2 eof2 where eqs: "res = Ok (cs1, pn1)" "\<not> eof" "f = Ok (buf2, eof2)"
      by fastforce
    have "terminates rest"
      using fill_loop_post less.prems fill unfolding fill_part_def by blast
    moreover have "2 * size rest + (if eof2 then 0 else 1) < 2 * size data + 1"
      using fill eqs by (intro fill_part_smaller) simp
    ultimately have "\<exists>r rest' m'. upload_loop c b h u buf2 eof2 rest k2 cs1 pn1 m2 = Some (r, rest', m')"
      using less.hyps eqs by simp
    then show ?thesis
      using eqs turn fill by (subst upload_loop.simps) simp
  next
    case False
    then show ?thesis using turn fill
      by (subst upload_loop.simps) (cases res; cases f; auto)
  qed
qed

section \<open>The requests of an upload\<close>

fun upload_requests :: "string \<Rightarrow> string \<Rightarrow> string \<Rightarrow> 32 word \<Rightarrow> bytes list \<Rightarrow> s3_request list" where
  "upload_requests b h u pn [] = []"
| "upload_requests b h u pn (p # ps) =
     UploadPart b h u pn (of_nat (length p)) p # upload_requests b h u (pn + 1) ps"

fun part_numbers :: "32 word \<Rightarrow> nat \<Rightarrow> 32 word list" where
  "part_numbers pn 0 = []"
| "part_numbers pn (Suc n) = pn # part_numbers (pn + 1) n"

lemma length_part_numbers [simp]: "length (part_numbers pn n) = n"
  by (induction n arbitrary: pn) simp_all

lemma upload_one_spec:
  "upload_one c b h u pn part m = (r, m') \<Longrightarrow>
     later m m' \<and> calls m' = calls m @ [UploadPart b h u pn (of_nat (length part)) part] \<and>
     (r = Err e \<longrightarrow> e = OperationFailed)"
  by (auto simp: upload_one_def log_s3_error_def send_calls split: prod.splits sum.splits option.splits
      intro: later_emitI dest: send_later send_calls)

lemma upload_turn_fail:
  assumes "upload_turn c b h u buf cs pn m = (Err e, m1)"
  shows "later m m1" "e = OperationFailed" "buf \<noteq> []" "calls m1 = calls m @ upload_requests b h u pn [buf]"
  using assms upload_one_spec [of c b h u pn buf m "Err e" m1 e]
  by (auto simp: upload_turn_def split: prod.splits sum.splits if_splits)

lemma upload_turn_ok:
  assumes "upload_turn c b h u buf cs pn m = (Ok (cs1, pn1), m1)"
  shows "later m m1"
    "calls m1 = calls m @ upload_requests b h u pn (if buf = [] then [] else [buf])"
    "pn1 = (if buf = [] then pn else pn + 1)"
    "\<exists>tag. cs1 = cs @ (if buf = [] then [] else [(pn, tag)])"
proof -
  show "later m m1" and "calls m1 = calls m @ upload_requests b h u pn (if buf = [] then [] else [buf])"
    and "pn1 = (if buf = [] then pn else pn + 1)"
    using assms
    by (auto simp: upload_turn_def split: prod.splits sum.splits if_splits dest: upload_one_spec)
  show "\<exists>tag. cs1 = cs @ (if buf = [] then [] else [(pn, tag)])"
    using assms by (auto simp: upload_turn_def split: prod.splits sum.splits if_splits)
qed

lemma fill_part_facts:
  assumes "fill_part data n h k m = Some (r, rest, k', m')"
  shows "fill_post n [] data k r rest k'" "max_chunk rest \<le> max_chunk data"
    "terminates data \<Longrightarrow> terminates rest" "later m m'" "calls m' = calls m"
  using fill_loop_post [of n h "[]" data k m r rest k' m'] assms by (auto simp: fill_part_def)

lemma fill_part_remainder:
  assumes "fill_part data n h k m = Some (r, rest, k', m')"
  shows "\<exists>taken. body_bytes data = taken @ body_bytes rest"
  using fill_part_facts(1) [OF assms]
  by (cases r) (auto simp: fill_post_def split: prod.splits intro: exI [of _ "body_bytes data"] sym)

subsection \<open>Frame\<close>

lemma upload_loop_frame:
  assumes "upload_loop c b h u buf eof data k cs pn m = Some (r, rest, m')"
  shows "later m m' \<and> (terminates data \<longrightarrow> terminates rest) \<and>
    (\<exists>taken. body_bytes data = taken @ body_bytes rest)"
  using assms
proof (induction rule: upload_loop_rule)
  case (turn_fail buf eof data k cs pn m e m1)
  then show ?case by (auto dest: upload_turn_fail(1))
next
  case (finished buf data k cs pn m cs1 pn1 m1)
  then show ?case by (auto dest: upload_turn_ok(1))
next
  case (fill_fail buf data k cs pn m cs1 pn1 m1 e rest k2 m2)
  have "later m m2"
    using upload_turn_ok(1) [OF fill_fail(1)] fill_part_facts(4) [OF fill_fail(2)] by (rule later_trans)
  then show ?case
    using fill_part_facts(3) [OF fill_fail(2)] fill_part_remainder [OF fill_fail(2)] by blast
next
  case (again buf data k cs pn m cs1 pn1 m1 buf2 eof2 rest2 k2 m2 r rest m')
  obtain t1 where "body_bytes data = t1 @ body_bytes rest2"
    using fill_part_remainder [OF again(2)] by blast
  moreover obtain t2 where "body_bytes rest2 = t2 @ body_bytes rest"
    using again(3) by blast
  ultimately have "body_bytes data = (t1 @ t2) @ body_bytes rest" by simp
  moreover have "later m m'"
    using upload_turn_ok(1) [OF again(1)] fill_part_facts(4) [OF again(2)] again(3)
    by (blast intro: later_trans)
  ultimately show ?case using again(3) fill_part_facts(3) [OF again(2)] by blast
qed

subsection \<open>Requests and bytes\<close>

text \<open>
  The parts a run of the loop uploads: none is empty, each is below the part size plus the
  largest chunk, all but the last reach the part size, and their bytes are those of the
  buffer and of the stream, in order: all of them when the loop succeeds.
\<close>

definition parts_ok :: "nat \<Rightarrow> bytes list \<Rightarrow> bool" where
  "parts_ok limit parts \<longleftrightarrow>
     (\<forall>p \<in> set parts. p \<noteq> [] \<and> length p < limit) \<and>
     (\<forall>p \<in> set (butlast parts). MULTIPART_PART_SIZE \<le> length p)"

lemma parts_ok_Nil [simp]: "parts_ok limit []"
  by (simp add: parts_ok_def)

lemma parts_ok_Cons:
  "parts_ok limit ps \<Longrightarrow> p \<noteq> [] \<Longrightarrow> length p < limit \<Longrightarrow> MULTIPART_PART_SIZE \<le> length p \<or> ps = []
    \<Longrightarrow> parts_ok limit (p # ps)"
  by (auto simp: parts_ok_def)

definition loop_ready :: "nat \<Rightarrow> bytes \<Rightarrow> bool \<Rightarrow> body \<Rightarrow> bool" where
  "loop_ready M buf eof data \<longleftrightarrow>
     length buf < MULTIPART_PART_SIZE + M \<and> max_chunk data \<le> M \<and>
     (if eof then data = Done else MULTIPART_PART_SIZE \<le> length buf)"

lemma fill_part_ready:
  assumes "fill_part data MULTIPART_PART_SIZE h k m = Some (Ok (buf, eof), rest, k', m')"
    and "max_chunk data \<le> M"
  shows "loop_ready M buf eof rest"
  using fill_part_facts(1,2) [OF assms(1)] assms(2) part_size_pos
  by (auto simp: loop_ready_def fill_post_def split: if_splits)

lemma upload_loop_trace:
  assumes "upload_loop c b h u buf eof data k cs pn m = Some (r, rest, m')"
    and "loop_ready M buf eof data"
  shows "\<exists>parts. calls m' = calls m @ upload_requests b h u pn parts \<and>
    parts_ok (MULTIPART_PART_SIZE + M) parts \<and>
    (case r of
       Ok out \<Rightarrow> rest = Done \<and> complete data \<and> concat parts = buf @ body_bytes data \<and>
         (\<exists>tags. length tags = length parts \<and> out = cs @ zip (part_numbers pn (length parts)) tags)
     | Err e \<Rightarrow> (e = ClientAbort \<or> e = OperationFailed))"
  using assms
proof (induction rule: upload_loop_rule)
  case (turn_fail buf eof data k cs pn m e m1)
  note t = upload_turn_fail [OF turn_fail(1)]
  have "parts_ok (MULTIPART_PART_SIZE + M) [buf]"
    using t(3) turn_fail(2) by (intro parts_ok_Cons) (auto simp: loop_ready_def)
  then show ?case using t by (intro exI [of _ "[buf]"]) simp
next
  case (finished buf data k cs pn m cs1 pn1 m1)
  note t = upload_turn_ok [OF finished(1)]
  obtain tag where tag: "cs1 = cs @ (if buf = [] then [] else [(pn, tag)])" using t(4) by blast
  show ?case
  proof (cases "buf = []")
    case True
    then show ?thesis using t(2) tag finished(2) by (auto simp: loop_ready_def intro!: exI [of _ "[]"])
  next
    case False
    have "parts_ok (MULTIPART_PART_SIZE + M) [buf]"
      using False finished(2) by (intro parts_ok_Cons) (auto simp: loop_ready_def)
    moreover have "cs1 = cs @ zip (part_numbers pn (length [buf])) [tag]"
      using tag False by simp
    ultimately show ?thesis using t(2) False finished(2)
      by (auto simp: loop_ready_def intro!: exI [of _ "[buf]"] exI [of _ "[tag]"])
  qed
next
  case (fill_fail buf data k cs pn m cs1 pn1 m1 e rest k2 m2)
  note t = upload_turn_ok [OF fill_fail(1)] and f = fill_part_facts [OF fill_fail(2)]
  have buf: "buf \<noteq> []" using fill_fail(3) part_size_pos by (auto simp: loop_ready_def)
  then have "parts_ok (MULTIPART_PART_SIZE + M) [buf]"
    using fill_fail(3) by (intro parts_ok_Cons) (auto simp: loop_ready_def)
  then show ?case using t(2) f(1,5) buf by (intro exI [of _ "[buf]"]) (simp add: fill_post_def)
next
  case (again buf data k cs pn m cs1 pn1 m1 buf2 eof2 rest2 k2 m2 r rest m')
  note t = upload_turn_ok [OF again(1)] and f = fill_part_facts [OF again(2)]
  have buf: "buf \<noteq> []" "MULTIPART_PART_SIZE \<le> length buf" "length buf < MULTIPART_PART_SIZE + M"
    using again(4) part_size_pos by (auto simp: loop_ready_def)
  obtain tag where tag: "cs1 = cs @ [(pn, tag)]" using t(4) buf(1) by auto
  have "loop_ready M buf2 eof2 rest2"
    using again(2,4) by (intro fill_part_ready) (auto simp: loop_ready_def)
  from again.IH [OF this] obtain parts where parts:
    "calls m' = calls m2 @ upload_requests b h u pn1 parts"
    "parts_ok (MULTIPART_PART_SIZE + M) parts"
    "case r of
       Ok out \<Rightarrow> rest = Done \<and> complete rest2 \<and> concat parts = buf2 @ body_bytes rest2 \<and>
         (\<exists>tags. length tags = length parts \<and> out = cs1 @ zip (part_numbers pn1 (length parts)) tags)
     | Err e \<Rightarrow> (e = ClientAbort \<or> e = OperationFailed)" by blast
  have 1: "calls m' = calls m @ upload_requests b h u pn (buf # parts)"
    using parts(1) f(5) t(2,3) buf(1) by simp
  have 2: "parts_ok (MULTIPART_PART_SIZE + M) (buf # parts)"
    using parts(2) buf by (intro parts_ok_Cons) auto
  show ?case
  proof (cases r)
    case (Inl e)
    then show ?thesis using 1 2 parts(3) by (intro exI [of _ "buf # parts"]) simp
  next
    case (Inr out)
    obtain tags where tags: "length tags = length parts"
      "out = cs1 @ zip (part_numbers pn1 (length parts)) tags"
      using parts(3) Inr by auto
    have "length (tag # tags) = length (buf # parts) \<and>
        out = cs @ zip (part_numbers pn (length (buf # parts))) (tag # tags)"
      using tags tag t(3) buf(1) by simp
    then have "\<exists>tags. length tags = length (buf # parts) \<and>
        out = cs @ zip (part_numbers pn (length (buf # parts))) tags" by blast
    then show ?thesis using 1 2 parts(3) Inr f(1)
      by (intro exI [of _ "buf # parts"]) (simp add: fill_post_def)
  qed
qed


section \<open>The contract of the trait\<close>

lemma s3_exists_later: "s3_exists c b h m = (r, m') \<Longrightarrow> later m m'"
  by (auto simp: s3_exists_def log_s3_error_def split: prod.splits sum.splits if_splits
      intro: later_emitI dest: send_later)

lemma s3_retrieve_later: "s3_retrieve c b h m = (r, m') \<Longrightarrow> later m m'"
  by (auto simp: s3_retrieve_def log_s3_error_def split: prod.splits sum.splits if_splits
      intro: later_emitI dest: send_later)

lemma put_whole_spec:
  "put_whole c b h buf m = (r, m') \<Longrightarrow>
     later m m' \<and> calls m' = calls m @ [PutObject b h buf] \<and> (r = Err e \<longrightarrow> e = OperationFailed)"
  by (auto simp: put_whole_def log_s3_error_def send_calls split: prod.splits sum.splits
      intro: later_emitI dest: send_later send_calls)

lemma abort_upload_spec:
  "later m (abort_upload c b h u m) \<and>
   calls (abort_upload c b h u m) = calls m @ [AbortMultipartUpload b h u]"
  by (auto simp: abort_upload_def log_s3_error_def split: prod.splits sum.splits
      intro: later_emitI dest: send_later send_calls)

lemma complete_upload_spec:
  "complete_upload c b h u parts m = (r, m') \<Longrightarrow>
     later m m' \<and> calls m' = calls m @ [CompleteMultipartUpload b h u parts] \<and>
     (r = Err e \<longrightarrow> e = OperationFailed)"
  by (auto simp: complete_upload_def log_s3_error_def send_calls split: prod.splits sum.splits
      intro: later_emitI dest: send_later send_calls)

text \<open>The ways a call of \<open>store\<close> can go, with the run that took each.\<close>

lemma s3_store_cases:
  assumes "s3_store c b h data m = Some (r, rest, m')"
  obtains
    (aborted) e k m1 where "r = Err e" "m' = m1"
      "fill_part data MULTIPART_PART_SIZE h 0 m = Some (Err e, rest, k, m1)"
  | (whole) buf k m1 where
      "fill_part data MULTIPART_PART_SIZE h 0 m = Some (Ok (buf, True), rest, k, m1)"
      "put_whole c b h buf m1 = (r, m')"
  | (no_create) buf k m1 m2 ev res where "r = Err OperationFailed"
      "fill_part data MULTIPART_PART_SIZE h 0 m = Some (Ok (buf, False), rest, k, m1)"
      "later m1 m2" "calls m2 = calls m1 @ [CreateMultipartUpload b h]"
      "level_of ev = ERROR" "m' = emit ev m2"
      "send (CreateMultipartUpload b h) (create_multipart_upload c b h) m1 = (res, m2)"
  | (failed) buf rest1 k m1 u m2 e m3 where "r = Err e"
      "fill_part data MULTIPART_PART_SIZE h 0 m = Some (Ok (buf, False), rest1, k, m1)"
      "send (CreateMultipartUpload b h) (create_multipart_upload c b h) m1 = (Ok (Some u), m2)"
      "upload_loop c b h u buf False rest1 k [] 1 m2 = Some (Err e, rest, m3)"
      "m' = abort_upload c b h u m3"
  | (uploaded) buf rest1 k m1 u m2 parts m3 where
      "fill_part data MULTIPART_PART_SIZE h 0 m = Some (Ok (buf, False), rest1, k, m1)"
      "send (CreateMultipartUpload b h) (create_multipart_upload c b h) m1 = (Ok (Some u), m2)"
      "upload_loop c b h u buf False rest1 k [] 1 m2 = Some (Ok parts, rest, m3)"
      "complete_upload c b h u parts m3 = (r, m')"
proof -
  obtain f rest1 k m1 where fill: "fill_part data MULTIPART_PART_SIZE h 0 m = Some (f, rest1, k, m1)"
    using assms by (auto simp: s3_store_def split: option.splits)
  show ?thesis
  proof (cases f)
    case (Inl e)
    then show ?thesis using aborted assms fill by (auto simp: s3_store_def)
  next
    case (Inr p)
    obtain buf eof where p: "p = (buf, eof)" by (cases p)
    show ?thesis
    proof (cases eof)
      case True
      then show ?thesis using whole assms fill Inr p
        by (auto simp: s3_store_def Let_def split: prod.splits)
    next
      case False
      obtain res m2 where
        create: "send (CreateMultipartUpload b h) (create_multipart_upload c b h) m1 = (res, m2)"
        by (cases "send (CreateMultipartUpload b h) (create_multipart_upload c b h) m1")
      note eq = assms fill Inr p False create
      note sent = send_later [OF create] send_calls [OF create]
      consider e where "res = Err e" | "res = Ok None" | u where "res = Ok (Some u)"
        by (cases res) auto
      then show ?thesis
      proof cases
        case 1
        then show ?thesis using no_create [of buf k m1 m2 "S3_Failed ''multipart-create'' h e"] eq sent
          by (auto simp: s3_store_def log_s3_error_def)
      next
        case 2
        then show ?thesis using no_create [of buf k m1 m2 "Missing_Upload_Id h"] eq sent by (auto simp: s3_store_def)
      next
        case (3 u)
        then obtain lr rest2 m3 where
          loop: "upload_loop c b h u buf False rest1 k [] 1 m2 = Some (lr, rest2, m3)"
          using eq by (auto simp: s3_store_def split: option.splits)
        show ?thesis using eq 3 loop
            failed [of _ buf rest1 k m1 u m2 m3] uploaded [of buf rest1 k m1 u m2 _ m3]
          by (cases lr) (auto simp: s3_store_def split: prod.splits)
      qed
    qed
  qed
qed


lemma s3_store_returns: "terminates data \<Longrightarrow> \<exists>r rest m'. s3_store c b h data m = Some (r, rest, m')"
proof -
  assume t: "terminates data"
  obtain f rest k m1 where fill: "fill_part data MULTIPART_PART_SIZE h 0 m = Some (f, rest, k, m1)"
    using fill_loop_returns [OF t] unfolding fill_part_def by blast
  then have rest: "terminates rest" using fill_part_facts(3) t by blast
  show ?thesis
  proof (cases "s3_store c b h data m")
    case None
    then obtain u buf m2 where "upload_loop c b h u buf False rest k [] 1 m2 = None"
      using fill by (auto simp: s3_store_def Let_def split: sum.splits prod.splits option.splits if_splits)
    then show ?thesis using upload_loop_returns [OF rest] by (metis option.distinct(1))
  next
    case (Some res)
    then show ?thesis by (cases res) auto
  qed
qed

lemma s3_store_later:
  assumes "s3_store c b h data m = Some (r, rest, m')"
  shows "later m m'"
  using assms
proof (cases rule: s3_store_cases)
  case (aborted e k m1)
  then show ?thesis using fill_part_facts(4) by blast
next
  case (whole buf k m1)
  then show ?thesis
    using fill_part_facts(4) [OF whole(1)] put_whole_spec [OF whole(2)] by (blast intro: later_trans)
next
  case (no_create buf k m1 m2 ev)
  have "later m m2" using fill_part_facts(4) [OF no_create(2)] no_create(3) by (rule later_trans)
  then show ?thesis using no_create(6) by (simp add: later_emitI)
next
  case (failed buf rest1 k m1 u m2 e m3)
  have "later m m2"
    using fill_part_facts(4) [OF failed(2)] send_later [OF failed(3)] by (rule later_trans)
  also have "later m2 m3" using upload_loop_frame [OF failed(4)] by blast
  also have "later m3 m'" using abort_upload_spec failed(5) by blast
  finally show ?thesis .
next
  case (uploaded buf rest1 k m1 u m2 parts m3)
  have "later m m2"
    using fill_part_facts(4) [OF uploaded(1)] send_later [OF uploaded(2)] by (rule later_trans)
  also have "later m2 m3" using upload_loop_frame [OF uploaded(3)] by blast
  also have "later m3 m'" using complete_upload_spec [OF uploaded(4)] by blast
  finally show ?thesis .
qed

lemma s3_store_rest:
  assumes "s3_store c b h data m = Some (r, rest, m')"
  shows "(terminates data \<longrightarrow> terminates rest) \<and> (\<exists>taken. body_bytes data = taken @ body_bytes rest)"
proof -
  have via: ?thesis
    if fill: "fill_part data MULTIPART_PART_SIZE h 0 m = Some (f, rest1, k, m1)"
      and rest1: "(terminates rest1 \<longrightarrow> terminates rest) \<and> (\<exists>taken. body_bytes rest1 = taken @ body_bytes rest)"
    for f rest1 k m1
  proof -
    obtain t1 t2 where "body_bytes data = t1 @ body_bytes rest1" "body_bytes rest1 = t2 @ body_bytes rest"
      using fill_part_remainder [OF fill] rest1 by blast
    then have "body_bytes data = (t1 @ t2) @ body_bytes rest" by simp
    then show ?thesis using fill_part_facts(3) [OF fill] rest1 by blast
  qed
  show ?thesis
    using assms
  proof (cases rule: s3_store_cases)
    case (failed buf rest1 k m1 u m2 e m3)
    show ?thesis by (rule via [OF failed(2)]) (use upload_loop_frame [OF failed(4)] in blast)
  next
    case (uploaded buf rest1 k m1 u m2 parts m3)
    show ?thesis by (rule via [OF uploaded(1)]) (use upload_loop_frame [OF uploaded(3)] in blast)
  qed (rule via; fastforce)+
qed

lemma fill_part_loop_ready:
  "fill_part data MULTIPART_PART_SIZE h k m = Some (Ok (buf, eof), rest, k', m') \<Longrightarrow>
     loop_ready (max_chunk data) buf eof rest"
  by (rule fill_part_ready [OF _ order_refl])

lemma s3_store_ok:
  assumes "s3_store c b h data m = Some (Ok (), rest, m')"
  shows "rest = Done \<and> complete data"
  using assms
proof (cases rule: s3_store_cases)
  case (whole buf k m1)
  then show ?thesis using fill_part_facts(1) [OF whole(1)] by (auto simp: fill_post_def)
next
  case (uploaded buf rest1 k m1 u m2 parts m3)
  then show ?thesis
    using upload_loop_trace [OF uploaded(3) fill_part_loop_ready [OF uploaded(1)]]
      fill_part_facts(1) [OF uploaded(1)]
    by (auto simp: fill_post_def)
qed simp_all

lemma upload_loop_abort:
  assumes "upload_loop c b h u buf eof data k cs pn m = Some (r, rest, m')" "r = Err ClientAbort"
  shows "rest = Done"
  using assms
proof (induction rule: upload_loop_rule)
  case (turn_fail buf eof data k cs pn m e m1)
  then show ?case using upload_turn_fail(2) by blast
next
  case (fill_fail buf data k cs pn m cs1 pn1 m1 e rest k2 m2)
  then show ?case using fill_part_facts(1) [OF fill_fail(2)] by (simp add: fill_post_def)
qed simp_all

lemma s3_store_abort:
  assumes "s3_store c b h data m = Some (Err ClientAbort, rest, m')"
  shows "rest = Done"
  using assms
proof (cases rule: s3_store_cases)
  case (aborted e k m1)
  then show ?thesis using fill_part_facts(1) [OF aborted(3)] by (simp add: fill_post_def)
next
  case (whole buf k m1)
  then show ?thesis using put_whole_spec [OF whole(2), of ClientAbort] by simp
next
  case (failed buf rest1 k m1 u m2 e m3)
  then show ?thesis using upload_loop_abort [OF failed(4)] by simp
next
  case (uploaded buf rest1 k m1 u m2 parts m3)
  then show ?thesis using complete_upload_spec [OF uploaded(4), of ClientAbort] by simp
qed simp_all

interpretation s3: storage_contract "s3_storage client bucket" for client :: "'s s3_client" and bucket
proof unfold_locales
  fix k m m' r r' s b rest
  show "exists (s3_storage client bucket) k m = (r, m') \<Longrightarrow> later m m'"
    by (simp add: s3_storage_def s3_exists_later)
  show "retrieve (s3_storage client bucket) k m = (r', m') \<Longrightarrow> later m m'"
    by (simp add: s3_storage_def s3_retrieve_later)
  show "store (s3_storage client bucket) k b m = Some (s, rest, m') \<Longrightarrow> later m m'"
    by (simp add: s3_storage_def s3_store_later)
  show "terminates b \<Longrightarrow> \<exists>s rest m'. store (s3_storage client bucket) k b m = Some (s, rest, m')"
    by (simp add: s3_storage_def s3_store_returns)
  show "store (s3_storage client bucket) k b m = Some (s, rest, m') \<Longrightarrow>
      \<exists>taken. body_bytes b = taken @ body_bytes rest"
    by (simp add: s3_storage_def s3_store_rest)
  show "store (s3_storage client bucket) k b m = Some (s, rest, m') \<Longrightarrow> terminates b \<Longrightarrow> terminates rest"
    using s3_store_rest [of client bucket k b m s rest m'] by (simp add: s3_storage_def)
  show "store (s3_storage client bucket) k b m = Some (Ok (), rest, m') \<Longrightarrow> rest = Done"
    using s3_store_ok [of client bucket k b m rest m'] by (simp add: s3_storage_def)
  show "store (s3_storage client bucket) k b m = Some (Err ClientAbort, rest, m') \<Longrightarrow> rest = Done"
    using s3_store_abort [of client bucket k b m rest m'] by (simp add: s3_storage_def)
qed

end
