(* ===== verification/S3_Facts.thy ===== *)
theory S3_Facts
  imports S3_Trace
begin

text \<open>
  The requests of a call of \<open>store\<close>, for every SDK client and every body: what a successful
  call has sent, what a failed one has, what each request carries, and what is logged.
\<close>

section \<open>Traces of \<open>store\<close>\<close>

text \<open>A successful call sent the body in one PutObject, or in one completed multipart upload.\<close>

definition uploaded_whole :: "string \<Rightarrow> string \<Rightarrow> bytes \<Rightarrow> s3_request list \<Rightarrow> bool" where
  "uploaded_whole b h bs reqs \<longleftrightarrow>
     length bs < MULTIPART_PART_SIZE \<and> reqs = [PutObject b h bs]"

definition multipart_requests ::
  "string \<Rightarrow> string \<Rightarrow> string \<Rightarrow> bytes list \<Rightarrow> s3_request \<Rightarrow> s3_request list" where
  "multipart_requests b h u parts final =
     CreateMultipartUpload b h # upload_requests b h u 1 parts @ [final]"

definition uploaded_in_parts :: "string \<Rightarrow> string \<Rightarrow> bytes \<Rightarrow> s3_request list \<Rightarrow> bool" where
  "uploaded_in_parts b h bs reqs \<longleftrightarrow>
     MULTIPART_PART_SIZE \<le> length bs \<and>
     (\<exists>u parts tags. concat parts = bs \<and> length tags = length parts \<and>
        (\<forall>p \<in> set parts. p \<noteq> []) \<and> (\<forall>p \<in> set (butlast parts). MULTIPART_PART_SIZE \<le> length p) \<and>
        reqs = multipart_requests b h u parts
          (CompleteMultipartUpload b h u (zip (part_numbers 1 (length parts)) tags)))"

text \<open>
  A failed call sent nothing, a refused PutObject, a refused CreateMultipartUpload, or an
  upload whose last request is the abort (the loop failed) or the refused completion.
\<close>

definition failed_requests :: "string \<Rightarrow> string \<Rightarrow> storage_error \<Rightarrow> s3_request list \<Rightarrow> bool" where
  "failed_requests b h e reqs \<longleftrightarrow>
     reqs = [] \<and> e = ClientAbort \<or>
     (\<exists>bs. reqs = [PutObject b h bs]) \<and> e = OperationFailed \<or>
     reqs = [CreateMultipartUpload b h] \<and> e = OperationFailed \<or>
     (\<exists>u parts. reqs = multipart_requests b h u parts (AbortMultipartUpload b h u)) \<and>
       (e = ClientAbort \<or> e = OperationFailed) \<or>
     (\<exists>u parts cs. reqs = multipart_requests b h u parts (CompleteMultipartUpload b h u cs)) \<and>
       e = OperationFailed"

fun request_payload :: "s3_request \<Rightarrow> nat" where
  "request_payload (PutObject b h bs) = length bs"
| "request_payload (UploadPart b h u n l bs) = length bs"
| "request_payload _ = 0"

lemma upload_requests_payload:
  "req \<in> set (upload_requests b h u pn parts) \<Longrightarrow> \<exists>p \<in> set parts. request_payload req = length p"
  by (induction parts arbitrary: pn) auto

lemma parts_ok_payload:
  "parts_ok n parts \<Longrightarrow> req \<in> set (upload_requests b h u pn parts) \<Longrightarrow> request_payload req < n"
  by (auto simp: parts_ok_def dest!: upload_requests_payload)

lemma parts_okD:
  "parts_ok n parts \<Longrightarrow> (\<forall>p \<in> set parts. p \<noteq> []) \<and> (\<forall>p \<in> set (butlast parts). MULTIPART_PART_SIZE \<le> length p)"
  by (auto simp: parts_ok_def)

definition payload_limit :: "body \<Rightarrow> nat" where
  "payload_limit data = MULTIPART_PART_SIZE + max_chunk data"

definition store_trace ::
  "string \<Rightarrow> string \<Rightarrow> body \<Rightarrow> storage_error + unit \<Rightarrow> s3_request list \<Rightarrow> bool" where
  "store_trace b h data r reqs \<longleftrightarrow>
     (\<forall>req \<in> set reqs. request_payload req < payload_limit data) \<and>
     (case r of
        Ok _ \<Rightarrow> uploaded_whole b h (body_bytes data) reqs \<or> uploaded_in_parts b h (body_bytes data) reqs
      | Err e \<Rightarrow> failed_requests b h e reqs)"

lemma s3_store_trace:
  assumes "s3_store c b h data m = Some (r, rest, m')"
  shows "\<exists>reqs. calls m' = calls m @ reqs \<and> store_trace b h data r reqs"
  using assms
proof (cases rule: s3_store_cases)
  case (aborted e k m1)
  have "e = ClientAbort" "calls m1 = calls m"
    using fill_part_facts(1,5) [OF aborted(3)] by (simp_all add: fill_post_def)
  then show ?thesis using aborted(1,2) by (simp add: store_trace_def failed_requests_def)
next
  case (whole buf k m1)
  note f = fill_part_facts(1,5) [OF whole(1)]
  have bs: "length buf < MULTIPART_PART_SIZE" "buf = body_bytes data" "calls m1 = calls m"
    using f by (auto simp: fill_post_def)
  have sent: "calls m' = calls m @ [PutObject b h buf]"
    using put_whole_spec [OF whole(2)] bs(3) by simp
  have "r = Err e \<Longrightarrow> e = OperationFailed" for e
    using put_whole_spec [OF whole(2), of e] by blast
  then show ?thesis using sent bs(1,2)
    by (cases r) (auto simp: store_trace_def failed_requests_def uploaded_whole_def payload_limit_def)
next
  case (no_create buf k m1 m2 ev)
  then show ?thesis using fill_part_facts(5) [OF no_create(2)]
    by (simp add: store_trace_def failed_requests_def payload_limit_def part_size_pos)
next
  case (failed buf rest1 k m1 u m2 e m3)
  have m2: "calls m2 = calls m @ [CreateMultipartUpload b h]"
    using fill_part_facts(5) [OF failed(2)] send_calls [OF failed(3)] by simp
  obtain parts where parts: "calls m3 = calls m2 @ upload_requests b h u 1 parts"
    "parts_ok (payload_limit data) parts" "e = ClientAbort \<or> e = OperationFailed"
    using upload_loop_trace [OF failed(4) fill_part_loop_ready [OF failed(2)]]
      fill_part_facts(2) [OF failed(2)]
    by (auto simp: payload_limit_def)
  have "calls m' = calls m @ multipart_requests b h u parts (AbortMultipartUpload b h u)"
    using m2 parts(1) abort_upload_spec [of m3 c b h u] failed(5) by (simp add: multipart_requests_def)
  moreover have "\<forall>req \<in> set (multipart_requests b h u parts (AbortMultipartUpload b h u)).
      request_payload req < payload_limit data"
    using parts_ok_payload [OF parts(2)] part_size_pos
    by (auto simp: multipart_requests_def payload_limit_def)
  ultimately show ?thesis using parts(3) failed(1)
    by (intro exI [of _ "multipart_requests b h u parts (AbortMultipartUpload b h u)"])
      (auto simp: store_trace_def failed_requests_def)
next
  case (uploaded buf rest1 k m1 u m2 cs m3)
  have m2: "calls m2 = calls m @ [CreateMultipartUpload b h]"
    using fill_part_facts(5) [OF uploaded(1)] send_calls [OF uploaded(2)] by simp
  obtain parts tags where parts: "calls m3 = calls m2 @ upload_requests b h u 1 parts"
    "parts_ok (payload_limit data) parts" "concat parts = buf @ body_bytes rest1"
    "length tags = length parts" "cs = zip (part_numbers 1 (length parts)) tags"
    using upload_loop_trace [OF uploaded(3) fill_part_loop_ready [OF uploaded(1)]]
    by (auto simp: payload_limit_def)
  have whole: "concat parts = body_bytes data" "MULTIPART_PART_SIZE \<le> length (body_bytes data)"
    using parts(3) fill_part_facts(1) [OF uploaded(1)] length_append [of buf "body_bytes rest1"]
    by (auto simp: fill_post_def)
  let ?reqs = "multipart_requests b h u parts (CompleteMultipartUpload b h u cs)"
  have sent: "calls m' = calls m @ ?reqs"
    using m2 parts(1) complete_upload_spec [OF uploaded(4)] by (simp add: multipart_requests_def)
  have "\<forall>req \<in> set ?reqs. request_payload req < payload_limit data"
    using parts_ok_payload [OF parts(2)] part_size_pos
    by (auto simp: multipart_requests_def payload_limit_def)
  moreover have "uploaded_in_parts b h (body_bytes data) ?reqs"
    using whole parts(4,5) parts_okD [OF parts(2)] unfolding uploaded_in_parts_def by blast
  moreover have "failed_requests b h e ?reqs" if "r = Err e" for e
    using complete_upload_spec [OF uploaded(4), of e] that unfolding failed_requests_def by blast
  ultimately have "store_trace b h data r ?reqs"
    by (cases r) (auto simp: store_trace_def)
  with sent show ?thesis by blast
qed

section \<open>What is logged\<close>

text \<open>Between two machines an event was logged that is an error, or the end of the client.\<close>

definition reports :: "storage_error \<Rightarrow> log_event \<Rightarrow> bool" where
  "reports e ev \<longleftrightarrow>
     (if e = ClientAbort then (\<exists>h n. ev = Client_Aborted h n) else level_of ev = ERROR)"

definition reported :: "storage_error \<Rightarrow> 's machine \<Rightarrow> 's machine \<Rightarrow> bool" where
  "reported e m m' \<longleftrightarrow> (\<exists>new. log m' = log m @ new \<and> (\<exists>ev \<in> set new. reports e ev))"

lemma reported_first: "reported e m m' \<Longrightarrow> later m0 m \<Longrightarrow> reported e m0 m'"
  by (auto simp: reported_def later_def prefix_def)

lemma reported_last: "reported e m m' \<Longrightarrow> later m' m'' \<Longrightarrow> reported e m m''"
  by (auto simp: reported_def later_def prefix_def)

lemma reported_same: "reported e m m' \<Longrightarrow> log m0 = log m \<Longrightarrow> reported e m0 m'"
  by (simp add: reported_def)

lemma reported_emit: "log m1 = log m \<Longrightarrow> reports e ev \<Longrightarrow> reported e m (emit ev m1)"
  by (simp add: reported_def)

lemma reports_error [simp]: "e \<noteq> ClientAbort \<Longrightarrow> reports e ev \<longleftrightarrow> level_of ev = ERROR"
  by (simp add: reports_def)

lemma reports_abort [simp]: "reports ClientAbort (Client_Aborted h n)"
  by (simp add: reports_def)

lemma fill_loop_log:
  "fill_loop n h buf b k m = Some (r, rest, k', m') \<Longrightarrow>
     (case r of Ok _ \<Rightarrow> log m' = log m | Err e \<Rightarrow> reported e m m')"
proof (induction b arbitrary: buf k m)
  case (Chunk d bs b)
  show ?case
  proof (cases "length buf < n")
    case True
    then have "fill_loop n h (buf @ bs) b (k + length bs) (elapse d m) = Some (r, rest, k', m')"
      using Chunk.prems by (simp add: fill_loop_step)
    from Chunk.IH [OF this] show ?thesis
      by (cases r) (auto intro: reported_first)
  next
    case False
    then show ?thesis using Chunk.prems by (auto simp: fill_loop_full)
  qed
next
  case (Broken d)
  have "reported ClientAbort m (emit (Client_Aborted h k) (elapse d m))" by (simp add: reported_emit)
  then show ?case using Broken by (cases "length buf < n") (auto simp: fill_loop_step fill_loop_full)
next
  case Done
  then show ?case by (cases "length buf < n") (auto simp: fill_loop_step fill_loop_full)
next
  case Stalled
  then show ?case by (cases "length buf < n") (auto simp: fill_loop_step fill_loop_full)
qed

lemma fill_part_log:
  "fill_part data n h k m = Some (r, rest, k', m') \<Longrightarrow>
     (case r of Ok _ \<Rightarrow> log m' = log m | Err e \<Rightarrow> reported e m m')"
  by (simp add: fill_part_def fill_loop_log)

lemma upload_turn_log:
  "upload_turn c b h u buf cs pn m = (r, m') \<Longrightarrow>
     (case r of Ok _ \<Rightarrow> log m' = log m | Err e \<Rightarrow> reported e m m')"
  by (auto simp: upload_turn_def upload_one_def log_s3_error_def
      split: prod.splits sum.splits option.splits if_splits intro!: reported_emit dest: send_log)

lemma upload_loop_log:
  assumes "upload_loop c b h u buf eof data k cs pn m = Some (r, rest, m')"
  shows "case r of Ok _ \<Rightarrow> log m' = log m | Err e \<Rightarrow> reported e m m'"
  using assms
proof (induction rule: upload_loop_rule)
  case (turn_fail buf eof data k cs pn m e m1)
  from upload_turn_log [OF turn_fail(1)] show ?case by simp
next
  case (finished buf data k cs pn m cs1 pn1 m1)
  from upload_turn_log [OF finished(1)] show ?case by simp
next
  case (fill_fail buf data k cs pn m cs1 pn1 m1 e rest k2 m2)
  have "reported e m1 m2" using fill_part_log [OF fill_fail(2)] by simp
  then show ?case using reported_first upload_turn_ok(1) [OF fill_fail(1)] by auto
next
  case (again buf data k cs pn m cs1 pn1 m1 buf2 eof2 rest2 k2 m2 r rest m')
  have "log m2 = log m" using upload_turn_log [OF again(1)] fill_part_log [OF again(2)] by simp
  then show ?case using again(3) by (cases r) (auto intro: reported_same)
qed

lemma put_whole_log:
  "put_whole c b h buf m = (r, m') \<Longrightarrow> (case r of Ok _ \<Rightarrow> log m' = log m | Err e \<Rightarrow> reported e m m')"
  by (auto simp: put_whole_def log_s3_error_def split: prod.splits sum.splits
      intro!: reported_emit dest: send_log)

lemma complete_upload_log:
  "complete_upload c b h u cs m = (r, m') \<Longrightarrow>
     (case r of Ok _ \<Rightarrow> log m' = log m | Err e \<Rightarrow> reported e m m')"
  by (auto simp: complete_upload_def log_s3_error_def split: prod.splits sum.splits
      intro!: reported_emit dest: send_log)

lemma s3_store_log:
  assumes "s3_store c b h data m = Some (r, rest, m')"
  shows "case r of Ok _ \<Rightarrow> log m' = log m | Err e \<Rightarrow> reported e m m'"
  using assms
proof (cases rule: s3_store_cases)
  case (aborted e k m1)
  then show ?thesis using fill_part_log [OF aborted(3)] by simp
next
  case (whole buf k m1)
  have "log m1 = log m" using fill_part_log [OF whole(1)] by simp
  then show ?thesis using put_whole_log [OF whole(2)] by (cases r) (auto intro: reported_same)
next
  case (no_create buf k m1 m2 ev)
  have "reported OperationFailed m2 m'" using no_create(5,6) by (simp add: reported_emit)
  moreover have "later m m2" using fill_part_facts(4) [OF no_create(2)] no_create(3) by (rule later_trans)
  ultimately show ?thesis using no_create(1) reported_first by auto
next
  case (failed buf rest1 k m1 u m2 e m3)
  have "reported e m2 m3" using upload_loop_log [OF failed(4)] by simp
  moreover have "later m m2"
    using fill_part_facts(4) [OF failed(2)] send_later [OF failed(3)] by (rule later_trans)
  ultimately have "reported e m m'"
    using reported_first reported_last abort_upload_spec failed(5) by blast
  then show ?thesis using failed(1) by simp
next
  case (uploaded buf rest1 k m1 u m2 cs m3)
  have "log m3 = log m"
    using fill_part_log [OF uploaded(1)] send_log [OF uploaded(2)] upload_loop_log [OF uploaded(3)] by simp
  then show ?thesis using complete_upload_log [OF uploaded(4)] by (cases r) (auto intro: reported_same)
qed

end
