(* ===== verification/S3_Service.thy ===== *)
theory S3_Service
  imports S3_Facts
begin

text \<open>
  The S3 storage over a service that behaves as documented: after a successful \<open>store\<close> the
  bucket holds exactly the bytes of the body, and \<open>retrieve\<close> reads them back. The service
  is seen through two functions of the backend's state, the objects of the bucket and its
  open multipart uploads; no other client writes the bucket in between.
\<close>

section \<open>The documented service\<close>

type_synonym bucket_objects = "string \<Rightarrow> bytes option"

type_synonym upload_parts = "32 word \<Rightarrow> (bytes \<times> string) option"

type_synonym bucket_uploads = "string \<Rightarrow> (string \<times> upload_parts) option"

definition put_documented :: "'s s3_client \<Rightarrow> string \<Rightarrow> ('s \<Rightarrow> bucket_objects) \<Rightarrow> bool" where
  "put_documented c b objs \<longleftrightarrow>
     (\<forall>h bs s d s'. put_object c b h bs s = (Ok (), d, s') \<longrightarrow> objs s' = (objs s)(h \<mapsto> bs))"

text \<open>
  Multipart: a new upload has no parts; a part is kept under its number, which is between 1
  and 10,000; completion checks the listed ETags and concatenates the listed parts.
\<close>

definition create_documented ::
  "'s s3_client \<Rightarrow> string \<Rightarrow> ('s \<Rightarrow> bucket_objects) \<Rightarrow> ('s \<Rightarrow> bucket_uploads) \<Rightarrow> bool" where
  "create_documented c b objs ups \<longleftrightarrow>
     (\<forall>h u s d s'. create_multipart_upload c b h s = (Ok (Some u), d, s') \<longrightarrow>
        objs s' = objs s \<and> ups s' u = Some (h, Map.empty))"

definition part_documented ::
  "'s s3_client \<Rightarrow> string \<Rightarrow> ('s \<Rightarrow> bucket_objects) \<Rightarrow> ('s \<Rightarrow> bucket_uploads) \<Rightarrow> bool" where
  "part_documented c b objs ups \<longleftrightarrow>
     (\<forall>h u n l bs s tag d s' ps. upload_part c b h u n l bs s = (Ok (Some tag), d, s') \<longrightarrow>
        ups s u = Some (h, ps) \<longrightarrow>
        1 \<le> unat n \<and> unat n \<le> 10000 \<and> objs s' = objs s \<and> ups s' u = Some (h, ps(n \<mapsto> (bs, tag))))"

definition listed_bytes :: "upload_parts \<Rightarrow> (32 word \<times> string) list \<Rightarrow> bytes" where
  "listed_bytes ps cs = concat (map (\<lambda>(n, t). fst (the (ps n))) cs)"

definition complete_documented ::
  "'s s3_client \<Rightarrow> string \<Rightarrow> ('s \<Rightarrow> bucket_objects) \<Rightarrow> ('s \<Rightarrow> bucket_uploads) \<Rightarrow> bool" where
  "complete_documented c b objs ups \<longleftrightarrow>
     (\<forall>h u cs s d s' ps. complete_multipart_upload c b h u cs s = (Ok (), d, s') \<longrightarrow>
        ups s u = Some (h, ps) \<longrightarrow>
        (\<forall>(n, t) \<in> set cs. \<exists>bs. ps n = Some (bs, t)) \<and> objs s' = (objs s)(h \<mapsto> listed_bytes ps cs))"

text \<open>Reading does not change the bucket; a stream that ends has delivered the object.\<close>

definition reads_documented :: "'s s3_client \<Rightarrow> string \<Rightarrow> ('s \<Rightarrow> bucket_objects) \<Rightarrow> bool" where
  "reads_documented c b objs \<longleftrightarrow>
     (\<forall>h s r d s'. get_object c b h s = (r, d, s') \<longrightarrow> objs s' = objs s \<and>
        (\<forall>stream. r = Ok stream \<longrightarrow>
          (\<exists>bs. objs s h = Some bs \<and> prefix (body_bytes stream) bs \<and>
             (complete stream \<longrightarrow> body_bytes stream = bs)))) \<and>
     (\<forall>h s r d s'. head_object c b h s = (r, d, s') \<longrightarrow> objs s' = objs s \<and>
        (r = Ok () \<longrightarrow> objs s h \<noteq> None) \<and>
        (\<forall>e. r = Err e \<longrightarrow> as_service_error e = Some Head_Not_Found \<longrightarrow> objs s h = None))"

definition s3_documented ::
  "'s s3_client \<Rightarrow> string \<Rightarrow> ('s \<Rightarrow> bucket_objects) \<Rightarrow> ('s \<Rightarrow> bucket_uploads) \<Rightarrow> bool" where
  "s3_documented c b objs ups \<longleftrightarrow>
     put_documented c b objs \<and> create_documented c b objs ups \<and> part_documented c b objs ups \<and>
     complete_documented c b objs ups \<and> reads_documented c b objs"

section \<open>Uploading to it\<close>

text \<open>
  The completed parts so far: they are recorded under their numbers, all below the next
  one, and hold the given bytes.
\<close>

definition recorded :: "upload_parts \<Rightarrow> (32 word \<times> string) list \<Rightarrow> 32 word \<Rightarrow> bytes \<Rightarrow> bool" where
  "recorded ps cs pn bs \<longleftrightarrow> (\<forall>(n, t) \<in> set cs. unat n < unat pn) \<and> listed_bytes ps cs = bs"

lemma recorded_empty: "recorded ps [] pn []"
  by (simp add: recorded_def listed_bytes_def)

lemma recorded_snoc:
  assumes "recorded ps cs pn bs" "unat pn \<le> 10000"
  shows "recorded (ps(pn \<mapsto> (p, tag))) (cs @ [(pn, tag)]) (pn + 1) (bs @ p)"
proof -
  have "unat (pn + 1) = unat pn + 1"
    using assms(2) by (simp add: unat_word_ariths)
  moreover have "listed_bytes (ps(pn \<mapsto> (p, tag))) cs = listed_bytes ps cs"
    unfolding listed_bytes_def
    by (intro arg_cong [where f = concat] map_cong) (use assms(1) in \<open>auto simp: recorded_def\<close>)
  moreover have "listed_bytes ps' (cs @ [(pn, tag)]) = listed_bytes ps' cs @ fst (the (ps' pn))" for ps'
    by (simp add: listed_bytes_def)
  ultimately show ?thesis
    using assms(1) by (auto simp: recorded_def)
qed

lemma send_backend: "send req call m = (r, m') \<Longrightarrow> \<exists>d. call (backend m) = (r, d, backend m')"
  by (auto simp: send_def split: prod.splits)

lemma fill_loop_backend:
  "fill_loop n h buf b k m = Some (r, rest, k', m') \<Longrightarrow> backend m' = backend m"
proof (induction b arbitrary: buf k m)
  case (Chunk d bs b)
  show ?case
  proof (cases "length buf < n")
    case True
    then show ?thesis using Chunk.IH [of "buf @ bs" "k + length bs" "elapse d m"] Chunk.prems
      by (simp add: fill_loop_step)
  next
    case False
    then show ?thesis using Chunk.prems by (simp add: fill_loop_full)
  qed
next
  case (Broken d)
  then show ?case by (cases "length buf < n") (auto simp: fill_loop_step fill_loop_full)
next
  case Done
  then show ?case by (cases "length buf < n") (auto simp: fill_loop_step fill_loop_full)
next
  case Stalled
  then show ?case by (cases "length buf < n") (auto simp: fill_loop_step fill_loop_full)
qed

lemma fill_part_backend: "fill_part b n h k m = Some (r, rest, k', m') \<Longrightarrow> backend m' = backend m"
  by (simp add: fill_part_def fill_loop_backend)

lemma upload_turn_sent:
  assumes "upload_turn c b h u buf cs pn m = (Ok (cs1, pn1), m1)" "buf \<noteq> []"
  obtains tag d where "cs1 = cs @ [(pn, tag)]" "pn1 = pn + 1"
    "upload_part c b h u pn (of_nat (length buf)) buf (backend m) = (Ok (Some tag), d, backend m1)"
proof -
  let ?send = "send (UploadPart b h u pn (of_nat (length buf)) buf)
    (upload_part c b h u pn (of_nat (length buf)) buf) m"
  obtain r m2 where s: "?send = (r, m2)" by (cases ?send)
  obtain d where "upload_part c b h u pn (of_nat (length buf)) buf (backend m) = (r, d, backend m2)"
    using send_backend [OF s] by blast
  then show ?thesis using assms s that
    by (auto simp: upload_turn_def upload_one_def split: sum.splits option.splits)
qed

lemma upload_turn_recorded:
  assumes "part_documented c b objs ups"
    and "upload_turn c b h u buf cs pn m = (Ok (cs1, pn1), m1)"
    and "ups (backend m) u = Some (h, ps)" "recorded ps cs pn bs"
  shows "\<exists>ps1. ups (backend m1) u = Some (h, ps1) \<and> recorded ps1 cs1 pn1 (bs @ buf) \<and>
    objs (backend m1) = objs (backend m)"
proof (cases "buf = []")
  case True
  then show ?thesis using assms(2-4) by (auto simp: upload_turn_def)
next
  case False
  obtain tag d where t: "cs1 = cs @ [(pn, tag)]" "pn1 = pn + 1"
    "upload_part c b h u pn (of_nat (length buf)) buf (backend m) = (Ok (Some tag), d, backend m1)"
    using assms(2) False by (rule upload_turn_sent)
  have doc: "unat pn \<le> 10000" "objs (backend m1) = objs (backend m)"
    "ups (backend m1) u = Some (h, ps(pn \<mapsto> (buf, tag)))"
    using assms(1) t(3) assms(3) unfolding part_documented_def by blast+
  then show ?thesis using recorded_snoc [OF assms(4) doc(1)] t(1,2) by blast
qed

lemma upload_loop_recorded:
  assumes "upload_loop c b h u buf eof data k cs pn m = Some (r, rest, m')"
    and doc: "part_documented c b objs ups"
    and "ups (backend m) u = Some (h, ps)" "recorded ps cs pn bs"
    and "r = Ok out" "loop_ready M buf eof data"
  shows "\<exists>ps1. ups (backend m') u = Some (h, ps1) \<and> listed_bytes ps1 out = bs @ buf @ body_bytes data \<and>
    objs (backend m') = objs (backend m)"
  using assms(1,3-)
proof (induction arbitrary: ps bs rule: upload_loop_rule)
  case (finished buf data k cs pn m cs1 pn1 m1)
  then show ?case
    using upload_turn_recorded [OF doc finished(1-3)]
    by (auto simp: recorded_def loop_ready_def)
next
  case (again buf data k cs pn m cs1 pn1 m1 buf2 eof2 rest2 k2 m2 r rest m')
  obtain ps1 where ps1: "ups (backend m1) u = Some (h, ps1)" "recorded ps1 cs1 pn1 (bs @ buf)"
    "objs (backend m1) = objs (backend m)"
    using upload_turn_recorded [OF doc again(1,4,5)] by blast
  have m2: "backend m2 = backend m1" using again(2) by (rule fill_part_backend)
  have "loop_ready M buf2 eof2 rest2"
    using again(2,7) by (intro fill_part_ready) (auto simp: loop_ready_def)
  then obtain ps2 where "ups (backend m') u = Some (h, ps2)"
    "listed_bytes ps2 out = (bs @ buf) @ buf2 @ body_bytes rest2"
    "objs (backend m') = objs (backend m2)"
    using again(3) [of ps1 "bs @ buf"] ps1(1,2) again(6) m2 by auto
  moreover have "buf2 @ body_bytes rest2 = body_bytes data"
    using fill_part_facts(1) [OF again(2)] by (simp add: fill_post_def)
  ultimately show ?case using ps1(3) m2 by simp
qed simp_all

lemma s3_store_objects:
  assumes doc: "s3_documented c b objs ups" and run: "s3_store c b h data m = Some (Ok (), rest, m')"
  shows "objs (backend m') = (objs (backend m))(h \<mapsto> body_bytes data)"
  using run
proof (cases rule: s3_store_cases)
  case (whole buf k m1)
  have buf: "buf = body_bytes data" and m1: "backend m1 = backend m"
    using fill_part_facts(1) [OF whole(1)] fill_part_backend [OF whole(1)] by (auto simp: fill_post_def)
  obtain d where "put_object c b h buf (backend m1) = (Ok (), d, backend m')"
    using whole(2) send_backend by (fastforce simp: put_whole_def split: prod.splits sum.splits)
  then show ?thesis using doc buf m1 unfolding s3_documented_def put_documented_def by metis
next
  case (uploaded buf rest1 k m1 u m2 cs m3)
  have doc': "create_documented c b objs ups" "part_documented c b objs ups" "complete_documented c b objs ups"
    using doc by (simp_all add: s3_documented_def)
  have m1: "backend m1 = backend m" by (rule fill_part_backend [OF uploaded(1)])
  have m2: "objs (backend m2) = objs (backend m)" "ups (backend m2) u = Some (h, Map.empty)"
    using doc'(1) send_backend [OF uploaded(2)] m1 unfolding create_documented_def by metis+
  obtain ps1 where ps1: "ups (backend m3) u = Some (h, ps1)"
    "listed_bytes ps1 cs = [] @ buf @ body_bytes rest1" "objs (backend m3) = objs (backend m2)"
    using upload_loop_recorded [OF uploaded(3) doc'(2) m2(2) recorded_empty refl
        fill_part_loop_ready [OF uploaded(1)]] by blast
  obtain d where "complete_multipart_upload c b h u cs (backend m3) = (Ok (), d, backend m')"
    using uploaded(4) send_backend by (fastforce simp: complete_upload_def split: prod.splits sum.splits)
  then have "objs (backend m') = (objs (backend m3))(h \<mapsto> listed_bytes ps1 cs)"
    using doc'(3) ps1(1) unfolding complete_documented_def by blast
  then show ?thesis
    using ps1(2,3) m2(1) fill_part_facts(1) [OF uploaded(1)] by (simp add: fill_post_def)
qed simp_all

lemma s3_exists_objects:
  assumes "s3_documented c b objs ups" "s3_exists c b h m = (r, m')"
  shows "objs (backend m') = objs (backend m) \<and> (r = Ok True \<longrightarrow> objs (backend m) h \<noteq> None) \<and>
    (r = Ok False \<longrightarrow> objs (backend m) h = None)"
proof -
  obtain hr m1 where s: "send (HeadObject b h) (head_object c b h) m = (hr, m1)"
    by (cases "send (HeadObject b h) (head_object c b h) m")
  obtain d where "head_object c b h (backend m) = (hr, d, backend m1)" using send_backend [OF s] by blast
  then have "objs (backend m1) = objs (backend m) \<and> (hr = Ok () \<longrightarrow> objs (backend m) h \<noteq> None) \<and>
    (\<forall>e. hr = Err e \<longrightarrow> as_service_error e = Some Head_Not_Found \<longrightarrow> objs (backend m) h = None)"
    using assms(1) unfolding s3_documented_def reads_documented_def by blast
  then show ?thesis using assms(2) s
    by (auto simp: s3_exists_def log_s3_error_def split: sum.splits if_splits)
qed

lemma s3_retrieve_objects:
  assumes "s3_documented c b objs ups" "s3_retrieve c b h m = (r, m')"
  shows "objs (backend m') = objs (backend m) \<and>
    (\<forall>stream. r = Ok stream \<longrightarrow>
       (\<exists>bs. objs (backend m) h = Some bs \<and> prefix (body_bytes stream) bs \<and>
          (complete stream \<longrightarrow> body_bytes stream = bs)))"
proof -
  obtain gr m1 where s: "send (GetObject b h) (get_object c b h) m = (gr, m1)"
    by (cases "send (GetObject b h) (get_object c b h) m")
  obtain d where "get_object c b h (backend m) = (gr, d, backend m1)" using send_backend [OF s] by blast
  then have "objs (backend m1) = objs (backend m) \<and>
    (\<forall>stream. gr = Ok stream \<longrightarrow>
       (\<exists>bs. objs (backend m) h = Some bs \<and> prefix (body_bytes stream) bs \<and>
          (complete stream \<longrightarrow> body_bytes stream = bs)))"
    using assms(1) unfolding s3_documented_def reads_documented_def by blast
  then show ?thesis using assms(2) s
    by (auto simp: s3_retrieve_def log_s3_error_def split: sum.splits if_splits)
qed

end
