(* ===== verification/S3_Properties.thy ===== *)
theory S3_Properties
  imports S3_Service
begin

text \<open>
  The properties of the S3 storage, with a small in-memory service on which they are
  evaluated.
\<close>

section \<open>A service in memory\<close>

record bucket =
  stored :: bucket_objects
  opened :: bucket_uploads
  next_upload :: nat

definition sdk_failure :: "service_error \<Rightarrow> nat \<Rightarrow> sdk_error" where
  "sdk_failure e code =
     \<lparr>as_service_error = Some e, raw_response_status = Some code, request_id = None,
      extended_request_id = None\<rparr>"

definition memory_upload_part ::
  "string \<Rightarrow> string \<Rightarrow> 32 word \<Rightarrow> bytes \<Rightarrow> (bucket, string option) sdk_call" where
  "memory_upload_part h u n bs s =
     (case opened s u of
        None \<Rightarrow> (Err (sdk_failure (Other_Service_Error ''NoSuchUpload'') 404), 0, s)
      | Some (k, ps) \<Rightarrow>
          if k = h \<and> 1 \<le> unat n \<and> unat n \<le> 10000 then
            (Ok (Some ''etag''), 0, s\<lparr>opened := (opened s)(u \<mapsto> (h, ps(n \<mapsto> (bs, ''etag''))))\<rparr>)
          else (Err (sdk_failure (Other_Service_Error ''InvalidPart'') 400), 0, s))"

definition memory_complete ::
  "string \<Rightarrow> string \<Rightarrow> (32 word \<times> string) list \<Rightarrow> (bucket, unit) sdk_call" where
  "memory_complete h u cs s =
     (case opened s u of
        None \<Rightarrow> (Err (sdk_failure (Other_Service_Error ''NoSuchUpload'') 404), 0, s)
      | Some (k, ps) \<Rightarrow>
          if k = h \<and> list_all (\<lambda>(n, t). map_option snd (ps n) = Some t) cs then
            (Ok (), 0, s\<lparr>stored := (stored s)(h \<mapsto> listed_bytes ps cs), opened := (opened s)(u := None)\<rparr>)
          else (Err (sdk_failure (Other_Service_Error ''InvalidPart'') 400), 0, s))"

definition memory_client :: "bucket s3_client" where
  "memory_client =
     \<lparr>head_object = (\<lambda>b h s.
        (if stored s h = None then Err (sdk_failure Head_Not_Found 404) else Ok (), 0, s)),
      put_object = (\<lambda>b h bs s. (Ok (), 0, s\<lparr>stored := (stored s)(h \<mapsto> bs)\<rparr>)),
      create_multipart_upload = (\<lambda>b h s.
        (let u = replicate (next_upload s) (CHR ''u'')
         in (Ok (Some u), 0, s\<lparr>opened := (opened s)(u \<mapsto> (h, Map.empty)), next_upload := Suc (next_upload s)\<rparr>))),
      upload_part = (\<lambda>b h u n l bs. memory_upload_part h u n bs),
      complete_multipart_upload = (\<lambda>b. memory_complete),
      abort_multipart_upload = (\<lambda>b h u s. (Ok (), 0, s\<lparr>opened := (opened s)(u := None)\<rparr>)),
      get_object = (\<lambda>b h s.
        (case stored s h of
           None \<Rightarrow> (Err (sdk_failure No_Such_Key 404), 0, s)
         | Some bs \<Rightarrow> (Ok (Chunk 0 bs Done), 0, s)))\<rparr>"

definition empty_bucket :: bucket where
  "empty_bucket = \<lparr>stored = Map.empty, opened = Map.empty, next_upload = 0\<rparr>"

definition started :: "'s \<Rightarrow> 's machine" where
  "started s = \<lparr>clock = 0, log = [], calls = [], backend = s\<rparr>"

lemma memory_documented: "s3_documented memory_client b stored opened"
  unfolding s3_documented_def
proof (intro conjI)
  show "put_documented memory_client b stored"
    by (simp add: put_documented_def memory_client_def)
  show "create_documented memory_client b stored opened"
    by (simp add: create_documented_def memory_client_def Let_def)
  show "part_documented memory_client b stored opened"
    by (simp add: part_documented_def memory_client_def memory_upload_part_def split: option.split)
  show "complete_documented memory_client b stored opened"
    by (auto simp: complete_documented_def memory_client_def memory_complete_def list_all_iff
        split: option.splits if_splits)
  show "reads_documented memory_client b stored"
    by (auto simp: reads_documented_def memory_client_def sdk_failure_def split: option.splits if_splits)
qed

text \<open>The same service with every PutObject refused.\<close>

definition refusing_client :: "bucket s3_client" where
  "refusing_client =
     memory_client\<lparr>put_object := (\<lambda>b h bs s. (Err (sdk_failure (Other_Service_Error ''SlowDown'') 503), 0, s))\<rparr>"

lemmas s3_eval [eval_model] = s3_store_def fill_part_def fill_loop.simps put_whole_def send_def MULTIPART_PART_SIZE_def
  memory_client_def refusing_client_def started_def empty_bucket_def log_s3_error_def emit_def elapse_def

section \<open>Properties\<close>

text \<open>C11: a successful \<open>store\<close> has written exactly the body. Over a service that behaves as
  documented, the bucket afterwards is the bucket before with the object set to the
  bytes of the request body, whatever their number and however they were chunked.\<close>

theorem s3_store_writes_body:
  assumes "s3_documented c b objs ups" "s3_store c b h data m = Some (Ok (), rest, m')"
  shows "objs (backend m') = (objs (backend m))(h \<mapsto> body_bytes data)"
  using assms by (rule s3_store_objects)

lemma memory_store:
  "s3_store memory_client ''b'' ''k'' (Chunk 3 [7, 8] Done) (started empty_bucket) =
     Some (Ok (), Done, \<lparr>clock = 3, log = [], calls = [PutObject ''b'' ''k'' [7, 8]],
       backend = empty_bucket\<lparr>stored := [''k'' \<mapsto> [7, 8]]\<rparr>\<rparr>)"
  by (simp add: s3_eval)

lemma s3_store_writes_body_witness:
  "stored (empty_bucket\<lparr>stored := [''k'' \<mapsto> [7, 8]]\<rparr>) = (stored empty_bucket)(''k'' \<mapsto> [7, 8])"
  using s3_store_writes_body [OF memory_documented memory_store] by (simp add: started_def)

text \<open>C13: the requests of a successful \<open>store\<close>, for every SDK client. The body was complete and
  has been read to its end; below 8 MiB it went out in one PutObject; otherwise in one
  multipart upload, created, filled with non-empty parts (all but the last of 8 MiB or
  more) whose concatenation is the body, and completed with their consecutive numbers from
  1 and their ETags in order.\<close>

theorem s3_store_success_requests:
  assumes "s3_store c b h data m = Some (Ok (), rest, m')"
  shows "complete data \<and> rest = Done \<and>
    (\<exists>reqs. calls m' = calls m @ reqs \<and>
      (uploaded_whole b h (body_bytes data) reqs \<or> uploaded_in_parts b h (body_bytes data) reqs))"
  using s3_store_ok [OF assms] s3_store_trace [OF assms] by (auto simp: store_trace_def)

lemma s3_store_success_requests_witness:
  "complete (Chunk 3 [7, 8] Done) \<and>
   (\<exists>reqs. [PutObject ''b'' ''k'' [7, 8]] = calls (started empty_bucket) @ reqs \<and>
     (uploaded_whole ''b'' ''k'' [7, 8] reqs \<or> uploaded_in_parts ''b'' ''k'' [7, 8] reqs))"
  using s3_store_success_requests [OF memory_store] by simp

text \<open>C14: no upload is left open by a failed \<open>store\<close>, except by a refused completion. A
  failed call has sent nothing (the client left), a refused PutObject or
  CreateMultipartUpload, or an upload that ends with AbortMultipartUpload or with the
  refused CompleteMultipartUpload.\<close>

theorem s3_store_failure_requests:
  assumes "s3_store c b h data m = Some (Err e, rest, m')"
  shows "\<exists>reqs. calls m' = calls m @ reqs \<and> failed_requests b h e reqs"
  using s3_store_trace [OF assms] by (auto simp: store_trace_def)

lemma refused_store:
  "s3_store refusing_client ''b'' ''k'' (Chunk 3 [7, 8] Done) (started empty_bucket) =
     Some (Err OperationFailed, Done,
       \<lparr>clock = 3, log = [S3_Failed ''put'' ''k'' (sdk_failure (Other_Service_Error ''SlowDown'') 503)],
        calls = [PutObject ''b'' ''k'' [7, 8]], backend = empty_bucket\<rparr>)"
  by (simp add: s3_eval)

lemma s3_store_failure_requests_witness:
  "\<exists>reqs. [PutObject ''b'' ''k'' [7, 8]] = calls (started empty_bucket) @ reqs \<and>
    failed_requests ''b'' ''k'' OperationFailed reqs"
  using s3_store_failure_requests [OF refused_store] by simp

text \<open>C40: a refused completion leaves its upload open. Once CompleteMultipartUpload has been
  sent, \<open>store\<close> sends no AbortMultipartUpload, although it reports a failure.\<close>

theorem s3_complete_failure_not_aborted:
  assumes "s3_store c b h data m = Some (Err e, rest, m')" "calls m' = calls m @ reqs"
    and "CompleteMultipartUpload b h u cs \<in> set reqs"
  shows "AbortMultipartUpload b h u \<notin> set reqs \<and> e = OperationFailed"
proof -
  have no: "AbortMultipartUpload b h u \<notin> set (upload_requests b h u' pn parts)"
    "CompleteMultipartUpload b h u cs \<notin> set (upload_requests b h u' pn parts)" for u' pn parts
    by (induction parts arbitrary: pn) auto
  obtain reqs' where "calls m' = calls m @ reqs'" "failed_requests b h e reqs'"
    using s3_store_trace [OF assms(1)] by (auto simp: store_trace_def)
  then have "failed_requests b h e reqs" using assms(2) by simp
  then show ?thesis using assms(3) no by (auto simp: failed_requests_def multipart_requests_def)
qed

text \<open>A body of one full part, over a service that refuses completions.\<close>

definition full_part :: bytes where
  "full_part = replicate MULTIPART_PART_SIZE 0"

lemma full_part_simps [simp]: "length full_part = MULTIPART_PART_SIZE" "full_part \<noteq> []"
  using part_size_pos by (simp_all add: full_part_def)

definition incompletable_client :: "bucket s3_client" where
  "incompletable_client =
     memory_client\<lparr>complete_multipart_upload :=
       (\<lambda>b h u cs s. (Err (sdk_failure (Other_Service_Error ''InternalError'') 500), 0, s))\<rparr>"

definition full_part_requests :: "s3_request list" where
  "full_part_requests =
     [CreateMultipartUpload ''b'' ''k'',
      UploadPart ''b'' ''k'' '''' 1 (of_nat MULTIPART_PART_SIZE) full_part,
      CompleteMultipartUpload ''b'' ''k'' '''' [(1, ''etag'')]]"

lemma incompletable_store:
  "\<exists>m'. s3_store incompletable_client ''b'' ''k'' (Chunk 3 full_part Done) (started empty_bucket) =
     Some (Err OperationFailed, Done, m') \<and> calls m' = calls (started empty_bucket) @ full_part_requests"
  by (simp add: s3_store_def fill_part_def fill_loop_step fill_loop_full part_size_pos upload_loop.simps
      upload_turn_def upload_one_def complete_upload_def send_def incompletable_client_def memory_client_def
      memory_upload_part_def started_def empty_bucket_def log_s3_error_def emit_def elapse_def Let_def
      full_part_requests_def)

lemma s3_complete_failure_not_aborted_witness:
  "AbortMultipartUpload ''b'' ''k'' '''' \<notin> set full_part_requests"
proof -
  obtain m' where run: "s3_store incompletable_client ''b'' ''k'' (Chunk 3 full_part Done) (started empty_bucket) =
      Some (Err OperationFailed, Done, m')"
    and sent: "calls m' = calls (started empty_bucket) @ full_part_requests"
    using incompletable_store by blast
  have "CompleteMultipartUpload ''b'' ''k'' '''' [(1, ''etag'')] \<in> set full_part_requests"
    by (simp add: full_part_requests_def)
  then show ?thesis using s3_complete_failure_not_aborted [OF run sent] by blast
qed

lemma upload_requests_uncommitted:
  "PutObject b h bs \<notin> set (upload_requests b' h' u pn parts)"
  "CompleteMultipartUpload b h u' cs \<notin> set (upload_requests b' h' u pn parts)"
  by (induction parts arbitrary: pn) auto

definition committing :: "s3_request \<Rightarrow> bool" where
  "committing req \<longleftrightarrow>
     (case req of PutObject _ _ _ \<Rightarrow> True | CompleteMultipartUpload _ _ _ _ \<Rightarrow> True | _ \<Rightarrow> False)"

lemma upload_requests_not_committing: "req \<in> set (upload_requests b h u pn parts) \<Longrightarrow> \<not> committing req"
  by (induction parts arbitrary: pn) (auto simp: committing_def)

text \<open>C12: a truncated body is never committed. If the body does not end properly (the client
  disconnects), \<open>store\<close> does not succeed, and sends no request that would create the
  object: neither PutObject nor CompleteMultipartUpload.\<close>

theorem s3_truncated_not_committed:
  assumes "s3_store c b h data m = Some (r, rest, m')" "\<not> complete data"
  shows "r \<noteq> Ok () \<and> (\<exists>reqs. calls m' = calls m @ reqs \<and> (\<forall>req \<in> set reqs. \<not> committing req))"
proof
  show "r \<noteq> Ok ()" using s3_store_ok assms by blast
  show "\<exists>reqs. calls m' = calls m @ reqs \<and> (\<forall>req \<in> set reqs. \<not> committing req)"
    using assms(1)
  proof (cases rule: s3_store_cases)
    case (aborted e k m1)
    then show ?thesis using fill_part_facts(5) [OF aborted(3)] by simp
  next
    case (whole buf k m1)
    then show ?thesis using fill_part_facts(1) [OF whole(1)] assms(2) by (auto simp: fill_post_def)
  next
    case (no_create buf k m1 m2 ev)
    then show ?thesis using fill_part_facts(5) [OF no_create(2)] by (simp add: committing_def)
  next
    case (failed buf rest1 k m1 u m2 e m3)
    obtain parts where "calls m3 = calls m2 @ upload_requests b h u 1 parts"
      using upload_loop_trace [OF failed(4) fill_part_loop_ready [OF failed(2)]] by blast
    then have "calls m' = calls m @ multipart_requests b h u parts (AbortMultipartUpload b h u)"
      using fill_part_facts(5) [OF failed(2)] send_calls [OF failed(3)] abort_upload_spec [of m3 c b h u]
        failed(5)
      by (simp add: multipart_requests_def)
    moreover have "\<forall>req \<in> set (multipart_requests b h u parts (AbortMultipartUpload b h u)). \<not> committing req"
      using upload_requests_not_committing by (auto simp: multipart_requests_def committing_def)
    ultimately show ?thesis by blast
  next
    case (uploaded buf rest1 k m1 u m2 parts m3)
    then show ?thesis
      using upload_loop_trace [OF uploaded(3) fill_part_loop_ready [OF uploaded(1)]]
        fill_part_facts(1) [OF uploaded(1)] assms(2)
      by (simp add: fill_post_def)
  qed
qed

lemma aborted_store:
  "s3_store memory_client ''b'' ''k'' (Chunk 3 [7, 8] (Broken 1)) (started empty_bucket) =
     Some (Err ClientAbort, Done,
       \<lparr>clock = 4, log = [Client_Aborted ''k'' 2], calls = [], backend = empty_bucket\<rparr>)"
  by (simp add: s3_eval)

lemma s3_truncated_not_committed_witness:
  "Err ClientAbort \<noteq> (Ok () :: storage_error + unit) \<and> \<not> complete (Chunk 3 [7, 8] (Broken 1))"
  using s3_truncated_not_committed [OF aborted_store] by simp

text \<open>C32: memory. Whatever the size of the body and whatever the service answers, no request
  carries more than one part: less than 8 MiB plus the largest chunk the stream delivers.\<close>

theorem s3_store_memory:
  assumes "s3_store c b h data m = Some (r, rest, m')"
  shows "\<exists>reqs. calls m' = calls m @ reqs \<and>
    (\<forall>req \<in> set reqs. request_payload req < 8 * 1024 * 1024 + max_chunk data)"
  using s3_store_trace [OF assms]
  by (auto simp: store_trace_def payload_limit_def MULTIPART_PART_SIZE_def)

lemma s3_store_memory_witness:
  "\<exists>reqs. [PutObject ''b'' ''k'' [7, 8]] = calls (started empty_bucket) @ reqs \<and>
    list_all (\<lambda>req. request_payload req < 8 * 1024 * 1024 + 2) reqs"
  using s3_store_memory [OF memory_store] by (simp add: list_all_iff)

text \<open>C33: the storage logs its failures, and nothing else. A failed \<open>store\<close> has logged an error,
  or, when the client left, the abort; a failed \<open>exists\<close> has logged an error; a \<open>retrieve\<close> that
  S3 answers with \<open>NoSuchKey\<close> returns \<open>NotFound\<close>, which is a miss and not logged, and every other
  failed \<open>retrieve\<close> has logged an error. A success logs nothing.\<close>

theorem s3_failures_logged:
  "(\<forall>e rest m'. s3_store c b h data m = Some (Err e, rest, m') \<longrightarrow> reported e m m') \<and>
   (\<forall>rest m'. s3_store c b h data m = Some (Ok (), rest, m') \<longrightarrow> log m' = log m) \<and>
   (\<forall>e m'. s3_exists c b h m = (Err e, m') \<longrightarrow> e = OperationFailed \<and> reported e m m') \<and>
   (\<forall>v m'. s3_exists c b h m = (Ok v, m') \<longrightarrow> log m' = log m) \<and>
   (\<forall>e m'. s3_retrieve c b h m = (Err e, m') \<longrightarrow>
      (if \<exists>err m1. send (GetObject b h) (get_object c b h) m = (Err err, m1) \<and> as_service_error err = Some No_Such_Key
       then e = NotFound \<and> log m' = log m else e = OperationFailed \<and> reported e m m')) \<and>
   (\<forall>stream m'. s3_retrieve c b h m = (Ok stream, m') \<longrightarrow> log m' = log m)"
proof (intro conjI allI impI)
  show "reported e m m'" if "s3_store c b h data m = Some (Err e, rest, m')" for e rest m'
    using s3_store_log [OF that] by simp
  show "log m' = log m" if "s3_store c b h data m = Some (Ok (), rest, m')" for rest m'
    using s3_store_log [OF that] by simp
  show "e = OperationFailed" "reported e m m'" if "s3_exists c b h m = (Err e, m')" for e m'
    using that by (auto simp: s3_exists_def log_s3_error_def split: prod.splits sum.splits if_splits
        intro!: reported_emit dest: send_log)
  show "log m' = log m" if "s3_exists c b h m = (Ok v, m')" for v m'
    using that by (auto simp: s3_exists_def split: prod.splits sum.splits if_splits dest: send_log)
  show "if \<exists>err m1. send (GetObject b h) (get_object c b h) m = (Err err, m1) \<and> as_service_error err = Some No_Such_Key
      then e = NotFound \<and> log m' = log m else e = OperationFailed \<and> reported e m m'"
    if "s3_retrieve c b h m = (Err e, m')" for e m'
    using that by (auto simp: s3_retrieve_def log_s3_error_def split: prod.splits sum.splits if_splits
        intro!: reported_emit dest: send_log)
  show "log m' = log m" if "s3_retrieve c b h m = (Ok stream, m')" for stream m'
    using that by (auto simp: s3_retrieve_def split: prod.splits sum.splits if_splits dest: send_log)
qed

lemma s3_failures_logged_witness:
  "reported OperationFailed (started empty_bucket)
     \<lparr>clock = 3, log = [S3_Failed ''put'' ''k'' (sdk_failure (Other_Service_Error ''SlowDown'') 503)],
      calls = [PutObject ''b'' ''k'' [7, 8]], backend = empty_bucket\<rparr>"
  using s3_failures_logged [of refusing_client "''b''" "''k''" "Chunk 3 [7, 8] Done" "started empty_bucket"]
    refused_store
  by blast

text \<open>\<open>fill_part\<close> is exact. When it returns, the bytes in the buffer followed by the unread
  rest of the stream are the bytes of the stream, and the count of received bytes grew
  by the length of the buffer; it reports the end of the stream only at its end and with a
  buffer below the part size, and otherwise stops at or above the part size, by less than
  a chunk.\<close>

lemma fill_part_exact:
  assumes "0 < n" "fill_part data n h k m = Some (Ok (buf, eof), rest, k', m')"
  shows "buf @ body_bytes rest = body_bytes data \<and> k' = k + length buf \<and>
    (if eof then length buf < n \<and> rest = Done else n \<le> length buf \<and> length buf < n + max_chunk data)"
  using fill_part_facts(1) [OF assms(2)] assms(1) by (auto simp: fill_post_def)

lemma fill_part_exact_witness:
  "[7, 8, 9] @ body_bytes (Chunk 1 [5] Done) = body_bytes (Chunk 0 [7] (Chunk 2 [8, 9] (Chunk 1 [5] Done)))"
proof -
  have "fill_part (Chunk 0 [7] (Chunk 2 [8, 9] (Chunk 1 [5] Done))) 2 ''k'' 0 (started empty_bucket) =
      Some (Ok ([7, 8, 9], False), Chunk 1 [5] Done, 3, elapse 2 (elapse 0 (started empty_bucket)))"
    by (simp add: fill_part_def fill_loop.simps)
  from fill_part_exact [OF _ this] show ?thesis by simp
qed

text \<open>\<open>store\<close> terminates. On every body that ends or breaks, it returns, and leaves a
  remainder of the body that ends or breaks too.\<close>

lemma s3_store_terminates:
  assumes "terminates data"
  shows "\<exists>r rest m'. s3_store c b h data m = Some (r, rest, m') \<and> terminates rest \<and>
    (\<exists>taken. body_bytes data = taken @ body_bytes rest)"
  using s3_store_returns [OF assms, of c b h m] s3_store_rest assms by blast

lemma s3_store_terminates_witness:
  "\<exists>r rest m'. s3_store memory_client ''b'' ''k'' (Chunk 3 [7, 8] (Broken 1)) (started empty_bucket) = Some (r, rest, m') \<and>
    terminates rest \<and> (\<exists>taken. body_bytes (Chunk 3 [7, 8] (Broken 1)) = taken @ body_bytes rest)"
  by (rule s3_store_terminates) simp

end
