(* ===== verification/Object_Store.thy ===== *)
theory Object_Store
  imports S3_Properties Server_Run
begin

text \<open>
  What a storage promises about the objects behind it, as an interface: the locale
  \<open>object_store\<close> extends the contract of the trait with the objects an operation reads and
  writes, successful or not. S3 gives it when the service behaves as documented
  (\<open>s3_documented\<close>), also in requests that fail (\<open>s3_failures_documented\<close>).
\<close>

section \<open>The interface\<close>

locale object_store = storage_contract provider for provider :: "'s storage_provider" +
  fixes objects :: "'s \<Rightarrow> bucket_objects"
  assumes exists_objects: "exists provider k m = (r, m') \<Longrightarrow>
      objects (backend m') = objects (backend m) \<and> (r = Ok True \<longrightarrow> objects (backend m) k \<noteq> None) \<and>
      (r = Ok False \<longrightarrow> objects (backend m) k = None)"
    and retrieve_objects: "retrieve provider k m = (r', m') \<Longrightarrow>
      objects (backend m') = objects (backend m) \<and>
      (\<forall>stream. r' = Ok stream \<longrightarrow>
        (\<exists>bs. objects (backend m) k = Some bs \<and> prefix (body_bytes stream) bs \<and>
           (complete stream \<longrightarrow> body_bytes stream = bs)))"
    and store_objects: "store provider k b m = Some (Ok (), rest, m') \<Longrightarrow>
      objects (backend m') = (objects (backend m))(k \<mapsto> body_bytes b)"
    and store_failed_objects: "store provider k b m = Some (Err e, rest, m') \<Longrightarrow>
      objects (backend m') = objects (backend m) \<or>
      objects (backend m') = (objects (backend m))(k \<mapsto> body_bytes b)"
begin

lemma store_writes:
  assumes "store provider k b m = Some (r, rest, m')"
  shows "objects (backend m') = objects (backend m) \<and> r \<noteq> Ok () \<or>
    objects (backend m') = (objects (backend m))(k \<mapsto> body_bytes b)"
  using assms store_objects store_failed_objects by (cases r) auto

lemma store_keeps:
  assumes "store provider k b m = Some (r, rest, m')" "objects (backend m) k' \<noteq> None"
  shows "objects (backend m') k' \<noteq> None"
  using store_writes [OF assms(1)] assms(2) by auto

lemma self_probe_objects: "objects (backend (self_probe_once provider (m :: 's machine))) = objects (backend m)"
proof -
  obtain r m1 where "exists provider PROBE_KEY m = (r, m1)" by fastforce
  then show ?thesis using exists_objects by (fastforce simp: self_probe_once_def Let_def)
qed

end

text \<open>
  A storage that also reports: a failed check, and a failed read of an object that is there,
  leave an event in the log that names the key.
\<close>

locale reporting_store = object_store provider objects
  for provider :: "'s storage_provider" and objects +
  fixes failure :: "string \<Rightarrow> log_event \<Rightarrow> bool"
  assumes exists_failed: "exists provider k m = (Err e, m') \<Longrightarrow>
      \<exists>ev. log m' = log m @ [ev] \<and> failure k ev"
    and retrieve_failed: "retrieve provider k m = (Err e, m') \<Longrightarrow> objects (backend m) k \<noteq> None \<Longrightarrow>
      \<exists>ev. log m' = log m @ [ev] \<and> failure k ev"

section \<open>Failing requests\<close>

text \<open>
  A request that fails has had its effect or none: a failed PutObject wrote the object or
  nothing, a failed CompleteMultipartUpload committed the listed parts or nothing; and the
  requests of an upload other than its completion never change an object. \<open>NoSuchKey\<close> is
  answered only when the object is not there.
\<close>

definition s3_failures_documented ::
  "'s s3_client \<Rightarrow> string \<Rightarrow> ('s \<Rightarrow> bucket_objects) \<Rightarrow> ('s \<Rightarrow> bucket_uploads) \<Rightarrow> bool" where
  "s3_failures_documented c b objs ups \<longleftrightarrow>
     (\<forall>h bs s e d s'. put_object c b h bs s = (Err e, d, s') \<longrightarrow>
        objs s' = objs s \<or> objs s' = (objs s)(h \<mapsto> bs)) \<and>
     (\<forall>h s r d s'. create_multipart_upload c b h s = (r, d, s') \<longrightarrow> objs s' = objs s) \<and>
     (\<forall>h u n l bs s r d s'. upload_part c b h u n l bs s = (r, d, s') \<longrightarrow> objs s' = objs s) \<and>
     (\<forall>h u s r d s'. abort_multipart_upload c b h u s = (r, d, s') \<longrightarrow> objs s' = objs s) \<and>
     (\<forall>h u cs s e d s' ps. complete_multipart_upload c b h u cs s = (Err e, d, s') \<longrightarrow>
        ups s u = Some (h, ps) \<longrightarrow> objs s' = objs s \<or> objs s' = (objs s)(h \<mapsto> listed_bytes ps cs)) \<and>
     (\<forall>h s e d s'. get_object c b h s = (Err e, d, s') \<longrightarrow>
        as_service_error e = Some No_Such_Key \<longrightarrow> objs s h = None)"

lemma s3_failures_documentedD:
  assumes "s3_failures_documented c b objs ups"
  shows "put_object c b h bs s = (Err e, d, s') \<Longrightarrow> objs s' = objs s \<or> objs s' = (objs s)(h \<mapsto> bs)"
    and "create_multipart_upload c b h s = (rc, d, s') \<Longrightarrow> objs s' = objs s"
    and "upload_part c b h u n l bs s = (rc, d, s') \<Longrightarrow> objs s' = objs s"
    and "abort_multipart_upload c b h u s = (ra, d, s') \<Longrightarrow> objs s' = objs s"
    and "complete_multipart_upload c b h u cs s = (Err e, d, s') \<Longrightarrow> ups s u = Some (h, ps) \<Longrightarrow>
      objs s' = objs s \<or> objs s' = (objs s)(h \<mapsto> listed_bytes ps cs)"
    and "get_object c b h s = (Err e, d, s') \<Longrightarrow> as_service_error e = Some No_Such_Key \<Longrightarrow> objs s h = None"
proof -
  note doc = assms [unfolded s3_failures_documented_def]
  note doc2 = doc [THEN conjunct2] and doc3 = doc [THEN conjunct2, THEN conjunct2]
  note doc4 = doc3 [THEN conjunct2]
  note doc5 = doc4 [THEN conjunct2]
  show "put_object c b h bs s = (Err e, d, s') \<Longrightarrow> objs s' = objs s \<or> objs s' = (objs s)(h \<mapsto> bs)"
    using doc [THEN conjunct1] by metis
  show "create_multipart_upload c b h s = (rc, d, s') \<Longrightarrow> objs s' = objs s"
    using doc2 [THEN conjunct1] by metis
  show "upload_part c b h u n l bs s = (rc, d, s') \<Longrightarrow> objs s' = objs s"
    using doc3 [THEN conjunct1] by metis
  show "abort_multipart_upload c b h u s = (ra, d, s') \<Longrightarrow> objs s' = objs s"
    using doc4 [THEN conjunct1] by metis
  show "complete_multipart_upload c b h u cs s = (Err e, d, s') \<Longrightarrow> ups s u = Some (h, ps) \<Longrightarrow>
      objs s' = objs s \<or> objs s' = (objs s)(h \<mapsto> listed_bytes ps cs)"
    using doc5 [THEN conjunct1] by metis
  show "get_object c b h s = (Err e, d, s') \<Longrightarrow> as_service_error e = Some No_Such_Key \<Longrightarrow> objs s h = None"
    using doc5 [THEN conjunct2] by metis
qed

lemma upload_turn_objects:
  assumes "s3_failures_documented c b objs ups" "upload_turn c b h u buf cs pn m = (r, m')"
  shows "objs (backend m') = objs (backend m)"
proof (cases "buf = []")
  case False
  obtain ur m1 where s: "send (UploadPart b h u pn (of_nat (length buf)) buf)
      (upload_part c b h u pn (of_nat (length buf)) buf) m = (ur, m1)"
    by (cases "send (UploadPart b h u pn (of_nat (length buf)) buf)
      (upload_part c b h u pn (of_nat (length buf)) buf) m")
  have "objs (backend m1) = objs (backend m)"
    using send_backend [OF s] s3_failures_documentedD(3) [OF assms(1)] by blast
  moreover have "backend m' = backend m1"
    using assms(2) s False
    by (auto simp: upload_turn_def upload_one_def log_s3_error_def split: sum.splits option.splits)
  ultimately show ?thesis by simp
qed (use assms(2) in \<open>simp add: upload_turn_def\<close>)

lemma upload_loop_objects:
  assumes "upload_loop c b h u buf eof data k cs pn m = Some (r, rest, m')"
    and "s3_failures_documented c b objs ups"
  shows "objs (backend m') = objs (backend m)"
  using assms(1)
proof (induction rule: upload_loop_rule)
  case (turn_fail buf eof data k cs pn m e m1)
  then show ?case using upload_turn_objects [OF assms(2)] by blast
next
  case (finished buf data k cs pn m cs1 pn1 m1)
  then show ?case using upload_turn_objects [OF assms(2)] by blast
next
  case (fill_fail buf data k cs pn m cs1 pn1 m1 e rest k2 m2)
  then show ?case using upload_turn_objects [OF assms(2)] fill_part_backend by metis
next
  case (again buf data k cs pn m cs1 pn1 m1 buf2 eof2 rest2 k2 m2 r rest m')
  then show ?case using upload_turn_objects [OF assms(2)] fill_part_backend by metis
qed

lemma s3_store_failed_objects:
  assumes doc: "s3_documented c b objs ups" "s3_failures_documented c b objs ups"
    and run: "s3_store c b h data m = Some (Err e, rest, m')"
  shows "objs (backend m') = objs (backend m) \<or> objs (backend m') = (objs (backend m))(h \<mapsto> body_bytes data)"
  using run
proof (cases rule: s3_store_cases)
  case (aborted e k m1)
  then show ?thesis using fill_part_backend by metis
next
  case (whole buf k m1)
  have buf: "buf = body_bytes data" and m1: "backend m1 = backend m"
    using fill_part_facts(1) [OF whole(1)] fill_part_backend [OF whole(1)] by (auto simp: fill_post_def)
  obtain err d s' where "put_object c b h buf (backend m1) = (Err err, d, s')" "s' = backend m'"
    using whole(2) send_backend
    by (fastforce simp: put_whole_def log_s3_error_def split: prod.splits sum.splits)
  then show ?thesis using s3_failures_documentedD(1) [OF doc(2)] buf m1 by metis
next
  case (no_create buf k m1 m2 ev res)
  then show ?thesis
    using fill_part_backend [OF no_create(2)] send_backend [OF no_create(7)] s3_failures_documentedD(2) [OF doc(2)]
    by (metis emit_simps(4))
next
  case (failed buf rest1 k m1 u m2 e m3)
  have "objs (backend m3) = objs (backend m)"
    using fill_part_backend [OF failed(2)] send_backend [OF failed(3)] s3_failures_documentedD(2) [OF doc(2)]
      upload_loop_objects [OF failed(4) doc(2)] by metis
  moreover obtain ra m4 where s: "send (AbortMultipartUpload b h u) (abort_multipart_upload c b h u) m3 = (ra, m4)"
    by (cases "send (AbortMultipartUpload b h u) (abort_multipart_upload c b h u) m3")
  have "backend m' = backend m4"
    using failed(5) s by (auto simp: abort_upload_def log_s3_error_def split: sum.splits)
  ultimately show ?thesis using send_backend [OF s] s3_failures_documentedD(4) [OF doc(2)] by metis
next
  case (uploaded buf rest1 k m1 u m2 cs m3)
  have doc': "create_documented c b objs ups" "part_documented c b objs ups"
    using doc(1) by (simp_all add: s3_documented_def)
  have m1: "backend m1 = backend m" by (rule fill_part_backend [OF uploaded(1)])
  have m2: "objs (backend m2) = objs (backend m)" "ups (backend m2) u = Some (h, Map.empty)"
    using doc'(1) send_backend [OF uploaded(2)] m1 unfolding create_documented_def by metis+
  obtain ps1 where ps1: "ups (backend m3) u = Some (h, ps1)"
    "listed_bytes ps1 cs = [] @ buf @ body_bytes rest1" "objs (backend m3) = objs (backend m2)"
    using upload_loop_recorded [OF uploaded(3) doc'(2) m2(2) recorded_empty refl
        fill_part_loop_ready [OF uploaded(1)]] by blast
  obtain err d s' where "complete_multipart_upload c b h u cs (backend m3) = (Err err, d, s')" "s' = backend m'"
    using uploaded(4) send_backend
    by (fastforce simp: complete_upload_def log_s3_error_def split: prod.splits sum.splits)
  then have "objs (backend m') = objs (backend m3) \<or> objs (backend m') = (objs (backend m3))(h \<mapsto> listed_bytes ps1 cs)"
    using s3_failures_documentedD(5) [OF doc(2)] ps1(1) by metis
  then show ?thesis
    using ps1(2,3) m2(1) fill_part_facts(1) [OF uploaded(1)] by (simp add: fill_post_def)
qed

section \<open>S3 gives the interface\<close>

locale s3_service =
  fixes client :: "'s s3_client" and bucket :: string
    and objs :: "'s \<Rightarrow> bucket_objects" and ups :: "'s \<Rightarrow> bucket_uploads"
  assumes documented: "s3_documented client bucket objs ups"
    and failures_documented: "s3_failures_documented client bucket objs ups"

definition s3_failure :: "string \<Rightarrow> log_event \<Rightarrow> bool" where
  "s3_failure k ev \<longleftrightarrow> (\<exists>operation err. ev = S3_Failed operation k err)"

sublocale s3_service \<subseteq> reporting_store "s3_storage client bucket" objs s3_failure
proof unfold_locales
  fix k b e rest and m m' :: "'s machine" and r r'
  show "exists (s3_storage client bucket) k m = (r, m') \<Longrightarrow>
      objs (backend m') = objs (backend m) \<and> (r = Ok True \<longrightarrow> objs (backend m) k \<noteq> None) \<and>
      (r = Ok False \<longrightarrow> objs (backend m) k = None)"
    using s3_exists_objects [OF documented] by (simp add: s3_storage_def)
  show "retrieve (s3_storage client bucket) k m = (r', m') \<Longrightarrow>
      objs (backend m') = objs (backend m) \<and>
      (\<forall>stream. r' = Ok stream \<longrightarrow>
        (\<exists>bs. objs (backend m) k = Some bs \<and> prefix (body_bytes stream) bs \<and>
           (complete stream \<longrightarrow> body_bytes stream = bs)))"
    using s3_retrieve_objects [OF documented] by (simp add: s3_storage_def)
  show "store (s3_storage client bucket) k b m = Some (Ok (), rest, m') \<Longrightarrow>
      objs (backend m') = (objs (backend m))(k \<mapsto> body_bytes b)"
    using s3_store_objects [OF documented] by (simp add: s3_storage_def)
  show "store (s3_storage client bucket) k b m = Some (Err e, rest, m') \<Longrightarrow>
      objs (backend m') = objs (backend m) \<or> objs (backend m') = (objs (backend m))(k \<mapsto> body_bytes b)"
    using s3_store_failed_objects [OF documented failures_documented] by (simp add: s3_storage_def)
  show "exists (s3_storage client bucket) k m = (Err e, m') \<Longrightarrow> \<exists>ev. log m' = log m @ [ev] \<and> s3_failure k ev"
    by (auto simp: s3_storage_def s3_exists_def log_s3_error_def s3_failure_def send_def split: prod.splits sum.splits if_splits)
  show "\<exists>ev. log m' = log m @ [ev] \<and> s3_failure k ev"
    if "retrieve (s3_storage client bucket) k m = (Err e, m')" "objs (backend m) k \<noteq> None"
  proof -
    obtain gr m1 where s: "send (GetObject bucket k) (get_object client bucket k) m = (gr, m1)"
      by (cases "send (GetObject bucket k) (get_object client bucket k) m")
    obtain d where g: "get_object client bucket k (backend m) = (gr, d, backend m1)" using send_backend [OF s] by blast
    have "as_service_error err \<noteq> Some No_Such_Key" if "gr = Err err" for err
      using s3_failures_documentedD(6) [OF failures_documented, of k "backend m" err] g \<open>objs (backend m) k \<noteq> None\<close> that
      by auto
    then show ?thesis using that(1) s send_log [OF s]
      by (auto simp: s3_storage_def s3_retrieve_def log_s3_error_def s3_failure_def split: sum.splits if_splits)
  qed
qed

context s3_service
begin

lemma s3_is_reporting: "reporting_store (s3_storage client bucket) objs s3_failure"
  by unfold_locales

end

lemma s3_reporting:
  assumes "s3_documented c b objs ups" "s3_failures_documented c b objs ups"
  shows "reporting_store (s3_storage c b) objs s3_failure"
  using s3_service.intro [OF assms] by (rule s3_service.s3_is_reporting)

lemma memory_failures_documented: "s3_failures_documented memory_client b stored opened"
  by (auto simp: s3_failures_documented_def memory_client_def memory_upload_part_def memory_complete_def Let_def
      split: option.splits if_splits)

interpretation memory: s3_service memory_client b stored opened for b
  by unfold_locales (rule memory_documented memory_failures_documented)+

end
