(* ===== verification/Server_Objects.thy ===== *)
theory Server_Objects
  imports Server_Answers Object_Store
begin

text \<open>
  The concurrent server over a storage that keeps the objects it is given
  (\<open>object_store\<close>): where every object and every served byte comes from, and that a write
  that was acknowledged is seen by every request that arrives after it.
\<close>

section \<open>Where objects come from\<close>

fun job_request :: "job \<Rightarrow> request option" where
  "job_request Unused = None"
| "job_request (Active req t0 st) = Some req"
| "job_request (Finished req resp rest) = Some req"
| "job_request (Gone req) = Some req"

text \<open>
  The contents a key may have: the one it had at the start, and the bodies of the PUTs of it
  that arrived with the service token.
\<close>

definition may_hold ::
  "'s deps \<Rightarrow> 's app_state \<Rightarrow> bucket_objects \<Rightarrow> 's cserver \<Rightarrow> string \<Rightarrow> bytes \<Rightarrow> bool" where
  "may_hold d app initial s h bs \<longleftrightarrow>
     initial h = Some bs \<or>
     (\<exists>t put. job_request (jobs s t) = Some put \<and> put_request d app put h \<and> bs = body_bytes (req_body put))"

text \<open>A stream that carries such a content, or the beginning of it when it broke off.\<close>

definition may_serve ::
  "'s deps \<Rightarrow> 's app_state \<Rightarrow> bucket_objects \<Rightarrow> 's cserver \<Rightarrow> string \<Rightarrow> body \<Rightarrow> bool" where
  "may_serve d app initial s h stream \<longleftrightarrow>
     (\<exists>bs. may_hold d app initial s h bs \<and> prefix (body_bytes stream) bs \<and>
        (complete stream \<longrightarrow> body_bytes stream = bs))"

text \<open>What an arriving request may start as.\<close>

fun started_job :: "job \<Rightarrow> bool" where
  "started_job (Finished req resp rest) \<longleftrightarrow> status resp \<noteq> HTTP_OK \<or> resp_body resp = Text ''OK''"
| "started_job (Active req t0 (Awaiting h)) \<longleftrightarrow> True"
| "started_job (Active req t0 (Checking h data)) \<longleftrightarrow> True"
| "started_job (Active req t0 (Draining r rest deadline)) \<longleftrightarrow> status (response_of r) \<noteq> CONFLICT"
| "started_job _ \<longleftrightarrow> False"

lemma started_error [simp]: "e \<noteq> Storage AlreadyExists \<Longrightarrow> started_job (Finished req (closing (response_of (Err e))) rest)"
  by (cases e rule: error_status_message.cases) (simp_all add: status_response_of_Err)

lemma jobs_arrive:
  fixes s :: "'s cserver"
  assumes "axum_response_spec d"
  obtains j where "jobs (arrive d app t req s) = (jobs s)(t := j)" "job_request j = Some req" "started_job j"
proof -
  have axum: "started_job (Finished req (closing (d_axum_response d st)) rest)" if "st \<noteq> HTTP_OK" for st rest
    using assms that by (simp add: axum_response_spec_def)
  have fin: "\<exists>j. jobs (finish d t req since r rest s) = (jobs s)(t := j) \<and> job_request j = Some req \<and> started_job j"
    if "started_job (Finished req (closing (response_of r)) rest)" for since r rest
    using that by (intro exI [of _ "Finished req (closing (response_of r)) rest"]) simp
  have stage: "\<exists>j. jobs (set_stage t req since st s') = (jobs s)(t := j) \<and> job_request j = Some req \<and> started_job j"
    if "started_job (Active req since st)" "jobs s' = jobs s" for since st and s' :: "'s cserver"
    using that by (intro exI [of _ "Active req since st"]) simp
  have drain: "\<exists>j. jobs (start_drain t req since (Err e) b s) = (jobs s)(t := j) \<and> job_request j = Some req \<and> started_job j"
    if "e = Forbidden \<or> e = BadRequest" for since e b
    using stage [where since = since and s' = s and st = "Draining (Err e) rest deadline" for rest deadline] that
    by (auto simp: start_drain_def status_response_of_Err split: prod.split)
  have get: "\<exists>j. jobs (begin_get d t req since h s) = (jobs s)(t := j) \<and> job_request j = Some req \<and> started_job j" for since h
    using fin [where r = "Err BadRequest" and since = since]
      stage [where since = since and st = "Awaiting h" and s' = "s\<lparr>probes := p\<rparr>" for p]
    by (cases rule: validate_hash_split [of "d_uni d" h]) (simp_all add: begin_get_def status_response_of_Err split: prod.split)
  have put: "\<exists>j. jobs (begin_put d t req since h s) = (jobs s)(t := j) \<and> job_request j = Some req \<and> started_job j" for since h
    using drain [where e = BadRequest and since = since]
      stage [where since = since and st = "Checking h (req_body req)" and s' = s]
    by (cases rule: validate_hash_split [of "d_uni d" h]) (simp_all add: begin_put_def)
  have "\<exists>j. jobs (arrive d app t req s) = (jobs s)(t := j) \<and> job_request j = Some req \<and> started_job j"
    using fin [of "Ok health_check"] fin [of "Ok (d_axum_response d st)" for st] fin [of "Err Unauthorized"]
      drain get put axum
    by (simp add: arrive_def begin_auth_eq begin_cache_def Let_def health_check_def text_response_def
        status_response_of_Err split: route_match.split option.split)
  then show ?thesis using that by blast
qed

lemma job_request_step:
  assumes "axum_response_spec d"
  shows "server_step d app s a s' \<Longrightarrow> job_request (jobs s t) = Some req \<Longrightarrow> job_request (jobs s' t) = Some req"
proof (induction rule: server_step.induct)
  case (arrive s t' req')
  then have "t \<noteq> t'" by auto
  then show ?case using arrive(2) by (rule_tac jobs_arrive [OF assms, of app t' req' s]) simp
qed (auto simp: after_present_def after_retrieve_def after_check_def after_store_def start_drain_def
      split: sum.splits prod.splits)

lemma may_hold_step:
  "axum_response_spec d \<Longrightarrow> server_step d app s a s' \<Longrightarrow> may_hold d app initial s h bs \<Longrightarrow> may_hold d app initial s' h bs"
  unfolding may_hold_def using job_request_step by metis

fun job_serves ::
  "'s deps \<Rightarrow> 's app_state \<Rightarrow> bucket_objects \<Rightarrow> 's cserver \<Rightarrow> job \<Rightarrow> bool" where
  "job_serves d app initial s (Active req t0 (Was_Read h (Inr stream))) \<longleftrightarrow> may_serve d app initial s h stream"
| "job_serves d app initial s (Finished req resp rest) \<longleftrightarrow>
     (status resp = HTTP_OK \<longrightarrow> (\<forall>stream. resp_body resp = Artifact stream \<longrightarrow>
        (\<exists>h. get_request d app req h \<and> may_serve d app initial s h stream)))"
| "job_serves d app initial s _ \<longleftrightarrow> True"

definition sourced ::
  "('s \<Rightarrow> bucket_objects) \<Rightarrow> 's deps \<Rightarrow> 's app_state \<Rightarrow> bucket_objects \<Rightarrow> 's cserver \<Rightarrow> bool" where
  "sourced objs d app initial s \<longleftrightarrow>
     (\<forall>h bs. objs (backend (world s)) h = Some bs \<longrightarrow> may_hold d app initial s h bs) \<and>
     (\<forall>t. job_serves d app initial s (jobs s t))"

lemma sourcedD:
  assumes "sourced objs d app initial s"
  shows "objs (backend (world s)) h = Some bs \<Longrightarrow> may_hold d app initial s h bs"
    and "jobs s t = j \<Longrightarrow> job_serves d app initial s j"
  using assms by (auto simp: sourced_def)

text \<open>
  Whether a job carries a content that its key may have held, for any account \<open>H\<close> of the
  contents of keys: \<open>may_hold\<close> is the one of a server that has its bucket to itself.
\<close>

definition carried :: "(string \<Rightarrow> bytes \<Rightarrow> bool) \<Rightarrow> string \<Rightarrow> body \<Rightarrow> bool" where
  "carried H h stream \<longleftrightarrow>
     (\<exists>bs. H h bs \<and> prefix (body_bytes stream) bs \<and> (complete stream \<longrightarrow> body_bytes stream = bs))"

fun job_carries :: "(string \<Rightarrow> bytes \<Rightarrow> bool) \<Rightarrow> 's deps \<Rightarrow> 's app_state \<Rightarrow> job \<Rightarrow> bool" where
  "job_carries H d app (Active req t0 (Was_Read h (Inr stream))) \<longleftrightarrow> carried H h stream"
| "job_carries H d app (Finished req resp rest) \<longleftrightarrow>
     (status resp = HTTP_OK \<longrightarrow> (\<forall>stream. resp_body resp = Artifact stream \<longrightarrow>
        (\<exists>h. get_request d app req h \<and> carried H h stream)))"
| "job_carries H d app _ \<longleftrightarrow> True"

lemma may_serve_carried: "may_serve d app initial s = carried (may_hold d app initial s)"
  by (intro ext) (simp add: may_serve_def carried_def)

lemma job_serves_carries: "job_serves d app initial s j = job_carries (may_hold d app initial s) d app j"
  by (cases "(d, app, initial, s, j)" rule: job_serves.cases) (simp_all add: may_serve_carried)

lemma job_carries_mono:
  assumes "job_carries H d app j" "\<And>h bs. H h bs \<Longrightarrow> H' h bs"
  shows "job_carries H' d app j"
proof -
  have "carried H' h stream" if "carried H h stream" for h stream
    using that assms(2) unfolding carried_def by blast
  then show ?thesis using assms(1) by (cases "(H, d, app, j)" rule: job_carries.cases) (auto, blast)
qed

lemma started_carries: "started_job j \<Longrightarrow> job_carries H d app j"
  by (cases "(H, d, app, j)" rule: job_carries.cases) auto

lemma world_arrive_backend [simp]: "backend (world (arrive d app t req s)) = backend (world s)"
  by (simp add: arrive_def begin_auth_def begin_cache_def begin_get_def begin_put_def Let_def
      split: route_match.split option.split sum.split prod.split)

lemma world_after_backend [simp]:
  "backend (world (after_present d t req t0 h r s)) = backend (world s)"
  "backend (world (after_retrieve d t req t0 r' s)) = backend (world s)"
  "backend (world (after_check t req t0 h data r s)) = backend (world s)"
  "backend (world (after_store d t req t0 h w rest s)) = backend (world s)"
  by (simp_all add: after_present_def after_retrieve_def after_check_def after_store_def split: sum.split)

text \<open>The job a suspended task goes on to, by what it was told.\<close>

lemma jobs_after:
  "jobs (after_present d t req t0 h r s) =
     (jobs s)(t := if unwrap_or False r then Active req t0 (Reading h)
                   else Finished req (closing (response_of (Err (Storage NotFound)))) (req_body req))"
  "jobs (after_retrieve d t req t0 r' s) =
     (jobs s)(t := Finished req (closing (response_of
        (case r' of
           Err _ \<Rightarrow> Err (Storage NotFound)
         | Ok reader \<Rightarrow>
             Ok \<lparr>status = HTTP_OK, resp_headers = [(''content-type'', ''application/octet-stream'')],
                 resp_body = Artifact (d_reader_stream d reader)\<rparr>))) (req_body req))"
  by (simp_all add: after_present_def after_retrieve_def split: sum.split)

lemma jobs_after_check:
  obtains (present) rest deadline where "unwrap_or False r"
      "jobs (after_check t req t0 h data r s) = (jobs s)(t := Active req t0
         (Draining (Ok (text_response CONFLICT ''Cannot override an existing record'')) rest deadline))"
  | (absent) "\<not> unwrap_or False r"
      "jobs (after_check t req t0 h data r s) = (jobs s)(t := Active req t0 (Writing h data))"
  by (cases "unwrap_or False r"; cases "drain_stream DRAIN_TIMEOUT data")
    (simp_all add: after_check_def start_drain_def)

lemma jobs_after_store:
  obtains (stored) "w = Ok ()"
      "jobs (after_store d t req t0 h w rest s) =
         (jobs s)(t := Finished req (closing (text_response HTTP_OK '''')) rest)"
  | (aborted) "w = Err ClientAbort"
      "jobs (after_store d t req t0 h w rest s) =
         (jobs s)(t := Finished req (closing (response_of (Err (Storage ClientAbort)))) rest)"
  | (declined) e rest' deadline where "w = Err e" "e \<noteq> ClientAbort"
      "jobs (after_store d t req t0 h w rest s) =
         (jobs s)(t := Active req t0 (Draining (Err Forbidden) rest' deadline))"
proof (cases w)
  case (Inl e)
  then show ?thesis using aborted declined
    by (cases "e = ClientAbort"; cases "drain_stream DRAIN_TIMEOUT rest")
      (simp_all add: after_store_def start_drain_def)
next
  case (Inr u)
  then show ?thesis using stored by (simp add: after_store_def)
qed

context object_store
begin

text \<open>A step writes the body of the PUT whose upload it is, or nothing.\<close>

lemma objects_written:
  assumes "storage app = provider" "server_step d app s a s'" "objects (backend (world s')) k = Some bs"
  shows "objects (backend (world s)) k = Some bs \<or>
    (\<exists>t req t0 data. jobs s t = Active req t0 (Writing k data) \<and> bs = body_bytes (d_reader_stream d data))"
  using assms(2,3)
proof (induction rule: server_step.induct)
  case (head_effect s t req t0 h i e b r m)
  then show ?case using exists_objects [of h "machine_now s" r m] assms(1) by simp
next
  case (get_effect s t req t0 h r' m)
  then show ?case using retrieve_objects [of h "machine_now s" r' m] assms(1) by simp
next
  case (check_effect s t req t0 h data r m)
  then show ?case using exists_objects [of h "machine_now s" r m] assms(1) by simp
next
  case (put_effect s t req t0 h data st rest m)
  have "objects (backend m) = objects (backend (world s)) \<or>
      objects (backend m) = (objects (backend (world s)))(h \<mapsto> body_bytes (d_reader_stream d data))"
    using store_writes [of h "d_reader_stream d data" "machine_now s" st rest m] put_effect(2) assms(1) by auto
  then have "objects (backend (world s)) k = Some bs \<or> k = h \<and> bs = body_bytes (d_reader_stream d data)"
    using put_effect(3) by (auto split: if_splits)
  then show ?case using put_effect(1) by blast
next
  case (self_check s)
  then show ?case using assms(1) self_probe_objects [of "machine_now s"] by simp
qed simp_all

text \<open>What jobs carry was read from the bucket.\<close>

lemma carries_step:
  assumes app: "storage app = provider" and specs: "axum_response_spec d" "reader_stream_spec d"
    and step: "server_step d app s a s'" and ok: "jobs_ok d app s"
    and held: "\<And>h bs. objects (backend (world s)) h = Some bs \<Longrightarrow> H h bs"
    and old: "\<And>t. job_carries H d app (jobs s t)"
  shows "job_carries H d app (jobs s' u)"
proof -
  have upd: ?thesis if "jobs s' = (jobs s)(t := j)" "job_carries H d app j" for t j
    using that old by simp
  have present: ?thesis if "s' = after_present d t req t0 h r (s\<lparr>probes := p\<rparr>)" for t req t0 h r p
    using old [of u] by (simp add: that jobs_after status_response_of_Err)
  from step show ?thesis
  proof (cases rule: server_step.cases)
    case (arrive t req)
    obtain j where "jobs (arrive d app t req s) = (jobs s)(t := j)" "started_job j"
      by (rule jobs_arrive [OF specs(1), of app t req s])
    then show ?thesis using arrive(2) by (intro upd [where t = t and j = j] started_carries) simp_all
  next
    case (get_effect t req t0 h r' m)
    have st: "\<exists>bs. objects (backend (world s)) h = Some bs \<and>
        prefix (body_bytes stream) bs \<and> (complete stream \<longrightarrow> body_bytes stream = bs)" if "r' = Ok stream" for stream
      using retrieve_objects [of h "machine_now s" r' m] get_effect(4) app that by simp
    have "job_carries H d app (Active req t0 (Was_Read h r'))"
      using st held by (cases r') (auto simp: carried_def)
    then show ?thesis using get_effect(2) by (intro upd [where t = t]) simp_all
  next
    case (get_end t req t0 h r')
    have g: "get_request d app req h" using jobs_okD [OF ok get_end(3)] by simp
    have "carried H h (d_reader_stream d reader)" if "r' = Ok reader" for reader
      using old [of t] get_end(3) that specs(2) by (simp add: carried_def reader_stream_spec_def)
    then show ?thesis using g unfolding get_end(2)
      by (intro upd [unfolded get_end(2), OF jobs_after(2)])
        (auto simp: status_response_of_Err split: sum.split)
  next
    case (check_end t req t0 h data r)
    obtain j where "jobs s' = (jobs s)(t := j)" "job_carries H d app j"
      unfolding check_end(2) by (rule jobs_after_check [of r t req t0 h data s]) fastforce+
    then show ?thesis by (rule upd)
  next
    case (put_end t req t0 h st rest)
    obtain j where "jobs s' = (jobs s)(t := j)" "job_carries H d app j"
      unfolding put_end(2)
      by (rule jobs_after_store [of st d t req t0 h rest s]) (fastforce simp: status_response_of_Err text_response_def)+
    then show ?thesis by (rule upd)
  next
    case (drain_end t req t0 res rest deadline)
    have "status (response_of res) \<noteq> HTTP_OK" using jobs_okD [OF ok drain_end(3)] by simp
    then show ?thesis using drain_end(2)
      by (intro upd [where t = t and j = "Finished req (closing (response_of res)) rest"]) simp_all
  qed (use present old [of u] in \<open>simp_all\<close>)
qed

lemma sourced_step:
  assumes app: "storage app = provider" and specs: "axum_response_spec d" "reader_stream_spec d"
    and step: "server_step d app s a s'" and ok: "jobs_ok d app s" and src: "sourced objects d app initial s"
  shows "sourced objects d app initial s'"
proof -
  note hold = may_hold_step [OF specs(1) step]
  have held: "may_hold d app initial s' h bs" if "objects (backend (world s)) h = Some bs" for h bs
    using sourcedD(1) [OF src that] by (rule hold)
  have old: "job_carries (may_hold d app initial s') d app (jobs s t)" for t
    using sourcedD(2) [OF src refl, of t] hold unfolding job_serves_carries by (rule job_carries_mono)
  show ?thesis
    unfolding sourced_def job_serves_carries
  proof (intro conjI allI impI)
    fix h bs assume "objects (backend (world s')) h = Some bs"
    from objects_written [OF app step this] show "may_hold d app initial s' h bs"
    proof
      assume "\<exists>t req t0 data. jobs s t = Active req t0 (Writing h data) \<and> bs = body_bytes (d_reader_stream d data)"
      then obtain t req t0 data where w: "jobs s t = Active req t0 (Writing h data)"
        "bs = body_bytes (d_reader_stream d data)" by blast
      have "put_request d app req h" "data = req_body req" using jobs_okD [OF ok w(1)] by simp_all
      then have "may_hold d app initial s h bs"
        using w specs(2) unfolding may_hold_def
        by (intro disjI2 exI [of _ t] exI [of _ req]) (simp add: reader_stream_spec_def)
      then show ?thesis by (rule hold)
    qed (rule held)
  next
    show "job_carries (may_hold d app initial s') d app (jobs s' u)" for u
      by (rule carries_step [OF app specs step ok held old])
  qed
qed

lemma reachable_sourced:
  assumes "storage app = provider" "axum_response_spec d" "reader_stream_spec d" "server_reachable d app m s"
  shows "sourced objects d app (objects (backend m)) s"
proof -
  let ?P = "\<lambda>s. jobs_ok d app s \<and> sourced objects d app (objects (backend m)) s"
  have "?P s"
    using assms(4)
  proof (rule server_reachable_inv [where P = ?P])
    show "?P (cserver_init m)"
      by (simp add: jobs_ok_init sourced_def) (simp add: cserver_init_def may_hold_def)
    show "?P s'" if "server_step d app s a s'" "?P s" for s a s'
      using that jobs_ok_step [OF assms(2)] sourced_step [OF assms(1-3)] by blast
  qed
  then show ?thesis by simp
qed

end

end
