(* ===== verification/Server_Visibility.thy ===== *)
theory Server_Visibility
  imports Server_Objects
begin

text \<open>
  A write that was acknowledged is seen. Once a PUT of a key has been answered (stored, or
  refused because the key exists), no slot of the cache that a later request can be handed
  holds "absent" for it or has a probe about to write "absent" into it, whatever is still
  under way; so a later GET is answered with the object, unless one of its own storage
  operations fails.
\<close>

section \<open>Slots of the cache\<close>

lemma flight_step_old_slot:
  assumes "flight_step p ev p'" "i < length (heap p)"
  shows "i < length (heap p') \<and> slot_key (heap p' ! i) = slot_key (heap p ! i)"
  using assms
proof (induction rule: flight_step.induct)
  case (enter s t k j s1)
  from enter(2) show ?case
    by (cases rule: flight_slot_cases) (use enter(3) in \<open>auto simp: heap_simps nth_append\<close>)
next
  case (mark s k)
  then show ?case by (simp add: flight_mark_def heap_simps nth_append)
next
  case (begin_probe s t k j e)
  then show ?case by (cases "i = j") (simp_all add: heap_simps)
next
  case (resolve s t k j e b v)
  then show ?case by (cases "i = j") (simp_all add: heap_simps)
next
  case (fail s t k j e b err)
  then show ?case by (cases "i = j") (simp_all add: heap_simps)
next
  case (cancel_probing s t k j e b)
  then show ?case by (cases "i = j") (simp_all add: heap_simps)
qed simp_all

text \<open>A slot keeps its age, and its cell once it is initialised.\<close>

lemma flight_step_old_cell:
  assumes "flight_step p ev p'" "flight_inv p" "i < length (heap p)"
  shows "created (heap p' ! i) = created (heap p ! i) \<and>
    (\<forall>v. present_cell (heap p ! i) = Some v \<longrightarrow> present_cell (heap p' ! i) = Some v)"
  using assms
proof (induction rule: flight_step.induct)
  case (enter s t k j s1)
  from enter(2) show ?case
    by (cases rule: flight_slot_cases) (use enter(4) in \<open>auto simp: heap_simps nth_append\<close>)
next
  case (mark s k)
  then show ?case by (simp add: flight_mark_def heap_simps nth_append)
next
  case (begin_probe s t k j e)
  then show ?case by (cases "i = j") (simp_all add: heap_simps)
next
  case (resolve s t k j e b v)
  then show ?case using permit_uninit [OF resolve(2,1)] by (cases "i = j") (simp_all add: heap_simps)
next
  case (fail s t k j e b err)
  then show ?case by (cases "i = j") (simp_all add: heap_simps)
next
  case (cancel_probing s t k j e b)
  then show ?case by (cases "i = j") (simp_all add: heap_simps)
qed simp_all

text \<open>The index names an old slot, or one that is new and holds no "absent".\<close>

lemma flight_step_index:
  assumes "flight_step p ev p'" "fmlookup (index p') h = Some i"
  shows "fmlookup (index p) h = Some i \<or> i = length (heap p) \<and> present_cell (heap p' ! i) \<noteq> Some False"
  using assms
proof (induction rule: flight_step.induct)
  case (enter s t k j s1)
  from enter(2) show ?case
    by (cases rule: flight_slot_cases)
      (use enter(3) in \<open>auto simp: heap_simps dest: fmlookup_flight_sweep_Some split: if_splits\<close>)
next
  case (mark s k)
  then show ?case
    by (auto simp: flight_mark_def heap_simps dest: fmlookup_flight_sweep_Some split: if_splits)
qed simp_all

lemma probing_slot: "tasks p t = Probing k i e b \<Longrightarrow> flight_inv p \<Longrightarrow> i < length (heap p)"
  using permit_uninit by blast

lemma flight_step_probing:
  assumes "flight_step p ev p'" "flight_inv p" "tasks p' t = Probing k i e b"
  shows "i < length (heap p)"
  using assms
proof (induction rule: flight_step.induct)
  case (begin_probe s u k' j e')
  then show ?case using flight_invD(2) [OF begin_probe(4), of t] flight_invD(2) [OF begin_probe(4), of u]
    by (auto split: if_splits)
next
  case (enter s u k' j s1)
  then show ?case using flight_invD(2) [OF enter(3), of t] tasks_flight_slot [OF enter(2)]
    by (auto split: if_splits)
qed (auto split: if_splits intro: probing_slot)

section \<open>Slots without "absent"\<close>

definition clean :: "'s cserver \<Rightarrow> nat \<Rightarrow> bool" where
  "clean s i \<longleftrightarrow>
     present_cell (heap (probes s) ! i) \<noteq> Some False \<and>
     (\<forall>t req t0 h k e b. jobs s t = Active req t0 (Headed h (Ok False)) \<longrightarrow>
        tasks (probes s) t \<noteq> Probing k i e b)"

lemma clean_update:
  assumes "clean s i" "jobs s' = (jobs s)(t := j)"
    and "\<And>req t0 h k e b. j = Active req t0 (Headed h (Ok False)) \<Longrightarrow> tasks (probes s') t \<noteq> Probing k i e b"
    and "\<And>u. u \<noteq> t \<Longrightarrow> tasks (probes s') u = tasks (probes s) u"
    and "present_cell (heap (probes s') ! i) \<noteq> Some False"
  shows "clean s' i"
  using assms unfolding clean_def by (metis fun_upd_apply)

definition visible :: "('s \<Rightarrow> bucket_objects) \<Rightarrow> string \<Rightarrow> 's cserver \<Rightarrow> bool" where
  "visible objs h s \<longleftrightarrow>
     objs (backend (world s)) h \<noteq> None \<and> (\<forall>i. fmlookup (index (probes s)) h = Some i \<longrightarrow> clean s i)"

text \<open>
  More generally, the slot that a later request can be handed may be one that is not clean
  but \<open>stale\<close>, as long as what makes it stale lasts: a property of its age and of its
  initialised cell.
\<close>

definition shown ::
  "('s \<Rightarrow> bucket_objects) \<Rightarrow> (gslot \<Rightarrow> bool) \<Rightarrow> string \<Rightarrow> 's cserver \<Rightarrow> bool" where
  "shown objs stale h s \<longleftrightarrow>
     objs (backend (world s)) h \<noteq> None \<and>
     (\<forall>i. fmlookup (index (probes s)) h = Some i \<longrightarrow> clean s i \<or> stale (heap (probes s) ! i))"

definition lasting :: "(gslot \<Rightarrow> bool) \<Rightarrow> bool" where
  "lasting stale \<longleftrightarrow>
     (\<forall>x y. stale x \<longrightarrow> created y = created x \<longrightarrow>
        (\<forall>v. present_cell x = Some v \<longrightarrow> present_cell y = Some v) \<longrightarrow> stale y)"

lemma visible_shown: "visible objs h s \<longleftrightarrow> shown objs (\<lambda>_. False) h s"
  by (simp add: visible_def shown_def)

text \<open>What a step does to the cells of old slots.\<close>

lemma cell_add_slot: "i < length (heap p) \<Longrightarrow> present_cell (heap (add_slot k c p) ! i) = present_cell (heap p ! i)"
  by (simp add: cells_add_slot)

lemma cell_flight_slot:
  "flight_slot k p = (j, p1) \<Longrightarrow> i < length (heap p) \<Longrightarrow> present_cell (heap p1 ! i) = present_cell (heap p ! i)"
  by (erule flight_slot_cases) (simp_all add: cell_add_slot)

lemma cell_arrive:
  "i < length (heap (probes s)) \<Longrightarrow>
     present_cell (heap (probes (arrive d app t req s)) ! i) = present_cell (heap (probes s) ! i)"
  by (rule probes_arrive [of d app t req s]) (simp_all add: cell_flight_slot)

lemma tasks_arrive: "u \<noteq> t \<Longrightarrow> tasks (probes (arrive d app t req s)) u = tasks (probes s) u"
  by (rule probes_arrive [of d app t req s]) (simp_all add: tasks_flight_slot)

lemma cell_drop [simp]: "present_cell (heap (drop_task t p) ! i) = present_cell (heap p ! i)"
  by (simp add: drop_task_def cells_set_permit split: task.split)

lemma tasks_drop: "u \<noteq> t \<Longrightarrow> tasks (drop_task t p) u = tasks p u"
  by (simp add: drop_task_def split: task.split)

context object_store
begin

lemma objects_kept:
  assumes "storage app = provider" "server_step d app s a s'" "objects (backend (world s)) h \<noteq> None"
  shows "objects (backend (world s')) h \<noteq> None"
  using assms(2,3)
proof (induction rule: server_step.induct)
  case (head_effect s t req t0 h' i e b r m)
  then show ?case using exists_objects [of h' "machine_now s" r m] assms(1) by simp
next
  case (get_effect s t req t0 h' r' m)
  then show ?case using retrieve_objects [of h' "machine_now s" r' m] assms(1) by simp
next
  case (check_effect s t req t0 h' data r m)
  then show ?case using exists_objects [of h' "machine_now s" r m] assms(1) by simp
next
  case (put_effect s t req t0 h' data st rest m)
  then show ?case
    using store_keeps [of h' "d_reader_stream d data" "machine_now s" st rest m h] assms(1) by simp
next
  case (self_check s)
  then show ?case using assms(1) self_probe_objects [of "machine_now s"] by simp
qed simp_all

lemma clean_step:
  assumes app: "storage app = provider" and spec: "axum_response_spec d"
    and step: "server_step d app s a s'" and inv: "flight_inv (probes s)"
    and i: "i < length (heap (probes s))" "slot_key (heap (probes s) ! i) = h"
    and there: "objects (backend (world s)) h \<noteq> None" and cl: "clean s i"
  shows "clean s' i"
proof -
  note upd = clean_update [OF cl]
  have cell: "present_cell (heap (probes s) ! i) \<noteq> Some False" using cl by (simp add: clean_def)
  have present: ?thesis
    if "s' = after_present d t req t0 h' r (s\<lparr>probes := p\<rparr>)"
      "\<And>u. u \<noteq> t \<Longrightarrow> tasks p u = tasks (probes s) u" "present_cell (heap p ! i) \<noteq> Some False"
    for t req t0 h' r p
  proof (rule upd)
    show "jobs s' = (jobs s)(t := if unwrap_or False r then Active req t0 (Reading h')
        else Finished req (closing (response_of (Err (Storage NotFound)))) (req_body req))"
      using that by (simp add: jobs_after)
  qed (use that in \<open>auto split: if_splits\<close>)
  from step show ?thesis
  proof (cases rule: server_step.cases)
    case (arrive t req)
    obtain j where "jobs (arrive d app t req s) = (jobs s)(t := j)" "started_job j"
      by (rule jobs_arrive [OF spec, of app t req s])
    then show ?thesis using arrive(2) cell i(1)
      by (intro upd [where t = t and j = j]) (auto simp: cell_arrive tasks_arrive)
  next
    case (pass delay)
    then show ?thesis using cl by (simp add: clean_def)
  next
    case (cell_hit t req t0 h' i' e v)
    show ?thesis by (rule present [OF cell_hit(2)]) (simp_all add: cell)
  next
    case (probe_start t req t0 h' i' e)
    then show ?thesis using cell
      by (intro upd [where t = t and j = "jobs s t"]) (simp_all add: fun_upd_idem cells_set_permit)
  next
    case (head_effect t req t0 h' i' e b r m)
    have "r \<noteq> Ok False" if "i' = i"
    proof -
      have "h' = h" using permit_uninit [OF inv head_effect(4)] i(2) that by simp
      then show ?thesis using exists_objects [of h' "machine_now s" r m] head_effect(5) app there by auto
    qed
    then show ?thesis using head_effect cell
      by (intro upd [where t = t and j = "Active req t0 (Headed h' r)"]) auto
  next
    case (probe_end t req t0 h' v i' e b)
    have "v" if "i' = i" using cl probe_end(3,4) that by (cases v) (auto simp: clean_def)
    then have "present_cell (heap (resolve_slot i' v (probes s)) ! i) \<noteq> Some False"
      using cell i(1) by (cases "i' = i") (simp_all add: heap_simps)
    then show ?thesis by (intro present [OF probe_end(2)]) simp_all
  next
    case (probe_fail t req t0 h' err i' e b)
    show ?thesis by (rule present [OF probe_fail(2)]) (simp_all add: cells_set_permit cell)
  next
    case (get_effect t req t0 h' r' m)
    then show ?thesis using cell by (intro upd [where t = t and j = "Active req t0 (Was_Read h' r')"]) simp_all
  next
    case (get_end t req t0 h' r')
    show ?thesis using cell unfolding get_end(2) by (intro upd [unfolded get_end(2), OF jobs_after(2)]) simp_all
  next
    case (check_effect t req t0 h' data r m)
    then show ?thesis using cell by (intro upd [where t = t and j = "Active req t0 (Checked h' data r)"]) simp_all
  next
    case (check_end t req t0 h' data r)
    obtain j where "jobs s' = (jobs s)(t := j)" "\<nexists>req t0 h r. j = Active req t0 (Headed h r)"
      unfolding check_end(2) by (rule jobs_after_check [of r t req t0 h' data s]) fastforce+
    then show ?thesis using cell i(1)
      by (intro upd [where t = t and j = j]) (auto simp: check_end(2) flight_mark_def cell_add_slot)
  next
    case (put_effect t req t0 h' data st rest m)
    then show ?thesis using cell by (intro upd [where t = t and j = "Active req t0 (Written h' st rest)"]) simp_all
  next
    case (put_end t req t0 h' st rest)
    obtain j where "jobs s' = (jobs s)(t := j)" "\<nexists>req t0 h r. j = Active req t0 (Headed h r)"
      unfolding put_end(2) by (rule jobs_after_store [of st d t req t0 h' rest s]) fastforce+
    then show ?thesis using cell i(1)
      by (intro upd [where t = t and j = j]) (auto simp: put_end(2) flight_mark_def cell_add_slot)
  next
    case (drain_end t req t0 res rest deadline)
    then show ?thesis using cell
      by (intro upd [where t = t and j = "Finished req (closing (response_of res)) rest"]) simp_all
  next
    case (hang_up t req t0 sg)
    then show ?thesis using cell by (intro upd [where t = t and j = "Gone req"]) (simp_all add: tasks_drop)
  next
    case (self_check)
    then show ?thesis using cl by (simp add: clean_def)
  qed
qed

end

section \<open>Acknowledged keys\<close>

text \<open>A PUT that has been answered 200 or 409, or is draining before its 409.\<close>

fun settled :: "'s deps \<Rightarrow> 's app_state \<Rightarrow> string \<Rightarrow> job \<Rightarrow> bool" where
  "settled d app h (Finished put resp rest) \<longleftrightarrow>
     put_request d app put h \<and> (status resp = HTTP_OK \<or> status resp = CONFLICT)"
| "settled d app h (Active put t0 (Draining r rest deadline)) \<longleftrightarrow>
     put_request d app put h \<and> status (response_of r) = CONFLICT"
| "settled d app h _ \<longleftrightarrow> False"

text \<open>A PUT whose storage call has come back with the object there.\<close>

fun found :: "string \<Rightarrow> job \<Rightarrow> bool" where
  "found h (Active req t0 (Checked h' data r)) \<longleftrightarrow> h' = h \<and> r = Ok True"
| "found h (Active req t0 (Written h' r rest)) \<longleftrightarrow> h' = h \<and> r = Ok ()"
| "found h _ \<longleftrightarrow> False"

definition acknowledged_ok ::
  "('s \<Rightarrow> bucket_objects) \<Rightarrow> 's deps \<Rightarrow> 's app_state \<Rightarrow> 's cserver \<Rightarrow> bool" where
  "acknowledged_ok objs d app s \<longleftrightarrow>
     (\<forall>t h. (settled d app h (jobs s t) \<longrightarrow> visible objs h s) \<and>
            (found h (jobs s t) \<longrightarrow> objs (backend (world s)) h \<noteq> None))"

lemma acknowledged_okD:
  assumes "acknowledged_ok objs d app s" "jobs s t = j"
  shows "settled d app h j \<Longrightarrow> visible objs h s"
    and "found h j \<Longrightarrow> objs (backend (world s)) h \<noteq> None"
  using assms by (auto simp: acknowledged_ok_def)

lemma arrive_put:
  "put_request d app req h \<Longrightarrow>
     arrive d app t req s = set_stage t req (now (probes s)) (Checking h (req_body req)) s"
  by (auto simp: put_request_def arrive_def begin_auth_eq begin_cache_def begin_put_def Let_def
      dest: may_write_authenticated)

lemma put_request_unique: "put_request d app req h \<Longrightarrow> put_request d app req h' \<Longrightarrow> h' = h"
  by (simp add: put_request_def)

lemma visible_mark:
  assumes "flight_inv (probes s)" "objs (backend (world s)) h \<noteq> None"
    and "probes s' = flight_mark h (probes s)" "backend (world s') = backend (world s)"
  shows "visible objs h s'"
proof -
  have "tasks (probes s) t \<noteq> Probing k (length (heap (probes s))) e b" for t k e b
    using probing_slot [OF _ assms(1)] by blast
  then show ?thesis using assms by (simp add: visible_def clean_def flight_mark_def heap_simps)
qed

context object_store
begin

lemma shown_step:
  assumes app: "storage app = provider" and spec: "axum_response_spec d"
    and step: "server_step d app s a s'" and inv: "flight_inv (probes s)" "linked s"
    and lasts: "lasting stale" and sh: "shown objects stale h s"
  shows "shown objects stale h s'"
  unfolding shown_def
proof (intro conjI allI impI)
  have there: "objects (backend (world s)) h \<noteq> None" using sh by (simp add: shown_def)
  show "objects (backend (world s')) h \<noteq> None" by (rule objects_kept [OF app step there])
  fix i
  assume i: "fmlookup (index (probes s')) h = Some i"
  have old: "clean s' i \<or> stale (heap (probes s') ! i)"
    if at: "fmlookup (index (probes s)) h = Some i"
      and kept: "created (heap (probes s') ! i) = created (heap (probes s) ! i) \<and>
        (\<forall>v. present_cell (heap (probes s) ! i) = Some v \<longrightarrow> present_cell (heap (probes s') ! i) = Some v)"
  proof -
    have "clean s i \<or> stale (heap (probes s) ! i)" using sh at by (simp add: shown_def)
    then show ?thesis
      using clean_step [OF app spec step inv(1) _ _ there] flight_invD(1) [OF inv(1) at] lasts kept
      unfolding lasting_def by blast
  qed
  from server_step_probes [OF step inv(2)] show "clean s' i \<or> stale (heap (probes s') ! i)"
  proof
    assume "probes s' = probes s"
    then show ?thesis using old i by simp
  next
    assume "\<exists>ev. flight_step (probes s) ev (probes s')"
    then obtain ev where ev: "flight_step (probes s) ev (probes s')" ..
    from flight_step_index [OF ev i] show ?thesis
    proof
      assume "fmlookup (index (probes s)) h = Some i"
      then show ?thesis
        using old flight_step_old_cell [OF ev inv(1)] flight_invD(1) [OF inv(1)] by blast
    next
      assume new: "i = length (heap (probes s)) \<and> present_cell (heap (probes s') ! i) \<noteq> Some False"
      then have "tasks (probes s') t \<noteq> Probing k i e b" for t k e b
        using flight_step_probing [OF ev inv(1)] by blast
      then show ?thesis using new unfolding clean_def by blast
    qed
  qed
qed

lemma visible_step:
  assumes "storage app = provider" "axum_response_spec d" "server_step d app s a s'"
    and "flight_inv (probes s)" "linked s" "visible objects h s"
  shows "visible objects h s'"
  using assms(6) unfolding visible_shown
  by (rule shown_step [OF assms(1-5), rotated]) (simp add: lasting_def)

lemma acknowledged_step:
  assumes app: "storage app = provider" and spec: "axum_response_spec d"
    and step: "server_step d app s a s'" and inv: "flight_inv (probes s)" "linked s"
    and ok: "jobs_ok d app s" and ack: "acknowledged_ok objects d app s"
  shows "acknowledged_ok objects d app s'"
proof -
  note vis = visible_step [OF app spec step inv]
  have upd: ?thesis if "jobs s' = (jobs s)(t := j)"
      "\<And>h. settled d app h j \<Longrightarrow> visible objects h s'" "\<And>h. found h j \<Longrightarrow> objects (backend (world s')) h \<noteq> None"
    for t j
    unfolding acknowledged_ok_def
    using that vis acknowledged_okD [OF ack refl] objects_kept [OF app step]
    by (metis fun_upd_apply)
  have present: ?thesis if "s' = after_present d t req t0 h r (s\<lparr>probes := p\<rparr>)" for t req t0 h r p
  proof (rule upd)
    show "jobs s' = (jobs s)(t := if unwrap_or False r then Active req t0 (Reading h)
        else Finished req (closing (response_of (Err (Storage NotFound)))) (req_body req))"
      using that by (simp add: jobs_after)
  qed (simp_all add: status_response_of_Err split: if_splits)
  from step show ?thesis
  proof (cases rule: server_step.cases)
    case (arrive t req)
    obtain j where j: "jobs (arrive d app t req s) = (jobs s)(t := j)" "job_request j = Some req" "started_job j"
      by (rule jobs_arrive [OF spec, of app t req s])
    have "\<not> settled d app h j" for h
    proof
      assume "settled d app h j"
      then have "put_request d app req h" using j(2) by (cases "(d, app, h, j)" rule: settled.cases) auto
      from arrive_put [OF this, of t s] j(1) have "j = Active req (now (probes s)) (Checking h (req_body req))"
        using fun_upd_same [of "jobs s" t] by (metis set_stage_simps(3))
      then show False using \<open>settled d app h j\<close> by simp
    qed
    moreover have "\<not> found h j" for h using j(3) by (cases "(h, j)" rule: found.cases) auto
    ultimately show ?thesis using j(1) arrive(2) by (intro upd [where t = t and j = j]) simp_all
  next
    case (pass delay)
    then show ?thesis using vis acknowledged_okD [OF ack refl] by (simp add: acknowledged_ok_def)
  next
    case (probe_start t req t0 h' i' e)
    then show ?thesis by (intro upd [where t = t and j = "jobs s t"]) (simp_all add: fun_upd_idem)
  next
    case (head_effect t req t0 h' i' e b r m)
    then show ?thesis by (intro upd [where t = t and j = "Active req t0 (Headed h' r)"]) simp_all
  next
    case (get_effect t req t0 h' r' m)
    then show ?thesis by (intro upd [where t = t and j = "Active req t0 (Was_Read h' r')"]) simp_all
  next
    case (get_end t req t0 h' r')
    have "\<not> put_request d app req h" for h
      using jobs_okD [OF ok get_end(3)] get_request_facts put_request_facts by (metis job_ok.simps(2) stage_ok.simps(4))
    then show ?thesis unfolding get_end(2) by (intro upd [unfolded get_end(2), OF jobs_after(2)]) simp_all
  next
    case (check_effect t req t0 h' data r m)
    then show ?thesis using exists_objects [of h' "machine_now s" r m] app
      by (intro upd [where t = t and j = "Active req t0 (Checked h' data r)"]) auto
  next
    case (check_end t req t0 h' data r)
    have p: "put_request d app req h'" using jobs_okD [OF ok check_end(3)] by simp
    show ?thesis
    proof (rule jobs_after_check [of r t req t0 h' data s])
      fix rest deadline
      assume a: "unwrap_or False r" "jobs (after_check t req t0 h' data r s) = (jobs s)(t := Active req t0
        (Draining (Ok (text_response CONFLICT ''Cannot override an existing record'')) rest deadline))"
      have "objects (backend (world s)) h' \<noteq> None"
        using acknowledged_okD(2) [OF ack check_end(3)] a(1) by (simp add: unwrap_or_False)
      then have "visible objects h' s'"
        using inv(1) a(1) by (intro visible_mark [where s = s]) (simp_all add: check_end(2))
      then show ?thesis using a(2) put_request_unique [OF p]
        by (intro upd) (auto simp: check_end(2))
    next
      assume "jobs (after_check t req t0 h' data r s) = (jobs s)(t := Active req t0 (Writing h' data))"
      then show ?thesis by (intro upd [where t = t and j = "Active req t0 (Writing h' data)"]) (simp_all add: check_end(2))
    qed
  next
    case (put_effect t req t0 h' data st rest m)
    then show ?thesis using store_objects [of h' "d_reader_stream d data" "machine_now s" rest m] app
      by (intro upd [where t = t and j = "Active req t0 (Written h' st rest)"]) auto
  next
    case (put_end t req t0 h' st rest)
    have p: "put_request d app req h'" using jobs_okD [OF ok put_end(3)] by simp
    show ?thesis
    proof (rule jobs_after_store [of st d t req t0 h' rest s])
      assume a: "st = Ok ()" "jobs (after_store d t req t0 h' st rest s) =
        (jobs s)(t := Finished req (closing (text_response HTTP_OK '''')) rest)"
      have "objects (backend (world s)) h' \<noteq> None"
        using acknowledged_okD(2) [OF ack put_end(3)] a(1) by simp
      then have "visible objects h' s'"
        using inv(1) a(1) by (intro visible_mark [where s = s]) (simp_all add: put_end(2))
      then show ?thesis using a(2) put_request_unique [OF p]
        by (intro upd) (auto simp: put_end(2))
    next
      assume "jobs (after_store d t req t0 h' st rest s) =
        (jobs s)(t := Finished req (closing (response_of (Err (Storage ClientAbort)))) rest)"
      then show ?thesis
        by (intro upd) (auto simp: put_end(2) status_response_of_Err)
    next
      fix e rest' deadline
      assume "jobs (after_store d t req t0 h' st rest s) =
        (jobs s)(t := Active req t0 (Draining (Err Forbidden) rest' deadline))"
      then show ?thesis
        by (intro upd) (auto simp: put_end(2) status_response_of_Err)
    qed
  next
    case (drain_end t req t0 res rest deadline)
    have not_ok: "status (response_of res) \<noteq> HTTP_OK" using jobs_okD [OF ok drain_end(3)] by simp
    have "visible objects h s'" if "settled d app h (Finished req (closing (response_of res)) rest)" for h
      using that not_ok acknowledged_okD(1) [OF ack drain_end(3), of h] vis by simp
    then show ?thesis using drain_end(2)
      by (intro upd [where t = t and j = "Finished req (closing (response_of res)) rest"]) simp_all
  next
    case (hang_up t req t0 sg)
    then show ?thesis by (intro upd [where t = t and j = "Gone req"]) simp_all
  next
    case (self_check)
    then show ?thesis using vis acknowledged_okD [OF ack refl] objects_kept [OF app step]
      by (simp add: acknowledged_ok_def)
  qed (use present in blast)+
qed

lemma reachable_acknowledged:
  assumes "storage app = provider" "axum_response_spec d" "server_reachable d app m s"
  shows "acknowledged_ok objects d app s"
proof -
  let ?P = "\<lambda>s. linked s \<and> flight_inv (probes s) \<and> jobs_ok d app s \<and> acknowledged_ok objects d app s"
  have "?P s"
    using assms(3)
  proof (rule server_reachable_inv [where P = ?P])
    show "?P (cserver_init m)"
      by (simp add: jobs_ok_init linked_init acknowledged_ok_def)
        (simp add: cserver_init_def flight_inv_init)
    show "?P s'" if "server_step d app s a s'" "?P s" for s a s'
      using that jobs_ok_step [OF assms(2)] acknowledged_step [OF assms(1,2)] linked_step
        server_step_probes flight_step_inv by metis
  qed
  then show ?thesis by simp
qed

end

section \<open>A read that arrives afterwards\<close>

fun actor :: "action \<Rightarrow> nat option" where
  "actor (Arrive t req) = Some t" | "actor (Cell_Hit t) = Some t" | "actor (Probe_Start t) = Some t"
| "actor (Head_Effect t) = Some t" | "actor (Probe_End t) = Some t" | "actor (Get_Effect t) = Some t"
| "actor (Get_End t) = Some t" | "actor (Check_Effect t) = Some t" | "actor (Check_End t) = Some t"
| "actor (Put_Effect t) = Some t" | "actor (Put_End t) = Some t" | "actor (Drain_End t) = Some t"
| "actor (Hang_Up t) = Some t" | "actor (Pass delay) = None" | "actor Self_Check = None"

lemma server_step_other:
  assumes "axum_response_spec d"
  shows "server_step d app s a s' \<Longrightarrow> actor a \<noteq> Some u \<Longrightarrow>
    jobs s' u = jobs s u \<and> tasks (probes s') u = tasks (probes s) u"
proof (induction rule: server_step.induct)
  case (arrive s t req)
  then show ?case
    by (rule_tac jobs_arrive [OF assms, of app t req s]) (simp add: tasks_arrive)
next
  case (check_end s t req t0 h data r)
  then show ?case by (rule_tac jobs_after_check [of r t req t0 h data s]) simp_all
next
  case (put_end s t req t0 h st rest)
  then show ?case by (rule_tac jobs_after_store [of st d t req t0 h rest s]) simp_all
qed (simp_all add: jobs_after tasks_drop)

fun slot_of :: "task \<Rightarrow> nat option" where
  "slot_of (Waiting k i e) = Some i"
| "slot_of (Probing k i e b) = Some i"
| "slot_of _ = None"

definition failed_since :: "(string \<Rightarrow> log_event \<Rightarrow> bool) \<Rightarrow> nat \<Rightarrow> string \<Rightarrow> 's cserver \<Rightarrow> bool" where
  "failed_since failed n h s \<longleftrightarrow> (\<exists>ev \<in> set (drop n (log (world s))). failed h ev)"

text \<open>
  A read of a key that is there: nothing it meets says "absent", and it ends with 200 unless
  a failure of the key was logged since.
\<close>

fun reads_ok :: "(nat \<Rightarrow> bool) \<Rightarrow> bool \<Rightarrow> string \<Rightarrow> task \<Rightarrow> job \<Rightarrow> bool" where
  "reads_ok good failed h st (Active req t0 (Awaiting h')) \<longleftrightarrow> h' = h \<and> (\<forall>i. slot_of st = Some i \<longrightarrow> good i)"
| "reads_ok good failed h st (Active req t0 (Headed h' r)) \<longleftrightarrow> h' = h \<and> r \<noteq> Ok False \<and> (is_ok r \<or> failed)"
| "reads_ok good failed h st (Active req t0 (Reading h')) \<longleftrightarrow> h' = h"
| "reads_ok good failed h st (Active req t0 (Was_Read h' r')) \<longleftrightarrow> h' = h \<and> (is_ok r' \<or> failed)"
| "reads_ok good failed h st (Finished req resp rest) \<longleftrightarrow> status resp = HTTP_OK \<or> failed"
| "reads_ok good failed h st (Gone req) \<longleftrightarrow> True"
| "reads_ok good failed h st _ \<longleftrightarrow> False"

lemma reads_ok_mono:
  assumes "reads_ok good failed h st j" "\<And>i. slot_of st = Some i \<Longrightarrow> good i \<Longrightarrow> good' i" "failed \<Longrightarrow> failed'"
  shows "reads_ok good' failed' h st j"
  using assms by (cases "(good, failed, h, st, j)" rule: reads_ok.cases) auto

definition reading ::
  "(string \<Rightarrow> log_event \<Rightarrow> bool) \<Rightarrow> nat \<Rightarrow> string \<Rightarrow> nat \<Rightarrow> 's cserver \<Rightarrow> bool" where
  "reading failed n h u s \<longleftrightarrow>
     n \<le> length (log (world s)) \<and>
     reads_ok (clean s) (failed_since failed n h s) h (tasks (probes s) u) (jobs s u)"

lemma failed_since_prefix:
  assumes "prefix (log (world s)) (log (world s'))" "failed_since failed n h s"
  shows "failed_since failed n h s'"
  using assms by (auto simp: failed_since_def prefix_def)

lemma failed_since_last:
  "n \<le> length l \<Longrightarrow> log (world s) = l @ [ev] \<Longrightarrow> failed h ev \<Longrightarrow> failed_since failed n h s"
  by (simp add: failed_since_def)

lemma log_finish: "prefix (log (world s)) (log (world (finish d t req t0 r rest s)))"
proof (cases r)
  case (Inl e)
  have "later (machine_now s) (error_log e (machine_now s))" by simp
  then have "prefix (log (world s)) (log (error_log e (machine_now s)))" by (simp add: later_def)
  then show ?thesis using Inl by (simp add: finish_def prefix_snoc)
qed (simp add: finish_def)

lemma log_arrive: "prefix (log (world s)) (log (world (arrive d app t req s)))"
  by (simp add: arrive_def begin_auth_def begin_cache_def begin_get_def begin_put_def Let_def log_finish
      split: route_match.split option.split sum.split prod.split)

lemma log_after:
  "prefix (log (world s)) (log (world (after_present d t req t0 h r s)))"
  "prefix (log (world s)) (log (world (after_retrieve d t req t0 r' s)))"
  "prefix (log (world s)) (log (world (after_check t req t0 h data r s)))"
  "prefix (log (world s)) (log (world (after_store d t req t0 h w rest s)))"
proof -
  have fin: "prefix (log (world s)) (log (world (finish d t req t0 r rest (s\<lparr>probes := p\<rparr>))))" for r rest p
    using log_finish [of "s\<lparr>probes := p\<rparr>"] by simp
  show "prefix (log (world s)) (log (world (after_present d t req t0 h r s)))"
    "prefix (log (world s)) (log (world (after_retrieve d t req t0 r' s)))"
    by (simp_all add: after_present_def after_retrieve_def log_finish split: sum.split)
  show "prefix (log (world s)) (log (world (after_check t req t0 h data r s)))"
    by (simp add: after_check_def)
  show "prefix (log (world s)) (log (world (after_store d t req t0 h w rest s)))"
    using log_finish [of s] fin by (simp add: after_store_def split: sum.split)
qed

context object_store
begin

lemma log_step:
  assumes "storage app = provider" "server_step d app s a s'"
  shows "prefix (log (world s)) (log (world s'))"
  using assms(2)
proof (induction rule: server_step.induct)
  case (arrive s t req)
  show ?case by (rule log_arrive)
next
  case (cell_hit s t req t0 h i e v)
  show ?case by (rule prefix_order.trans [OF _ log_after(1)]) simp
next
  case (probe_end s t req t0 h v i e b)
  show ?case by (rule prefix_order.trans [OF _ log_after(1)]) simp
next
  case (probe_fail s t req t0 h err i e b)
  show ?case by (rule prefix_order.trans [OF _ log_after(1)]) simp
next
  case (head_effect s t req t0 h i e b r m)
  then show ?case using exists_later [of h "machine_now s" r m] assms(1) by (simp add: later_def)
next
  case (get_effect s t req t0 h r' m)
  then show ?case using retrieve_later [of h "machine_now s" r' m] assms(1) by (simp add: later_def)
next
  case (check_effect s t req t0 h data r m)
  then show ?case using exists_later [of h "machine_now s" r m] assms(1) by (simp add: later_def)
next
  case (put_effect s t req t0 h data st rest m)
  then show ?case using store_later [of h "d_reader_stream d data" "machine_now s" st rest m] assms(1)
    by (simp add: later_def)
next
  case (self_check s)
  obtain r m where "exists provider PROBE_KEY (machine_now s) = (r, m)" by fastforce
  moreover from this have "prefix (log (world s)) (log m)" using exists_later by (fastforce simp: later_def)
  ultimately show ?case using assms(1) by (simp add: self_probe_once_def Let_def prefix_snoc)
qed (simp_all add: log_after log_finish)

end

context reporting_store
begin

lemma reading_step:
  assumes app: "storage app = provider" and spec: "axum_response_spec d"
    and step: "server_step d app s a s'" and inv: "flight_inv (probes s)" "linked s"
    and there: "objects (backend (world s)) h \<noteq> None" and rd: "reading failure n h u s"
  shows "reading failure n h u s'"
proof -
  have n: "n \<le> length (log (world s))" using rd by (simp add: reading_def)
  have n': "n \<le> length (log (world s'))"
    using n prefix_length_le [OF log_step [OF app step]] by simp
  have old: "reads_ok (clean s) (failed_since failure n h s) h (tasks (probes s) u) (jobs s u)"
    using rd by (simp add: reading_def)
  have grow: "failed_since failure n h s \<Longrightarrow> failed_since failure n h s'"
    by (rule failed_since_prefix [OF log_step [OF app step]])
  have good: "clean s' i" if "slot_of (tasks (probes s) u) = Some i" "clean s i" "jobs s u = Active req t0 (Awaiting h)" for i req t0
  proof -
    have "i < length (heap (probes s)) \<and> slot_key (heap (probes s) ! i) = h"
      using linkedD [OF inv(2) that(3)] flight_invD(2) [OF inv(1), of u] that(1) by auto
    then show ?thesis using clean_step [OF app spec step inv(1) _ _ there that(2)] by blast
  qed
  have "reads_ok (clean s') (failed_since failure n h s') h (tasks (probes s') u) (jobs s' u)"
  proof (cases "actor a = Some u")
    case False
    have same: "jobs s' u = jobs s u" "tasks (probes s') u = tasks (probes s) u"
      using server_step_other [OF spec step False] by simp_all
    show ?thesis
      using old good grow unfolding same
      by (cases "(clean s, failed_since failure n h s, h, tasks (probes s) u, jobs s u)" rule: reads_ok.cases)
        (auto simp: same)
  next
    case True
    from step show ?thesis
    proof (cases rule: server_step.cases)
      case (cell_hit t req t0 h' i e v)
      then have "v" using True old by (cases v) (auto simp: clean_def)
      then show ?thesis using cell_hit True old by (simp add: jobs_after)
    next
      case (probe_start t req t0 h' i e)
      then show ?thesis using True old good [of i req t0] by (auto simp: probe_start(2))
    next
      case (head_effect t req t0 h' i e b r m)
      then have h: "h' = h" using True old by simp
      have ex: "exists provider h (machine_now s) = (r, m)" using head_effect(5) app h by simp
      have "r \<noteq> Ok False" using exists_objects [OF ex] there by auto
      moreover have "is_ok r \<or> failed_since failure n h s'"
      proof (cases r)
        case (Inl err)
        then obtain ev where "log m = log (world s) @ [ev]" "failure h ev" using exists_failed ex by fastforce
        then show ?thesis using n head_effect(2) by (intro disjI2 failed_since_last) simp_all
      qed simp
      ultimately show ?thesis using head_effect True h by simp
    next
      case (probe_end t req t0 h' v i e b)
      then have "v" using True old by (cases v) auto
      then show ?thesis using probe_end True old by (simp add: jobs_after)
    next
      case (probe_fail t req t0 h' err i e b)
      then have "failed_since failure n h s" using True old by simp
      then show ?thesis using probe_fail True grow by (simp add: jobs_after)
    next
      case (get_effect t req t0 h' r' m)
      then have h: "h' = h" using True old by simp
      have rt: "retrieve provider h (machine_now s) = (r', m)" using get_effect(4) app h by simp
      have "is_ok r' \<or> failed_since failure n h s'"
      proof (cases r')
        case (Inl err)
        then obtain ev where "log m = log (world s) @ [ev]" "failure h ev"
          using retrieve_failed rt there by fastforce
        then show ?thesis using n get_effect(2) by (intro disjI2 failed_since_last) simp_all
      qed simp
      then show ?thesis using get_effect True h by simp
    next
      case (get_end t req t0 h' r')
      have "is_ok r' \<or> failed_since failure n h s" using get_end True old by simp
      then show ?thesis using get_end True grow by (cases r') (auto simp: jobs_after)
    qed (use True old in auto)
  qed
  then show ?thesis using n' by (simp add: reading_def)
qed

end

end
