(* ===== verification/Store_Steps.thy ===== *)
theory Store_Steps
  imports S3_Service
begin

text \<open>
  \<open>S3Storage::store\<close> (\<open>src/infra/aws.rs\<close>) one await at a time: a stage for each point where the
  future can be suspended, and the step from it to the next one. A step reads one part of
  the body or sends one request. The steps are shown to compute what \<open>s3_store\<close> does.
\<close>

section \<open>Stages\<close>

text \<open>
  Suspended before: the first part is read; PutObject; CreateMultipartUpload; UploadPart of a
  buffer (none when it is empty); the next part is read; AbortMultipartUpload;
  CompleteMultipartUpload. The id of its upload in a result is a history variable.
\<close>

datatype store_stage =
    Filling body
  | Putting bytes body
  | Creating bytes body nat
  | Uploading string bytes bool body nat "(32 word \<times> string) list" "32 word"
  | Refilling string body nat "(32 word \<times> string) list" "32 word"
  | Aborting string storage_error body
  | Completing string "(32 word \<times> string) list" body
  | Returned "storage_error + unit" body "string option"

text \<open>One step; \<open>None\<close> when the body never yields the next part, or there is no step left.\<close>

fun store_advance ::
  "'s s3_client \<Rightarrow> string \<Rightarrow> string \<Rightarrow> store_stage \<Rightarrow> 's machine \<Rightarrow> (store_stage \<times> 's machine) option" where
  "store_advance client bucket hash (Filling data) m =
     (case fill_part data MULTIPART_PART_SIZE hash 0 m of
        None \<Rightarrow> None
      | Some (Err e, rest, received, m1) \<Rightarrow> Some (Returned (Err e) rest None, m1)
      | Some (Ok (buffer, eof), rest, received, m1) \<Rightarrow>
          Some (if eof then Putting buffer rest else Creating buffer rest received, m1))"
| "store_advance client bucket hash (Putting buffer rest) m =
     (let (r, m1) = put_whole client bucket hash buffer m in Some (Returned r rest None, m1))"
| "store_advance client bucket hash (Creating buffer rest received) m =
     (case send (CreateMultipartUpload bucket hash) (create_multipart_upload client bucket hash) m of
        (Err e, m1) \<Rightarrow>
          Some (Returned (Err OperationFailed) rest None, log_s3_error ''multipart-create'' hash e m1)
      | (Ok None, m1) \<Rightarrow> Some (Returned (Err OperationFailed) rest None, emit (Missing_Upload_Id hash) m1)
      | (Ok (Some upload_id), m1) \<Rightarrow> Some (Uploading upload_id buffer False rest received [] 1, m1))"
| "store_advance client bucket hash (Uploading upload_id buffer eof data received completed_parts part_number) m =
     (case upload_turn client bucket hash upload_id buffer completed_parts part_number m of
        (Err e, m1) \<Rightarrow> Some (Aborting upload_id e data, m1)
      | (Ok (completed, next_number), m1) \<Rightarrow>
          Some (if eof then Completing upload_id completed data
                else Refilling upload_id data received completed next_number, m1))"
| "store_advance client bucket hash (Refilling upload_id data received completed_parts part_number) m =
     (case fill_part data MULTIPART_PART_SIZE hash received m of
        None \<Rightarrow> None
      | Some (Err e, rest, received', m1) \<Rightarrow> Some (Aborting upload_id e rest, m1)
      | Some (Ok (buffer, eof), rest, received', m1) \<Rightarrow>
          Some (Uploading upload_id buffer eof rest received' completed_parts part_number, m1))"
| "store_advance client bucket hash (Aborting upload_id e rest) m =
     Some (Returned (Err e) rest (Some upload_id), abort_upload client bucket hash upload_id m)"
| "store_advance client bucket hash (Completing upload_id completed_parts rest) m =
     (let (r, m1) = complete_upload client bucket hash upload_id completed_parts m
      in Some (Returned r rest (Some upload_id), m1))"
| "store_advance client bucket hash (Returned r rest u) m = None"

inductive store_steps ::
  "'s s3_client \<Rightarrow> string \<Rightarrow> string \<Rightarrow> store_stage \<Rightarrow> 's machine \<Rightarrow> nat \<Rightarrow> store_stage \<Rightarrow> 's machine \<Rightarrow> bool"
  for client bucket hash where
  steps_nil: "store_steps client bucket hash st m 0 st m"
| steps_cons: "store_advance client bucket hash st m = Some (st1, m1) \<Longrightarrow>
     store_steps client bucket hash st1 m1 n st2 m2 \<Longrightarrow>
     store_steps client bucket hash st m (Suc n) st2 m2"

inductive_simps store_steps_simps [simp]:
  "store_steps c b h st m 0 st' m'" "store_steps c b h st m (Suc n) st' m'"

section \<open>The steps and the whole\<close>

text \<open>What is left of \<open>store\<close> at each stage, in terms of its loop.\<close>

definition after_loop ::
  "'s s3_client \<Rightarrow> string \<Rightarrow> string \<Rightarrow> string \<Rightarrow> 's loop_outcome
    \<Rightarrow> ((storage_error + unit) \<times> body \<times> 's machine) option" where
  "after_loop c b h u out =
     (case out of
        None \<Rightarrow> None
      | Some (Err err, rest, m) \<Rightarrow> Some (Err err, rest, abort_upload c b h u m)
      | Some (Ok cs, rest, m) \<Rightarrow> (let (r, m1) = complete_upload c b h u cs m in Some (r, rest, m1)))"

fun store_rest ::
  "'s s3_client \<Rightarrow> string \<Rightarrow> string \<Rightarrow> store_stage \<Rightarrow> 's machine
    \<Rightarrow> ((storage_error + unit) \<times> body \<times> 's machine) option" where
  "store_rest c b h (Filling data) m = s3_store c b h data m"
| "store_rest c b h (Putting buf rest) m = (let (r, m1) = put_whole c b h buf m in Some (r, rest, m1))"
| "store_rest c b h (Creating buf rest k) m =
     (case send (CreateMultipartUpload b h) (create_multipart_upload c b h) m of
        (Err e, m1) \<Rightarrow> Some (Err OperationFailed, rest, log_s3_error ''multipart-create'' h e m1)
      | (Ok None, m1) \<Rightarrow> Some (Err OperationFailed, rest, emit (Missing_Upload_Id h) m1)
      | (Ok (Some u), m1) \<Rightarrow> after_loop c b h u (upload_loop c b h u buf False rest k [] 1 m1))"
| "store_rest c b h (Uploading u buf eof data k cs pn) m =
     after_loop c b h u (upload_loop c b h u buf eof data k cs pn m)"
| "store_rest c b h (Refilling u data k cs pn) m =
     (case fill_part data MULTIPART_PART_SIZE h k m of
        None \<Rightarrow> None
      | Some (Err e, rest, k', m1) \<Rightarrow> Some (Err e, rest, abort_upload c b h u m1)
      | Some (Ok (buf, eof), rest, k', m1) \<Rightarrow>
          after_loop c b h u (upload_loop c b h u buf eof rest k' cs pn m1))"
| "store_rest c b h (Aborting u e rest) m = Some (Err e, rest, abort_upload c b h u m)"
| "store_rest c b h (Completing u cs rest) m =
     (let (r, m1) = complete_upload c b h u cs m in Some (r, rest, m1))"
| "store_rest c b h (Returned r rest u) m = Some (r, rest, m)"

lemma after_loop_simps [simp]:
  "after_loop c b h u None = None"
  "after_loop c b h u (Some (Err err, rest, m)) = Some (Err err, rest, abort_upload c b h u m)"
  "after_loop c b h u (Some (Ok cs, rest, m)) = (let (r, m1) = complete_upload c b h u cs m in Some (r, rest, m1))"
  by (simp_all add: after_loop_def)

lemma s3_store_after_loop:
  "s3_store c b h data m =
     (case fill_part data MULTIPART_PART_SIZE h 0 m of
        None \<Rightarrow> None
      | Some (Err e, rest, k, m1) \<Rightarrow> Some (Err e, rest, m1)
      | Some (Ok (buf, eof), rest, k, m1) \<Rightarrow>
          store_rest c b h (if eof then Putting buf rest else Creating buf rest k) m1)"
  by (auto simp: s3_store_def after_loop_def split: option.split sum.split prod.split)

lemma store_advance_rest:
  assumes "store_advance c b h st m = Some (st', m')"
  shows "store_rest c b h st m = store_rest c b h st' m'"
  using assms
  by (cases st)
    (auto simp: s3_store_after_loop upload_loop.simps [of c b h _ _ _ _ _ _ _ m] Let_def
      split: option.splits sum.splits prod.splits if_splits)

lemma store_advance_stuck:
  assumes "store_advance c b h st m = None"
  shows "(\<exists>r rest u. st = Returned r rest u) \<or> store_rest c b h st m = None"
  using assms
  by (cases st) (auto simp: s3_store_after_loop Let_def split: option.splits sum.splits prod.splits if_splits)

text \<open>How many steps are left at most, from the size of the unread body.\<close>

fun steps_left :: "store_stage \<Rightarrow> nat" where
  "steps_left (Filling data) = 4 * size data + 6"
| "steps_left (Putting buf rest) = 1"
| "steps_left (Creating buf rest k) = 4 * size rest + 5"
| "steps_left (Uploading u buf eof data k cs pn) = (if eof then 2 else 4 * size data + 4)"
| "steps_left (Refilling u data k cs pn) = 4 * size data + 3"
| "steps_left (Aborting u e rest) = 1"
| "steps_left (Completing u cs rest) = 1"
| "steps_left (Returned r rest u) = 0"

lemma fill_part_more:
  assumes "fill_part data MULTIPART_PART_SIZE h k m = Some (Ok (buf, False), rest, k', m')"
  shows "size rest < size data"
  using fill_part_smaller [OF assms] by simp

lemma store_advance_decreases:
  assumes "store_advance c b h st m = Some (st', m')"
  shows "steps_left st' < steps_left st"
  using assms
  by (cases st)
    (auto simp: Let_def split: option.splits sum.splits prod.splits if_splits dest!: fill_part_more)

lemma store_steps_bound: "store_steps c b h st m n st' m' \<Longrightarrow> n + steps_left st' \<le> steps_left st"
  by (induction rule: store_steps.induct) (auto dest: store_advance_decreases)

lemma store_steps_rest:
  "store_steps c b h st m n st' m' \<Longrightarrow> store_rest c b h st m = store_rest c b h st' m'"
  by (induction rule: store_steps.induct) (auto dest: store_advance_rest)

lemma store_steps_reach:
  assumes "store_rest c b h st m = Some (r, rest, m')"
  shows "\<exists>n u. store_steps c b h st m n (Returned r rest u) m'"
  using assms
proof (induction "steps_left st" arbitrary: st m rule: less_induct)
  case less
  show ?case
  proof (cases "store_advance c b h st m")
    case None
    then obtain u where "st = Returned r rest u" "m = m'"
      using store_advance_stuck [OF None] less.prems by auto
    then show ?thesis using steps_nil by blast
  next
    case (Some x)
    obtain st1 m1 where x: "x = (st1, m1)" by (cases x)
    note adv = Some [unfolded x]
    have "\<exists>n u. store_steps c b h st1 m1 n (Returned r rest u) m'"
      using less.hyps [OF store_advance_decreases [OF adv]] store_advance_rest [OF adv] less.prems by simp
    then show ?thesis using steps_cons [OF adv] by blast
  qed
qed

lemma store_steps_eq:
  "s3_store c b h data m = Some (r, rest, m') \<longleftrightarrow>
     (\<exists>n u. store_steps c b h (Filling data) m n (Returned r rest u) m')"
proof
  assume "s3_store c b h data m = Some (r, rest, m')"
  then show "\<exists>n u. store_steps c b h (Filling data) m n (Returned r rest u) m'"
    by (intro store_steps_reach) simp
next
  assume "\<exists>n u. store_steps c b h (Filling data) m n (Returned r rest u) m'"
  then show "s3_store c b h data m = Some (r, rest, m')"
    using store_steps_rest by fastforce
qed

end
