(* ===== verification/Store_Pool.thy ===== *)
theory Store_Pool
  imports Store_Steps Object_Store
begin

text \<open>
  Many calls of \<open>S3Storage::store\<close> at once (\<open>src/infra/aws.rs\<close>), interleaved at every await:
  their requests to S3 alternate in any order with each other and with reads, and a call can
  be dropped wherever it is suspended (its connection is gone, or the process ends). The
  request a dropped call was waiting for may still reach S3 later.

  The calls are shown to be atomic: the pool of calls refines a specification in which a
  call takes effect once, whole, at one instant before it returns.
\<close>

section \<open>State\<close>

datatype store_job =
    Not_Called
  | Running string body store_stage
  | Dropped string body store_stage
  | Buried string body store_stage

record 's pool =
  pool_world :: "'s machine"
  stores :: "nat \<Rightarrow> store_job"

definition pool_init :: "'s machine \<Rightarrow> 's pool" where
  "pool_init m = \<lparr>pool_world = m, stores = (\<lambda>_. Not_Called)\<rparr>"

definition set_store :: "nat \<Rightarrow> store_job \<Rightarrow> 's pool \<Rightarrow> 's pool" where
  "set_store t j p = p\<lparr>stores := (stores p)(t := j)\<rparr>"

text \<open>The time a step takes passes for all of them together: it is the \<open>Delay\<close>s around it.\<close>

definition set_world :: "'s machine \<Rightarrow> 's pool \<Rightarrow> 's pool" where
  "set_world m p = p\<lparr>pool_world := m\<lparr>clock := clock (pool_world p)\<rparr>\<rparr>"

section \<open>Steps\<close>

datatype pool_action =
    Delay duration
  | Call nat string body
  | Advance nat
  | Drop_Store nat
  | Late nat
  | Look string
  | Fetch string

fun returned :: "store_stage \<Rightarrow> bool" where
  "returned (Returned r rest u) = True"
| "returned _ = False"

fun pool_exec :: "'s s3_client \<Rightarrow> string \<Rightarrow> pool_action \<Rightarrow> 's pool \<Rightarrow> 's pool option" where
  "pool_exec client bucket (Delay delay) p = Some (p\<lparr>pool_world := elapse delay (pool_world p)\<rparr>)"
| "pool_exec client bucket (Call t hash data) p =
     (case stores p t of
        Not_Called \<Rightarrow> Some (set_store t (Running hash data (Filling data)) p)
      | _ \<Rightarrow> None)"
| "pool_exec client bucket (Advance t) p =
     (case stores p t of
        Running hash data st \<Rightarrow>
          (case store_advance client bucket hash st (pool_world p) of
             None \<Rightarrow> None
           | Some (st', m) \<Rightarrow> Some (set_store t (Running hash data st') (set_world m p)))
      | _ \<Rightarrow> None)"
| "pool_exec client bucket (Drop_Store t) p =
     (case stores p t of
        Running hash data st \<Rightarrow> if returned st then None else Some (set_store t (Dropped hash data st) p)
      | _ \<Rightarrow> None)"
| "pool_exec client bucket (Late t) p =
     (case stores p t of
        Dropped hash data st \<Rightarrow>
          (case store_advance client bucket hash st (pool_world p) of
             None \<Rightarrow> None
           | Some (st', m) \<Rightarrow>
               Some (set_store t (Buried hash data st)
                 (set_world (m\<lparr>log := log (pool_world p)\<rparr>) p)))
      | _ \<Rightarrow> None)"
| "pool_exec client bucket (Look hash) p =
     (let (r, m) = s3_exists client bucket hash (pool_world p) in Some (set_world m p))"
| "pool_exec client bucket (Fetch hash) p =
     (let (r, m) = s3_retrieve client bucket hash (pool_world p) in Some (set_world m p))"

inductive pool_reachable :: "'s s3_client \<Rightarrow> string \<Rightarrow> 's machine \<Rightarrow> 's pool \<Rightarrow> bool"
  for client bucket m where
  pool_start: "pool_reachable client bucket m (pool_init m)"
| pool_step: "pool_reachable client bucket m p \<Longrightarrow> pool_exec client bucket a p = Some p' \<Longrightarrow>
     pool_reachable client bucket m p'"

fun pool_run :: "'s s3_client \<Rightarrow> string \<Rightarrow> pool_action list \<Rightarrow> 's pool \<Rightarrow> 's pool option" where
  "pool_run client bucket [] p = Some p"
| "pool_run client bucket (a # acts) p =
     (case pool_exec client bucket a p of None \<Rightarrow> None | Some p1 \<Rightarrow> pool_run client bucket acts p1)"

lemma pool_run_reachable:
  "pool_reachable c b m p \<Longrightarrow> pool_run c b acts p = Some p' \<Longrightarrow> pool_reachable c b m p'"
  by (induction acts arbitrary: p) (auto split: option.splits intro: pool_step)

lemma pool_exec_cases:
  assumes "pool_exec c b a p = Some p'"
  obtains
    (delay) d where "a = Delay d" "p' = p\<lparr>pool_world := elapse d (pool_world p)\<rparr>"
  | (call) t h data where "a = Call t h data" "stores p t = Not_Called"
      "p' = set_store t (Running h data (Filling data)) p"
  | (advance) t h data st st' m where "a = Advance t" "stores p t = Running h data st"
      "store_advance c b h st (pool_world p) = Some (st', m)"
      "p' = set_store t (Running h data st') (set_world m p)"
  | (drop) t h data st where "a = Drop_Store t" "stores p t = Running h data st" "\<not> returned st"
      "p' = set_store t (Dropped h data st) p"
  | (late) t h data st st' m where "a = Late t" "stores p t = Dropped h data st"
      "store_advance c b h st (pool_world p) = Some (st', m)"
      "p' = set_store t (Buried h data st) (set_world (m\<lparr>log := log (pool_world p)\<rparr>) p)"
  | (look) h r m where "a = Look h" "s3_exists c b h (pool_world p) = (r, m)" "p' = set_world m p"
  | (fetch) h r m where "a = Fetch h" "s3_retrieve c b h (pool_world p) = (r, m)" "p' = set_world m p"
  using assms by (cases a) (auto split: store_job.splits option.splits if_splits prod.splits)

lemma pool_simps [simp]:
  "pool_world (set_store t j p) = pool_world p" "stores (set_store t j p) = (stores p)(t := j)"
  "stores (set_world m p) = stores p" "backend (pool_world (set_world m p)) = backend m"
  "log (pool_world (set_world m p)) = log m" "calls (pool_world (set_world m p)) = calls m"
  "pool_world (pool_init m) = m" "stores (pool_init m) = (\<lambda>_. Not_Called)"
  by (simp_all add: set_store_def set_world_def pool_init_def)

section \<open>Uploads do not mix\<close>

text \<open>
  What S3 documents of multipart uploads beside each other: the id of a new upload was never
  issued before, and a request changes no upload but the one it names. \<open>issued\<close> are the ids
  given out so far. An upload that was aborted or completed with success is closed.
\<close>

definition create_separate ::
  "'s s3_client \<Rightarrow> string \<Rightarrow> ('s \<Rightarrow> bucket_uploads) \<Rightarrow> ('s \<Rightarrow> string set) \<Rightarrow> bool" where
  "create_separate c b ups issued \<longleftrightarrow>
     (\<forall>h s r d s'. create_multipart_upload c b h s = (r, d, s') \<longrightarrow>
        issued s \<subseteq> issued s' \<and> (\<forall>u \<in> issued s. ups s' u = ups s u) \<and>
        (\<forall>u. r = Ok (Some u) \<longrightarrow> u \<notin> issued s \<and> u \<in> issued s'))"

definition part_separate ::
  "'s s3_client \<Rightarrow> string \<Rightarrow> ('s \<Rightarrow> bucket_uploads) \<Rightarrow> ('s \<Rightarrow> string set) \<Rightarrow> bool" where
  "part_separate c b ups issued \<longleftrightarrow>
     (\<forall>h u n l bs s r d s'. upload_part c b h u n l bs s = (r, d, s') \<longrightarrow>
        issued s \<subseteq> issued s' \<and> (\<forall>u'. u' \<noteq> u \<longrightarrow> ups s' u' = ups s u'))"

definition close_separate ::
  "'s s3_client \<Rightarrow> string \<Rightarrow> ('s \<Rightarrow> bucket_uploads) \<Rightarrow> ('s \<Rightarrow> string set) \<Rightarrow> bool" where
  "close_separate c b ups issued \<longleftrightarrow>
     (\<forall>h u cs s r d s'. complete_multipart_upload c b h u cs s = (r, d, s') \<or>
         abort_multipart_upload c b h u s = (r, d, s') \<longrightarrow>
        issued s \<subseteq> issued s' \<and> (\<forall>u'. u' \<noteq> u \<longrightarrow> ups s' u' = ups s u') \<and>
        (r = Ok () \<longrightarrow> ups s' u = None))"

definition object_separate ::
  "'s s3_client \<Rightarrow> string \<Rightarrow> ('s \<Rightarrow> bucket_uploads) \<Rightarrow> ('s \<Rightarrow> string set) \<Rightarrow> bool" where
  "object_separate c b ups issued \<longleftrightarrow>
     (\<forall>h bs s s'. (\<exists>r d. put_object c b h bs s = (r, d, s')) \<or> (\<exists>r d. head_object c b h s = (r, d, s')) \<or>
         (\<exists>r d. get_object c b h s = (r, d, s')) \<longrightarrow> issued s \<subseteq> issued s' \<and> ups s' = ups s)"

definition uploads_separate ::
  "'s s3_client \<Rightarrow> string \<Rightarrow> ('s \<Rightarrow> bucket_uploads) \<Rightarrow> ('s \<Rightarrow> string set) \<Rightarrow> bool" where
  "uploads_separate c b ups issued \<longleftrightarrow>
     create_separate c b ups issued \<and> part_separate c b ups issued \<and>
     close_separate c b ups issued \<and> object_separate c b ups issued"

locale s3_uploads = s3_service +
  fixes issued :: "'a \<Rightarrow> string set"
  assumes separate: "uploads_separate client bucket ups issued"
begin

lemma create_keeps:
  "create_multipart_upload client bucket h s = (r, d, s') \<Longrightarrow>
     issued s \<subseteq> issued s' \<and> (\<forall>u \<in> issued s. ups s' u = ups s u) \<and>
     (\<forall>u. r = Ok (Some u) \<longrightarrow> u \<notin> issued s \<and> u \<in> issued s')"
  using separate unfolding uploads_separate_def create_separate_def by metis

lemma part_keeps:
  "upload_part client bucket h u n l bs s = (rc, d, s') \<Longrightarrow>
     issued s \<subseteq> issued s' \<and> (\<forall>u'. u' \<noteq> u \<longrightarrow> ups s' u' = ups s u')"
  using separate unfolding uploads_separate_def part_separate_def by metis

lemma close_keeps:
  "complete_multipart_upload client bucket h u cs s = (ru, d, s') \<or>
     abort_multipart_upload client bucket h u s = (ru, d, s') \<Longrightarrow>
     issued s \<subseteq> issued s' \<and> (\<forall>u'. u' \<noteq> u \<longrightarrow> ups s' u' = ups s u') \<and> (ru = Ok () \<longrightarrow> ups s' u = None)"
  using separate unfolding uploads_separate_def close_separate_def by metis

lemma object_keeps:
  "put_object client bucket h bs s = (ru, d, s') \<Longrightarrow> issued s \<subseteq> issued s' \<and> ups s' = ups s"
  "head_object client bucket h s = (ru, d, s') \<Longrightarrow> issued s \<subseteq> issued s' \<and> ups s' = ups s"
  "get_object client bucket h s = (rb, d, s') \<Longrightarrow> issued s \<subseteq> issued s' \<and> ups s' = ups s"
  using separate unfolding uploads_separate_def object_separate_def by metis+

end

end
