(* ===== verification/Store_Atomic.thy ===== *)
theory Store_Atomic
  imports Store_Pool
begin

text \<open>
  The interleaved calls of \<open>S3Storage::store\<close> are atomic. A stage knows which bytes of the body
  it holds, which the upload holds and which are still to be read (\<open>stage_holds\<close>); every
  upload has one owner; so a call writes its object in one step, whole, whatever the other
  calls do in between, and the pool of calls refines a specification without stages.
\<close>

section \<open>What a stage holds\<close>

fun stage_holds :: "bucket_uploads \<Rightarrow> string \<Rightarrow> body \<Rightarrow> store_stage \<Rightarrow> bool" where
  "stage_holds ups h data (Filling d) = (d = data)"
| "stage_holds ups h data (Putting buf rest) = (complete data \<and> buf = body_bytes data)"
| "stage_holds ups h data (Creating buf rest k) =
     (buf @ body_bytes rest = body_bytes data \<and> complete data = complete rest)"
| "stage_holds ups h data (Uploading u buf eof rest k cs pn) =
     (complete data = complete rest \<and> (eof \<longrightarrow> rest = Done) \<and>
      (\<exists>ps bs. ups u = Some (h, ps) \<and> recorded ps cs pn bs \<and> bs @ buf @ body_bytes rest = body_bytes data))"
| "stage_holds ups h data (Refilling u rest k cs pn) =
     (complete data = complete rest \<and>
      (\<exists>ps bs. ups u = Some (h, ps) \<and> recorded ps cs pn bs \<and> bs @ body_bytes rest = body_bytes data))"
| "stage_holds ups h data (Aborting u e rest) = (e = ClientAbort \<longrightarrow> \<not> complete data)"
| "stage_holds ups h data (Completing u cs rest) =
     (complete data \<and> (\<exists>ps. ups u = Some (h, ps) \<and> listed_bytes ps cs = body_bytes data))"
| "stage_holds ups h data (Returned r rest u) = True"

text \<open>What a step to a stage does to the objects.\<close>

fun stage_writes :: "string \<Rightarrow> body \<Rightarrow> store_stage \<Rightarrow> bucket_objects \<Rightarrow> bucket_objects \<Rightarrow> bool" where
  "stage_writes h data (Returned (Ok _) rest u) os os' = (complete data \<and> os' = os(h \<mapsto> body_bytes data))"
| "stage_writes h data (Returned (Err e) rest u) os os' =
     (os' = os \<and> (e = ClientAbort \<longrightarrow> \<not> complete data) \<or>
      e = OperationFailed \<and> complete data \<and> os' = os(h \<mapsto> body_bytes data))"
| "stage_writes h data st os os' = (os' = os)"

fun stage_upload :: "store_stage \<Rightarrow> string option" where
  "stage_upload (Uploading u buf eof rest k cs pn) = Some u"
| "stage_upload (Refilling u rest k cs pn) = Some u"
| "stage_upload (Aborting u e rest) = Some u"
| "stage_upload (Completing u cs rest) = Some u"
| "stage_upload (Returned r rest u) = u"
| "stage_upload _ = None"

text \<open>The upload of a returned call is closed, or the log says that closing it failed.\<close>

fun stage_settled :: "bucket_uploads \<Rightarrow> log_event list \<Rightarrow> string \<Rightarrow> store_stage \<Rightarrow> bool" where
  "stage_settled ups lg h (Returned r rest (Some u)) =
     (ups u = None \<or> (\<exists>e. S3_Failed ''multipart-abort'' h e \<in> set lg \<or> S3_Failed ''multipart-complete'' h e \<in> set lg))"
| "stage_settled ups lg h _ = True"

lemma stage_holds_ups:
  assumes "\<forall>u. stage_upload st = Some u \<longrightarrow> ups' u = ups u"
  shows "stage_holds ups' h data st = stage_holds ups h data st"
  using assms by (cases st) auto

lemma stage_settled_mono:
  assumes "\<forall>u. stage_upload st = Some u \<longrightarrow> ups' u = ups u" "set lg \<subseteq> set lg'" "stage_settled ups lg h st"
  shows "stage_settled ups' lg' h st"
  using assms by (cases "(ups, lg, h, st)" rule: stage_settled.cases) auto

section \<open>One step\<close>

lemma s3_documentedD:
  assumes "s3_documented c b objs ups"
  shows "put_object c b h bs s = (Ok (), d, s') \<Longrightarrow> objs s' = (objs s)(h \<mapsto> bs)"
    and "create_multipart_upload c b h s = (Ok (Some u), d, s') \<Longrightarrow> ups s' u = Some (h, Map.empty)"
    and "complete_multipart_upload c b h u cs s = (Ok (), d, s') \<Longrightarrow> ups s u = Some (h, ps) \<Longrightarrow>
      objs s' = (objs s)(h \<mapsto> listed_bytes ps cs)"
proof -
  note doc = assms [unfolded s3_documented_def]
  show "put_object c b h bs s = (Ok (), d, s') \<Longrightarrow> objs s' = (objs s)(h \<mapsto> bs)"
    using doc [THEN conjunct1, unfolded put_documented_def] by metis
  show "create_multipart_upload c b h s = (Ok (Some u), d, s') \<Longrightarrow> ups s' u = Some (h, Map.empty)"
    using doc [THEN conjunct2, THEN conjunct1, unfolded create_documented_def] by metis
  show "complete_multipart_upload c b h u cs s = (Ok (), d, s') \<Longrightarrow> ups s u = Some (h, ps) \<Longrightarrow>
      objs s' = (objs s)(h \<mapsto> listed_bytes ps cs)"
    using doc [THEN conjunct2, THEN conjunct2, THEN conjunct2, THEN conjunct1, unfolded complete_documented_def]
    by metis
qed

lemma fill_stage:
  assumes "fill_part data MULTIPART_PART_SIZE h k m = Some (r, rest, k', m')"
  shows "backend m' = backend m"
    and "r = Ok (buf, eof) \<Longrightarrow> buf @ body_bytes rest = body_bytes data \<and> complete data = complete rest \<and>
      (eof \<longrightarrow> rest = Done)"
    and "r = Err e \<Longrightarrow> e = ClientAbort \<and> \<not> complete data"
  using fill_part_facts(1) [OF assms] fill_part_backend [OF assms] by (auto simp: fill_post_def)

lemma upload_turn_error:
  "upload_turn c b h u buf cs pn m = (Err e, m') \<Longrightarrow> e = OperationFailed"
  by (auto simp: upload_turn_def upload_one_def split: if_splits prod.splits sum.splits option.splits)

context s3_uploads
begin

text \<open>Every effect of a request on the state of the service: objects, uploads, ids.\<close>

lemma put_effect:
  assumes "put_whole client bucket h buf m = (r, m')"
  shows "r = Ok () \<and> objs (backend m') = (objs (backend m))(h \<mapsto> buf) \<or>
      r = Err OperationFailed \<and>
      (objs (backend m') = objs (backend m) \<or> objs (backend m') = (objs (backend m))(h \<mapsto> buf))"
    and "ups (backend m') = ups (backend m)" "issued (backend m) \<subseteq> issued (backend m')"
proof -
  obtain pr m1 where s: "send (PutObject bucket h buf) (put_object client bucket h buf) m = (pr, m1)" by fastforce
  obtain d where p: "put_object client bucket h buf (backend m) = (pr, d, backend m1)" using send_backend [OF s] by blast
  have m': "backend m' = backend m1" "r = (case pr of Ok _ \<Rightarrow> Ok () | Err _ \<Rightarrow> Err OperationFailed)"
    using assms s by (auto simp: put_whole_def log_s3_error_def split: sum.splits)
  show "ups (backend m') = ups (backend m)" "issued (backend m) \<subseteq> issued (backend m')"
    using object_keeps(1) [OF p] m'(1) by simp_all
  show "r = Ok () \<and> objs (backend m') = (objs (backend m))(h \<mapsto> buf) \<or>
      r = Err OperationFailed \<and>
      (objs (backend m') = objs (backend m) \<or> objs (backend m') = (objs (backend m))(h \<mapsto> buf))"
  proof (cases pr)
    case (Inl e)
    then show ?thesis using s3_failures_documentedD(1) [OF failures_documented p [unfolded Inl]] m' by simp
  next
    case (Inr v)
    then show ?thesis using s3_documentedD(1) [OF documented, of h buf "backend m" d] p m' by simp
  qed
qed

lemma create_effect:
  assumes "send (CreateMultipartUpload bucket h) (create_multipart_upload client bucket h) m = (r, m')"
  shows "objs (backend m') = objs (backend m)" "issued (backend m) \<subseteq> issued (backend m')"
    and "u \<in> issued (backend m) \<Longrightarrow> ups (backend m') u = ups (backend m) u"
    and "r = Ok (Some u) \<Longrightarrow> ups (backend m') u = Some (h, Map.empty) \<and> u \<notin> issued (backend m) \<and> u \<in> issued (backend m')"
proof -
  obtain d where c: "create_multipart_upload client bucket h (backend m) = (r, d, backend m')"
    using send_backend [OF assms] by blast
  show "objs (backend m') = objs (backend m)" by (rule s3_failures_documentedD(2) [OF failures_documented c])
  show "issued (backend m) \<subseteq> issued (backend m')"
    and "u \<in> issued (backend m) \<Longrightarrow> ups (backend m') u = ups (backend m) u"
    using create_keeps [OF c] by simp_all
  show "r = Ok (Some u) \<Longrightarrow> ups (backend m') u = Some (h, Map.empty) \<and> u \<notin> issued (backend m) \<and> u \<in> issued (backend m')"
    using create_keeps [OF c] s3_documentedD(2) [OF documented, of h "backend m" u d "backend m'"] c by simp
qed

lemma turn_effect:
  assumes "upload_turn client bucket h u buf cs pn m = (r, m')"
  shows "objs (backend m') = objs (backend m)" "issued (backend m) \<subseteq> issued (backend m')"
    and "u' \<noteq> u \<Longrightarrow> ups (backend m') u' = ups (backend m) u'"
proof -
  show "objs (backend m') = objs (backend m)" by (rule upload_turn_objects [OF failures_documented assms])
  show "issued (backend m) \<subseteq> issued (backend m')" and "u' \<noteq> u \<Longrightarrow> ups (backend m') u' = ups (backend m) u'"
  proof (atomize (full), cases "buf = []")
    case False
    obtain ur m1 where s: "send (UploadPart bucket h u pn (of_nat (length buf)) buf)
        (upload_part client bucket h u pn (of_nat (length buf)) buf) m = (ur, m1)" by fastforce
    obtain d where p: "upload_part client bucket h u pn (of_nat (length buf)) buf (backend m) = (ur, d, backend m1)"
      using send_backend [OF s] by blast
    have "backend m' = backend m1"
      using assms s False
      by (auto simp: upload_turn_def upload_one_def log_s3_error_def split: sum.splits option.splits)
    then show "issued (backend m) \<subseteq> issued (backend m') \<and> (u' \<noteq> u \<longrightarrow> ups (backend m') u' = ups (backend m) u')"
      using part_keeps [OF p] by simp
  qed (use assms in \<open>simp add: upload_turn_def\<close>)
qed

lemma complete_effect:
  assumes "complete_upload client bucket h u cs m = (r, m')"
  shows "ups (backend m) u = Some (h, ps) \<Longrightarrow>
      r = Ok () \<and> objs (backend m') = (objs (backend m))(h \<mapsto> listed_bytes ps cs) \<or>
      r = Err OperationFailed \<and>
      (objs (backend m') = objs (backend m) \<or> objs (backend m') = (objs (backend m))(h \<mapsto> listed_bytes ps cs))"
    and "issued (backend m) \<subseteq> issued (backend m')"
    and "u' \<noteq> u \<Longrightarrow> ups (backend m') u' = ups (backend m) u'"
    and "stage_settled (ups (backend m')) (log m') h (Returned r rest (Some u))"
proof -
  obtain cr m1 where s: "send (CompleteMultipartUpload bucket h u cs)
      (complete_multipart_upload client bucket h u cs) m = (cr, m1)" by fastforce
  obtain d where c: "complete_multipart_upload client bucket h u cs (backend m) = (cr, d, backend m1)"
    using send_backend [OF s] by blast
  have m': "backend m' = backend m1" "r = (case cr of Ok _ \<Rightarrow> Ok () | Err _ \<Rightarrow> Err OperationFailed)"
    "cr = Err e \<Longrightarrow> S3_Failed ''multipart-complete'' h e \<in> set (log m')" for e
    using assms s by (auto simp: complete_upload_def log_s3_error_def emit_def split: sum.splits)
  note keeps = close_keeps [OF disjI1 [OF c]]
  show "issued (backend m) \<subseteq> issued (backend m')"
    and "u' \<noteq> u \<Longrightarrow> ups (backend m') u' = ups (backend m) u'"
    using keeps m'(1) by simp_all
  show "stage_settled (ups (backend m')) (log m') h (Returned r rest (Some u))"
    using keeps m' by (cases cr) auto
  show "r = Ok () \<and> objs (backend m') = (objs (backend m))(h \<mapsto> listed_bytes ps cs) \<or>
      r = Err OperationFailed \<and>
      (objs (backend m') = objs (backend m) \<or> objs (backend m') = (objs (backend m))(h \<mapsto> listed_bytes ps cs))"
    if ps: "ups (backend m) u = Some (h, ps)"
  proof (cases cr)
    case (Inl e)
    then show ?thesis using s3_failures_documentedD(5) [OF failures_documented c [unfolded Inl] ps] m' by simp
  next
    case (Inr v)
    then show ?thesis using s3_documentedD(3) [OF documented _ ps, of cs d] c m' by simp
  qed
qed

lemma abort_effect:
  assumes "abort_upload client bucket h u m = m'"
  shows "objs (backend m') = objs (backend m)" "issued (backend m) \<subseteq> issued (backend m')"
    and "u' \<noteq> u \<Longrightarrow> ups (backend m') u' = ups (backend m) u'"
    and "stage_settled (ups (backend m')) (log m') h (Returned r rest (Some u))"
proof -
  obtain ar m1 where s: "send (AbortMultipartUpload bucket h u) (abort_multipart_upload client bucket h u) m = (ar, m1)"
    by fastforce
  obtain d where a: "abort_multipart_upload client bucket h u (backend m) = (ar, d, backend m1)"
    using send_backend [OF s] by blast
  have m': "backend m' = backend m1" "ar = Err e \<Longrightarrow> S3_Failed ''multipart-abort'' h e \<in> set (log m')" for e
    using assms s by (auto simp: abort_upload_def log_s3_error_def emit_def split: sum.splits)
  note keeps = close_keeps [OF disjI2 [OF a]]
  show "objs (backend m') = objs (backend m)"
    using s3_failures_documentedD(4) [OF failures_documented a] m'(1) by simp
  show "issued (backend m) \<subseteq> issued (backend m')"
    and "u' \<noteq> u \<Longrightarrow> ups (backend m') u' = ups (backend m) u'"
    using keeps m'(1) by simp_all
  show "stage_settled (ups (backend m')) (log m') h (Returned r rest (Some u))"
    using keeps m' by (cases ar) auto
qed

text \<open>A step writes what its stage held, and the next stage holds what is left.\<close>

lemma advance_effect:
  assumes "store_advance client bucket h st m = Some (st', m')" "stage_holds (ups (backend m)) h data st"
  shows "stage_holds (ups (backend m')) h data st' \<and> stage_writes h data st' (objs (backend m)) (objs (backend m'))"
proof (cases st)
  case (Filling d)
  then obtain r rest' k' m1 where f: "fill_part d MULTIPART_PART_SIZE h 0 m = Some (r, rest', k', m1)"
    using assms(1) by (auto split: option.splits)
  show ?thesis
  proof (cases r)
    case (Inl e)
    then show ?thesis using assms Filling f fill_stage(1,3) [OF f] by auto
  next
    case (Inr v)
    obtain buf eof where v: "v = (buf, eof)" by (cases v)
    show ?thesis using assms Filling f fill_stage(1) [OF f] fill_stage(2) [OF f Inr [unfolded v]] Inr v
      by (cases eof) auto
  qed
next
  case (Putting buf rest)
  obtain r m1 where p: "put_whole client bucket h buf m = (r, m1)" by fastforce
  show ?thesis using assms Putting p put_effect(1) [OF p] by (auto simp: Let_def)
next
  case (Creating buf rest k)
  obtain r m1 where c: "send (CreateMultipartUpload bucket h) (create_multipart_upload client bucket h) m = (r, m1)"
    by fastforce
  show ?thesis using assms Creating c create_effect(1,4) [OF c] recorded_empty
    by (auto simp: log_s3_error_def split: sum.splits option.splits)
next
  case (Uploading u buf eof rest k cs pn)
  obtain r m1 where t: "upload_turn client bucket h u buf cs pn m = (r, m1)" by fastforce
  have part: "part_documented client bucket objs ups" using documented by (simp add: s3_documented_def)
  obtain ps bs where ps: "ups (backend m) u = Some (h, ps)" "recorded ps cs pn bs"
    "bs @ buf @ body_bytes rest = body_bytes data" "complete data = complete rest" "eof \<longrightarrow> rest = Done"
    using assms(2) Uploading by auto
  show ?thesis
  proof (cases r)
    case (Inl e)
    then show ?thesis using assms(1) Uploading t turn_effect(1) [OF t] upload_turn_error [OF t [unfolded Inl]] by auto
  next
    case (Inr v)
    obtain cs1 pn1 where v: "v = (cs1, pn1)" by fastforce
    obtain ps1 where "ups (backend m1) u = Some (h, ps1)" "recorded ps1 cs1 pn1 (bs @ buf)"
      using upload_turn_recorded [OF part t [unfolded Inr v] ps(1,2)] by blast
    then show ?thesis using assms(1) Uploading t Inr v turn_effect(1) [OF t] ps(3-5)
      by (auto simp: recorded_def split: if_splits)
  qed
next
  case (Refilling u rest k cs pn)
  then obtain r rest' k' m1 where f: "fill_part rest MULTIPART_PART_SIZE h k m = Some (r, rest', k', m1)"
    using assms(1) by (auto split: option.splits)
  show ?thesis
  proof (cases r)
    case (Inl e)
    then show ?thesis using assms Refilling f fill_stage(1,3) [OF f] by auto
  next
    case (Inr v)
    obtain buf eof where v: "v = (buf, eof)" by (cases v)
    show ?thesis using assms Refilling f fill_stage(1) [OF f] fill_stage(2) [OF f Inr [unfolded v]] Inr v
      by (cases eof) auto
  qed
next
  case (Aborting u e rest)
  then show ?thesis using assms abort_effect(1) [OF refl, of h u m] by auto
next
  case (Completing u cs rest)
  obtain r m1 where c: "complete_upload client bucket h u cs m = (r, m1)" by fastforce
  show ?thesis using assms Completing c complete_effect(1) [OF c] by (auto simp: Let_def)
next
  case (Returned r rest u)
  then show ?thesis using assms by simp
qed

text \<open>A step touches no upload but its own, which is new when the step creates it.\<close>

lemma advance_uploads:
  assumes "store_advance client bucket h st m = Some (st', m')"
  shows "issued (backend m) \<subseteq> issued (backend m') \<and>
    (\<forall>u \<in> issued (backend m). stage_upload st \<noteq> Some u \<longrightarrow> ups (backend m') u = ups (backend m) u) \<and>
    (\<forall>u. stage_upload st' = Some u \<longrightarrow> stage_upload st = Some u \<or>
       u \<notin> issued (backend m) \<and> u \<in> issued (backend m')) \<and>
    stage_settled (ups (backend m')) (log m') h st'"
proof (cases st)
  case (Filling d)
  then show ?thesis using assms
    by (auto split: option.splits sum.splits prod.splits if_splits dest!: fill_part_backend)
next
  case (Putting buf rest)
  obtain r m1 where p: "put_whole client bucket h buf m = (r, m1)" by fastforce
  show ?thesis using assms Putting p put_effect(2,3) [OF p] by (auto simp: Let_def)
next
  case (Creating buf rest k)
  obtain r m1 where c: "send (CreateMultipartUpload bucket h) (create_multipart_upload client bucket h) m = (r, m1)"
    by fastforce
  show ?thesis using assms Creating c create_effect(2-4) [OF c]
    by (auto simp: log_s3_error_def split: sum.splits option.splits)
next
  case (Uploading u' buf eof rest k cs pn)
  obtain r m1 where t: "upload_turn client bucket h u' buf cs pn m = (r, m1)" by fastforce
  show ?thesis using assms Uploading t turn_effect(2,3) [OF t] by (auto split: sum.splits prod.splits if_splits)
next
  case (Refilling u' rest k cs pn)
  then show ?thesis using assms
    by (auto split: option.splits sum.splits prod.splits dest!: fill_part_backend)
next
  case (Aborting u' e rest)
  then show ?thesis using assms abort_effect(2-4) [OF refl] by auto
next
  case (Completing u' cs rest)
  obtain r m1 where c: "complete_upload client bucket h u' cs m = (r, m1)" by fastforce
  show ?thesis using assms Completing c complete_effect(2,3) [OF c] complete_effect(4) [OF c, of rest]
    by (auto simp: Let_def)
next
  case (Returned r rest u)
  then show ?thesis using assms by simp
qed

end

lemma abort_upload_later: "later m (abort_upload c b h u m)"
  by (auto simp: abort_upload_def log_s3_error_def split: prod.splits sum.splits dest: send_later intro: later_emitI)

lemma advance_later:
  assumes "store_advance c b h st m = Some (st', m')"
  shows "later m m'"
proof (cases st)
  case (Uploading u buf eof rest k cs pn)
  then show ?thesis using assms
    by (auto simp: upload_turn_def upload_one_def log_s3_error_def split: prod.splits sum.splits option.splits if_splits
        dest: send_later intro: later_emitI)
qed (use assms in \<open>auto simp: put_whole_def complete_upload_def log_s3_error_def Let_def
    split: prod.splits sum.splits option.splits if_splits
    intro: later_emitI abort_upload_later dest: send_later fill_part_facts(4)\<close>)

end
