(* ===== verification/Store_Refinement.thy ===== *)
theory Store_Refinement
  imports Store_Atomic
begin

text \<open>
  The pool of interleaved uploads refines an atomic specification: the state of the
  specification is the bucket and, per call, whether it runs, was answered or was dropped.
\<close>

section \<open>The specification\<close>

datatype call_status =
    Fresh
  | Called string body
  | Answered string body "storage_error + unit"
  | Abandoned string body
  | Forgotten string body

text \<open>
  A call takes effect once, at the step that answers it; a failed one has taken effect or
  not, and only a whole body is ever written. A dropped call may take effect once, later.
\<close>

inductive atomic_step ::
  "bucket_objects \<times> (nat \<Rightarrow> call_status) \<Rightarrow> bucket_objects \<times> (nat \<Rightarrow> call_status) \<Rightarrow> bool" where
  stutter: "atomic_step (os, S) (os, S)"
| called: "S t = Fresh \<Longrightarrow> atomic_step (os, S) (os, S(t := Called h data))"
| effective: "S t = Called h data \<Longrightarrow> complete data \<Longrightarrow>
     atomic_step (os, S) (os(h \<mapsto> body_bytes data), S(t := Answered h data (Ok ())))"
| refused: "S t = Called h data \<Longrightarrow> (e = ClientAbort \<longrightarrow> \<not> complete data) \<Longrightarrow>
     atomic_step (os, S) (os, S(t := Answered h data (Err e)))"
| unknown: "S t = Called h data \<Longrightarrow> complete data \<Longrightarrow>
     atomic_step (os, S) (os(h \<mapsto> body_bytes data), S(t := Answered h data (Err OperationFailed)))"
| abandoned: "S t = Called h data \<Longrightarrow> atomic_step (os, S) (os, S(t := Abandoned h data))"
| straggled: "S t = Abandoned h data \<Longrightarrow> complete data \<Longrightarrow>
     atomic_step (os, S) (os(h \<mapsto> body_bytes data), S(t := Forgotten h data))"
| forgotten: "S t = Abandoned h data \<Longrightarrow> atomic_step (os, S) (os, S(t := Forgotten h data))"

fun job_status :: "store_job \<Rightarrow> call_status" where
  "job_status Not_Called = Fresh"
| "job_status (Running h data (Returned r rest u)) = Answered h data r"
| "job_status (Running h data st) = Called h data"
| "job_status (Dropped h data st) = Abandoned h data"
| "job_status (Buried h data st) = Forgotten h data"

definition pool_abs ::
  "('s \<Rightarrow> bucket_objects) \<Rightarrow> 's pool \<Rightarrow> bucket_objects \<times> (nat \<Rightarrow> call_status)" where
  "pool_abs objs p = (objs (backend (pool_world p)), \<lambda>t. job_status (stores p t))"

lemma job_status_running: "\<not> returned st \<Longrightarrow> job_status (Running h data st) = Called h data"
  by (cases st) simp_all

lemma pool_abs_set_store:
  "pool_abs objs (set_store t j p) = (objs (backend (pool_world p)), (\<lambda>t. job_status (stores p t))(t := job_status j))"
  by (auto simp: pool_abs_def)

lemma called_step:
  assumes "S t = Called h data" "stage_writes h data st os os'"
  shows "atomic_step (os, S) (os', S(t := job_status (Running h data st)))"
proof (cases "returned st")
  case True
  then obtain r rest u where st: "st = Returned r rest u" by (cases st) simp_all
  show ?thesis
    using assms st effective [of S t h data os] refused [of S t h data _ os] unknown [of S t h data os]
    by (cases r) auto
next
  case False
  then have "os' = os" using assms(2) by (cases st) simp_all
  then show ?thesis using assms(1) stutter [of os S] False
    by (simp add: job_status_running fun_upd_idem)
qed

lemma abandoned_step:
  assumes "S t = Abandoned h data" "stage_writes h data st os os'"
  shows "atomic_step (os, S) (os', S(t := Forgotten h data))"
proof -
  have "os' = os \<or> complete data \<and> os' = os(h \<mapsto> body_bytes data)"
    using assms(2) by (cases "(h, data, st, os, os')" rule: stage_writes.cases) auto
  then show ?thesis using assms(1) straggled [of S t h data os] forgotten [of S t h data os] by auto
qed

text \<open>What the specification guarantees of the objects: a body that was written whole, or what
  was there at the start of a key with no acknowledged call.\<close>

fun status_call :: "call_status \<Rightarrow> (string \<times> body) option" where
  "status_call Fresh = None"
| "status_call (Called h data) = Some (h, data)"
| "status_call (Answered h data r) = Some (h, data)"
| "status_call (Abandoned h data) = Some (h, data)"
| "status_call (Forgotten h data) = Some (h, data)"

definition written :: "(nat \<Rightarrow> call_status) \<Rightarrow> string \<Rightarrow> bytes \<Rightarrow> bool" where
  "written S h bs \<longleftrightarrow> (\<exists>t data. status_call (S t) = Some (h, data) \<and> complete data \<and> bs = body_bytes data)"

definition acknowledged :: "(nat \<Rightarrow> call_status) \<Rightarrow> string \<Rightarrow> bool" where
  "acknowledged S h \<longleftrightarrow> (\<exists>t data. S t = Answered h data (Ok ()))"

definition whole_objects :: "bucket_objects \<Rightarrow> bucket_objects \<times> (nat \<Rightarrow> call_status) \<Rightarrow> bool" where
  "whole_objects os0 x \<longleftrightarrow>
     (\<forall>h. (\<forall>bs. fst x h = Some bs \<longrightarrow> written (snd x) h bs \<or> os0 h = Some bs \<and> \<not> acknowledged (snd x) h) \<and>
          (acknowledged (snd x) h \<longrightarrow> fst x h \<noteq> None))"

lemma written_upd:
  assumes "S t = Fresh \<or> status_call j = status_call (S t)"
  shows "written S h bs \<Longrightarrow> written (S(t := j)) h bs"
    and "status_call j = Some (h, data) \<Longrightarrow> complete data \<Longrightarrow> written (S(t := j)) h (body_bytes data)"
proof -
  show "written (S(t := j)) h bs" if w: "written S h bs"
  proof -
    obtain t' data where t': "status_call (S t') = Some (h, data)" "complete data" "bs = body_bytes data"
      using w unfolding written_def by blast
    have "status_call ((S(t := j)) t') = Some (h, data)" using assms t'(1) by (cases "t' = t") auto
    then show ?thesis using t'(2,3) unfolding written_def by blast
  qed
  show "status_call j = Some (h, data) \<Longrightarrow> complete data \<Longrightarrow> written (S(t := j)) h (body_bytes data)"
    unfolding written_def by (rule exI [of _ t]) auto
qed

lemma acknowledged_upd:
  "acknowledged (S(t := j)) h \<Longrightarrow> acknowledged S h \<or> (\<exists>data. j = Answered h data (Ok ()))"
  by (auto simp: acknowledged_def split: if_splits)

lemma whole_objects_keep:
  assumes "whole_objects os0 (os, S)" "S t = Fresh \<or> status_call j = status_call (S t)"
    and "\<nexists>h data. j = Answered h data (Ok ())"
  shows "whole_objects os0 (os, S(t := j))"
  using assms(1,3) written_upd(1) [where S = S and t = t and j = j, OF assms(2)] acknowledged_upd [of S t j]
  unfolding whole_objects_def fst_conv snd_conv by metis

lemma whole_objects_write:
  assumes "whole_objects os0 (os, S)" "status_call j = status_call (S t)"
    and "status_call j = Some (h, data)" "complete data"
    and "\<forall>h' data'. j = Answered h' data' (Ok ()) \<longrightarrow> h' = h"
  shows "whole_objects os0 (os(h \<mapsto> body_bytes data), S(t := j))"
  unfolding whole_objects_def fst_conv snd_conv
proof (intro allI conjI impI)
  fix k bs assume "(os(h \<mapsto> body_bytes data)) k = Some bs"
  then show "written (S(t := j)) k bs \<or> os0 k = Some bs \<and> \<not> acknowledged (S(t := j)) k"
    using assms(1,5) written_upd [where S = S and t = t and j = j, OF disjI2 [OF assms(2)]] assms(3,4) acknowledged_upd [of S t j]
    unfolding whole_objects_def fst_conv snd_conv by (cases "k = h") (auto, metis+)
next
  fix k assume "acknowledged (S(t := j)) k"
  then show "(os(h \<mapsto> body_bytes data)) k \<noteq> None"
    using assms(1,5) acknowledged_upd [of S t j]
    unfolding whole_objects_def fst_conv snd_conv by (cases "k = h") (auto, metis)
qed

lemma atomic_step_whole:
  assumes "atomic_step x y" "whole_objects os0 x"
  shows "whole_objects os0 y"
  using assms
proof (induction rule: atomic_step.induct)
  case (effective S t h data os)
  then show ?case by (intro whole_objects_write) simp_all
next
  case (unknown S t h data os)
  then show ?case by (intro whole_objects_write) simp_all
next
  case (straggled S t h data os)
  then show ?case by (intro whole_objects_write) simp_all
qed (auto intro!: whole_objects_keep)

section \<open>The invariant\<close>

fun job_upload :: "store_job \<Rightarrow> string option" where
  "job_upload (Running h data st) = stage_upload st"
| "job_upload (Dropped h data st) = stage_upload st"
| "job_upload _ = None"

fun job_holds :: "bucket_uploads \<Rightarrow> log_event list \<Rightarrow> store_job \<Rightarrow> bool" where
  "job_holds ups lg (Running h data st) = (stage_holds ups h data st \<and> stage_settled ups lg h st)"
| "job_holds ups lg (Dropped h data st) = stage_holds ups h data st"
| "job_holds ups lg _ = True"

text \<open>Every job holds what its stage says, and the upload of a job is issued and its own.\<close>

definition pool_inv :: "('s \<Rightarrow> bucket_uploads) \<Rightarrow> ('s \<Rightarrow> string set) \<Rightarrow> 's pool \<Rightarrow> bool" where
  "pool_inv ups issued p \<longleftrightarrow>
     (\<forall>t. job_holds (ups (backend (pool_world p))) (log (pool_world p)) (stores p t)) \<and>
     (\<forall>t u. job_upload (stores p t) = Some u \<longrightarrow> u \<in> issued (backend (pool_world p))) \<and>
     (\<forall>t t' u. job_upload (stores p t) = Some u \<longrightarrow> job_upload (stores p t') = Some u \<longrightarrow> t = t')"

lemma job_holds_frame:
  assumes "\<forall>u. job_upload j = Some u \<longrightarrow> ups' u = ups u" "set lg \<subseteq> set lg'" "job_holds ups lg j"
  shows "job_holds ups' lg' j"
proof (cases j)
  case (Running h data st)
  then show ?thesis
    using assms stage_holds_ups [of st ups' ups h data] stage_settled_mono [OF _ assms(2), of st ups' ups h] by simp
next
  case (Dropped h data st)
  then show ?thesis using assms stage_holds_ups [of st ups' ups h data] by simp
qed simp_all

text \<open>
  One job makes a step that leaves the uploads of the others alone, and the pool keeps its
  invariant.
\<close>

lemma pool_inv_step:
  assumes inv: "pool_inv ups issued p"
    and others: "\<forall>t' u. t' \<noteq> t \<longrightarrow> stores p' t' = stores p t'"
    and frame: "\<forall>u \<in> issued (backend (pool_world p)). job_upload (stores p t) \<noteq> Some u \<longrightarrow>
      ups (backend (pool_world p')) u = ups (backend (pool_world p)) u"
    and grows: "issued (backend (pool_world p)) \<subseteq> issued (backend (pool_world p'))"
      "set (log (pool_world p)) \<subseteq> set (log (pool_world p'))"
    and own: "job_holds (ups (backend (pool_world p'))) (log (pool_world p')) (stores p' t)"
    and new: "\<forall>u. job_upload (stores p' t) = Some u \<longrightarrow> job_upload (stores p t) = Some u \<or>
      u \<notin> issued (backend (pool_world p)) \<and> u \<in> issued (backend (pool_world p'))"
  shows "pool_inv ups issued p'"
proof -
  note inv1 = inv [unfolded pool_inv_def, THEN conjunct1, rule_format]
  note inv2 = inv [unfolded pool_inv_def, THEN conjunct2, THEN conjunct1, rule_format]
  note inv3 = inv [unfolded pool_inv_def, THEN conjunct2, THEN conjunct2, rule_format]
  have holds: "job_holds (ups (backend (pool_world p'))) (log (pool_world p')) (stores p' t')" for t'
  proof (cases "t' = t")
    case False
    have "ups (backend (pool_world p')) u = ups (backend (pool_world p)) u" if "job_upload (stores p t') = Some u" for u
      using frame inv2 [OF that] inv3 [OF that, of t] False by blast
    then show ?thesis using job_holds_frame [OF _ grows(2) inv1 [of t']] others False by simp
  qed (use own in simp)
  have issued: "u \<in> issued (backend (pool_world p'))" if "job_upload (stores p' t') = Some u" for t' u
    using that new inv2 [THEN subsetD [OF grows(1)]] others by (cases "t' = t") metis+
  have owner: "t1 = t2"
    if "job_upload (stores p' t1) = Some u" "job_upload (stores p' t2) = Some u" for t1 t2 u
  proof -
    have old: "job_upload (stores p t') = Some u \<or> t' = t \<and> u \<notin> issued (backend (pool_world p))"
      if "job_upload (stores p' t') = Some u" for t'
      using that new others by (cases "t' = t") auto
    show ?thesis using old [OF that(1)] old [OF that(2)] inv2 inv3 by blast
  qed
  show ?thesis unfolding pool_inv_def using holds issued owner by blast
qed

lemma pool_inv_read:
  assumes "pool_inv ups issued p" "stores p' = stores p"
    and "ups (backend (pool_world p')) = ups (backend (pool_world p))"
    and "issued (backend (pool_world p)) \<subseteq> issued (backend (pool_world p'))"
    and "set (log (pool_world p)) \<subseteq> set (log (pool_world p'))"
  shows "pool_inv ups issued p'"
  using assms job_holds_frame [OF _ assms(5)] unfolding pool_inv_def by (metis subsetD)

context s3_uploads
begin

lemma pool_inv_init: "pool_inv ups issued (pool_init m)"
  by (simp add: pool_inv_def)

lemma read_effect:
  "s3_exists client bucket h m = (r, m') \<Longrightarrow>
     objs (backend m') = objs (backend m) \<and> ups (backend m') = ups (backend m) \<and>
     issued (backend m) \<subseteq> issued (backend m') \<and> set (log m) \<subseteq> set (log m')"
  "s3_retrieve client bucket h m = (r', m') \<Longrightarrow>
     objs (backend m') = objs (backend m) \<and> ups (backend m') = ups (backend m) \<and>
     issued (backend m) \<subseteq> issued (backend m') \<and> set (log m) \<subseteq> set (log m')"
proof -
  assume x: "s3_exists client bucket h m = (r, m')"
  obtain hr m1 where s: "send (HeadObject bucket h) (head_object client bucket h) m = (hr, m1)" by fastforce
  obtain d where c: "head_object client bucket h (backend m) = (hr, d, backend m1)" using send_backend [OF s] by blast
  have "backend m' = backend m1 \<and> set (log m) \<subseteq> set (log m')"
    using x s send_log [OF s] by (auto simp: s3_exists_def log_s3_error_def emit_def split: sum.splits if_splits)
  then show "objs (backend m') = objs (backend m) \<and> ups (backend m') = ups (backend m) \<and>
     issued (backend m) \<subseteq> issued (backend m') \<and> set (log m) \<subseteq> set (log m')"
    using s3_exists_objects [OF documented x] object_keeps(2) [OF c] by simp
next
  assume x: "s3_retrieve client bucket h m = (r', m')"
  obtain gr m1 where s: "send (GetObject bucket h) (get_object client bucket h) m = (gr, m1)" by fastforce
  obtain d where c: "get_object client bucket h (backend m) = (gr, d, backend m1)" using send_backend [OF s] by blast
  have "backend m' = backend m1 \<and> set (log m) \<subseteq> set (log m')"
    using x s send_log [OF s] by (auto simp: s3_retrieve_def log_s3_error_def emit_def split: sum.splits if_splits)
  then show "objs (backend m') = objs (backend m) \<and> ups (backend m') = ups (backend m) \<and>
     issued (backend m) \<subseteq> issued (backend m') \<and> set (log m) \<subseteq> set (log m')"
    using s3_retrieve_objects [OF documented x] object_keeps(3) [OF c] by simp
qed

text \<open>
  Every step of the pool keeps the invariant and is a step of the specification. The two
  steps that run a request differ in what becomes of the job.
\<close>

lemma run_request:
  assumes inv: "pool_inv ups issued p" and adv: "store_advance client bucket h st (pool_world p) = Some (st', m)"
    and job: "stores p t = Running h data st \<or> stores p t = Dropped h data st"
  shows "stage_holds (ups (backend m)) h data st'"
    and "stage_writes h data st' (objs (backend (pool_world p))) (objs (backend m))"
proof -
  have "stage_holds (ups (backend (pool_world p))) h data st"
    using inv job unfolding pool_inv_def by (metis job_holds.simps(1,2))
  then show "stage_holds (ups (backend m)) h data st'"
    "stage_writes h data st' (objs (backend (pool_world p))) (objs (backend m))"
    using advance_effect [OF adv] by blast+
qed

lemma pool_step_inv:
  assumes inv: "pool_inv ups issued p" and step: "pool_exec client bucket a p = Some p'"
  shows "pool_inv ups issued p'"
  using step
proof (cases rule: pool_exec_cases)
  case (delay d)
  then show ?thesis using inv by (simp add: pool_inv_def)
next
  case (call t h data)
  then show ?thesis using inv by (intro pool_inv_step [OF inv, of t]) (auto simp: pool_inv_def)
next
  case (advance t h data st st' m)
  note up = advance_uploads [OF advance(3)]
  have "set (log (pool_world p)) \<subseteq> set (log m)"
    using advance_later [OF advance(3)] by (simp add: later_def set_mono_prefix)
  then show ?thesis
    using run_request(1) [OF inv advance(3) disjI1, OF advance(2)] advance(2,4) up
    by (intro pool_inv_step [OF inv, of t]) simp_all
next
  case (drop t h data st)
  have "job_holds (ups (backend (pool_world p))) (log (pool_world p)) (stores p t)"
    using inv by (simp add: pool_inv_def)
  then show ?thesis using drop by (intro pool_inv_step [OF inv, of t]) auto
next
  case (late t h data st st' m)
  then show ?thesis using advance_uploads [OF late(3)] by (intro pool_inv_step [OF inv, of t]) simp_all
next
  case (look h r m)
  then show ?thesis using read_effect(1) [OF look(2)] by (intro pool_inv_read [OF inv]) simp_all
next
  case (fetch h r m)
  then show ?thesis using read_effect(2) [OF fetch(2)] by (intro pool_inv_read [OF inv]) simp_all
qed

lemma pool_reachable_inv: "pool_reachable client bucket m p \<Longrightarrow> pool_inv ups issued p"
  by (induction rule: pool_reachable.induct) (use pool_inv_init pool_step_inv in blast)+

lemma pool_step_atomic:
  assumes inv: "pool_inv ups issued p" and step: "pool_exec client bucket a p = Some p'"
  shows "atomic_step (pool_abs objs p) (pool_abs objs p')"
  using step
proof (cases rule: pool_exec_cases)
  case (delay d)
  then show ?thesis by (simp add: pool_abs_def stutter)
next
  case (call t h data)
  then show ?thesis using called [of "\<lambda>t. job_status (stores p t)" t]
    unfolding call(3) pool_abs_set_store unfolding pool_abs_def by simp
next
  case (advance t h data st st' m)
  have w: "stage_writes h data st' (objs (backend (pool_world p))) (objs (backend m))"
    using run_request(2) [OF inv advance(3)] advance(2) by blast
  have "\<not> returned st" using advance(3) by (cases st) simp_all
  then have s: "job_status (stores p t) = Called h data" using advance(2) by (simp add: job_status_running)
  show ?thesis
    using w s advance(2) called_step [of "\<lambda>t. job_status (stores p t)" t h data st' "objs (backend (pool_world p))" "objs (backend m)"]
    unfolding advance(4) pool_abs_set_store unfolding pool_abs_def by simp
next
  case (drop t h data st)
  then show ?thesis using abandoned [of "\<lambda>t. job_status (stores p t)" t h data]
    unfolding drop(4) pool_abs_set_store unfolding pool_abs_def by (simp add: job_status_running)
next
  case (late t h data st st' m)
  have w: "stage_writes h data st' (objs (backend (pool_world p))) (objs (backend m))"
    using run_request(2) [OF inv late(3)] late(2) by blast
  show ?thesis
    using w late(2) abandoned_step [of "\<lambda>t. job_status (stores p t)" t h data st' "objs (backend (pool_world p))" "objs (backend m)"]
    unfolding late(4) pool_abs_set_store unfolding pool_abs_def by simp
next
  case (look h r m)
  then show ?thesis using read_effect(1) [OF look(2)] by (simp add: pool_abs_def stutter)
next
  case (fetch h r m)
  then show ?thesis using read_effect(2) [OF fetch(2)] by (simp add: pool_abs_def stutter)
qed

lemma pool_whole:
  "pool_reachable client bucket m p \<Longrightarrow> whole_objects (objs (backend m)) (pool_abs objs p)"
proof (induction rule: pool_reachable.induct)
  case pool_start
  then show ?case by (simp add: whole_objects_def pool_abs_def acknowledged_def)
next
  case (pool_step p a p')
  show ?case
    using atomic_step_whole [OF pool_step_atomic [OF pool_reachable_inv [OF pool_step(1)] pool_step(2)] pool_step(3)] .
qed

end

end
