(* ===== verification/Full_Server.thy ===== *)
theory Full_Server
  imports Server_Visibility Store_Refinement
begin

text \<open>
  The whole server with its uploads request by request: the concurrent server of
  \<open>Server_Flight\<close>, in which the \<open>store\<close> of a PUT is not one step but the steps of \<open>Store_Steps\<close>,
  interleaved with everything else the server does. A client that hangs up during an upload
  drops it at the await it is suspended in, and its last request may still reach S3.
\<close>

section \<open>State and steps\<close>

record 's fserver =
  base :: "'s cserver"
  uploads :: "nat \<Rightarrow> store_job"

definition fserver_init :: "'s machine \<Rightarrow> 's fserver" where
  "fserver_init m = \<lparr>base = cserver_init m, uploads = (\<lambda>_. Not_Called)\<rparr>"

datatype full_action =
    Plain action
  | Upload_Call nat
  | Upload_Step nat
  | Upload_Late nat

text \<open>A dropped handler drops the upload it was waiting for.\<close>

fun dropped :: "store_job \<Rightarrow> store_job" where
  "dropped (Running h data st) = (if returned st then Running h data st else Dropped h data st)"
| "dropped j = j"

fun drops :: "action \<Rightarrow> (nat \<Rightarrow> store_job) \<Rightarrow> nat \<Rightarrow> store_job" where
  "drops (Hang_Up t) ups = ups(t := dropped (ups t))"
| "drops a ups = ups"

text \<open>The one step that an upload is in \<open>Server_Flight\<close>.\<close>

fun whole_upload :: "action \<Rightarrow> bool" where
  "whole_upload (Put_Effect t) = True"
| "whole_upload a = False"

text \<open>A step of an upload on the shared world; the one that returns hands its result to the handler.\<close>

definition upload_to ::
  "nat \<Rightarrow> request \<Rightarrow> instant \<Rightarrow> string \<Rightarrow> store_stage \<Rightarrow> 's machine \<Rightarrow> 's cserver \<Rightarrow> 's cserver" where
  "upload_to t req t0 h st m s =
     (case st of
        Returned r rest u \<Rightarrow> set_stage t req t0 (Written h r rest) (s\<lparr>world := m\<rparr>)
      | _ \<Rightarrow> s\<lparr>world := m\<rparr>)"

inductive full_step ::
  "'s deps \<Rightarrow> 's app_state \<Rightarrow> 's s3_client \<Rightarrow> string \<Rightarrow> 's fserver \<Rightarrow> full_action \<Rightarrow> 's fserver \<Rightarrow> bool"
  for d app c b where
  plain: "server_step d app (base f) a s \<Longrightarrow> \<not> whole_upload a \<Longrightarrow>
     full_step d app c b f (Plain a) (f\<lparr>base := s, uploads := drops a (uploads f)\<rparr>)"
| upload_call: "jobs (base f) t = Active req t0 (Writing h data) \<Longrightarrow> uploads f t = Not_Called \<Longrightarrow>
     full_step d app c b f (Upload_Call t)
       (f\<lparr>uploads := (uploads f)(t :=
          Running h (d_reader_stream d data) (Filling (d_reader_stream d data)))\<rparr>)"
| upload_step: "jobs (base f) t = Active req t0 (Writing h data) \<Longrightarrow>
     uploads f t = Running h' stream st \<Longrightarrow>
     store_advance c b h' st (machine_now (base f)) = Some (st', m) \<Longrightarrow>
     full_step d app c b f (Upload_Step t)
       (f\<lparr>base := upload_to t req t0 h' st' m (base f), uploads := (uploads f)(t := Running h' stream st')\<rparr>)"
| upload_late: "uploads f t = Dropped h stream st \<Longrightarrow>
     store_advance c b h st (machine_now (base f)) = Some (st', m) \<Longrightarrow>
     full_step d app c b f (Upload_Late t)
       (f\<lparr>base := (base f)\<lparr>world := m\<lparr>log := log (world (base f))\<rparr>\<rparr>,
          uploads := (uploads f)(t := Buried h stream st)\<rparr>)"

inductive full_run ::
  "'s deps \<Rightarrow> 's app_state \<Rightarrow> 's s3_client \<Rightarrow> string \<Rightarrow> 's fserver \<Rightarrow> full_action list \<Rightarrow> 's fserver \<Rightarrow> bool"
  for d app c b where
  full_done: "full_run d app c b f [] f"
| full_next: "full_step d app c b f a f1 \<Longrightarrow> full_run d app c b f1 acts f2 \<Longrightarrow>
     full_run d app c b f (a # acts) f2"

inductive_simps full_run_simps [simp]:
  "full_run d app c b f [] f'" "full_run d app c b f (a # acts) f'"

definition full_reachable ::
  "'s deps \<Rightarrow> 's app_state \<Rightarrow> 's s3_client \<Rightarrow> string \<Rightarrow> 's machine \<Rightarrow> 's fserver \<Rightarrow> bool" where
  "full_reachable d app c b m f \<longleftrightarrow> (\<exists>acts. full_run d app c b (fserver_init m) acts f)"

text \<open>The steps as a function.\<close>

fun full_exec ::
  "'s deps \<Rightarrow> 's app_state \<Rightarrow> 's s3_client \<Rightarrow> string \<Rightarrow> full_action \<Rightarrow> 's fserver \<Rightarrow> 's fserver option" where
  "full_exec d app c b (Plain a) f =
     (if whole_upload a then None
      else case server_exec d app a (base f) of
             None \<Rightarrow> None
           | Some s \<Rightarrow> Some (f\<lparr>base := s, uploads := drops a (uploads f)\<rparr>))"
| "full_exec d app c b (Upload_Call t) f =
     (case (jobs (base f) t, uploads f t) of
        (Active req t0 (Writing h data), Not_Called) \<Rightarrow>
          Some (f\<lparr>uploads := (uploads f)(t :=
            Running h (d_reader_stream d data) (Filling (d_reader_stream d data)))\<rparr>)
      | _ \<Rightarrow> None)"
| "full_exec d app c b (Upload_Step t) f =
     (case (jobs (base f) t, uploads f t) of
        (Active req t0 (Writing h data), Running h' stream st) \<Rightarrow>
          (case store_advance c b h' st (machine_now (base f)) of
             None \<Rightarrow> None
           | Some (st', m) \<Rightarrow>
               Some (f\<lparr>base := upload_to t req t0 h' st' m (base f),
                       uploads := (uploads f)(t := Running h' stream st')\<rparr>))
      | _ \<Rightarrow> None)"
| "full_exec d app c b (Upload_Late t) f =
     (case uploads f t of
        Dropped h stream st \<Rightarrow>
          (case store_advance c b h st (machine_now (base f)) of
             None \<Rightarrow> None
           | Some (st', m) \<Rightarrow>
               Some (f\<lparr>base := (base f)\<lparr>world := m\<lparr>log := log (world (base f))\<rparr>\<rparr>,
                       uploads := (uploads f)(t := Buried h stream st)\<rparr>))
      | _ \<Rightarrow> None)"

fun full_exec_all ::
  "'s deps \<Rightarrow> 's app_state \<Rightarrow> 's s3_client \<Rightarrow> string \<Rightarrow> full_action list \<Rightarrow> 's fserver \<Rightarrow> 's fserver option" where
  "full_exec_all d app c b [] f = Some f"
| "full_exec_all d app c b (a # acts) f =
     (case full_exec d app c b a f of None \<Rightarrow> None | Some f1 \<Rightarrow> full_exec_all d app c b acts f1)"

lemma full_exec_sound: "full_exec d app c b a f = Some f' \<Longrightarrow> full_step d app c b f a f'"
proof (cases a)
  case (Plain a')
  then show "full_exec d app c b a f = Some f' \<Longrightarrow> full_step d app c b f a f'"
    by (auto simp: server_exec_iff [symmetric] split: if_splits option.splits intro!: plain)
next
  case (Upload_Call t)
  then show "full_exec d app c b a f = Some f' \<Longrightarrow> full_step d app c b f a f'"
    by (auto split: job.splits stage.splits store_job.splits intro!: upload_call)
next
  case (Upload_Step t)
  then show "full_exec d app c b a f = Some f' \<Longrightarrow> full_step d app c b f a f'"
    by (auto split: job.splits stage.splits store_job.splits option.splits intro!: upload_step)
next
  case (Upload_Late t)
  then show "full_exec d app c b a f = Some f' \<Longrightarrow> full_step d app c b f a f'"
    by (auto split: store_job.splits option.splits intro!: upload_late)
qed

lemma full_exec_all_sound: "full_exec_all d app c b acts f = Some f' \<Longrightarrow> full_run d app c b f acts f'"
  by (induction acts arbitrary: f) (auto split: option.splits intro: full_exec_sound)

text \<open>An action leads from a state to at most one state, and so does a schedule.\<close>

lemma full_exec_complete: "full_step d app c b f a f' \<Longrightarrow> full_exec d app c b a f = Some f'"
  by (induction rule: full_step.induct) (simp_all add: server_exec_iff)

lemma full_exec_all_complete: "full_run d app c b f acts f' \<Longrightarrow> full_exec_all d app c b acts f = Some f'"
  by (induction rule: full_run.induct) (simp_all add: full_exec_complete)

lemma full_run_unique: "full_run d app c b f acts f1 \<Longrightarrow> full_run d app c b f acts f2 \<Longrightarrow> f1 = f2"
  using full_exec_all_complete [of d app c b f acts f1] full_exec_all_complete [of d app c b f acts f2] by simp

lemma full_run_snoc: "full_run d app c b f (acts @ [a]) f' \<longleftrightarrow> (\<exists>f1. full_run d app c b f acts f1 \<and> full_step d app c b f1 a f')"
  by (induction acts arbitrary: f) auto

end
