(* ===== verification/Full_Facts.thy ===== *)
theory Full_Facts
  imports Full_Server
begin

text \<open>
  The invariants of the whole server with interleaved uploads. Its steps are those of
  \<open>Server_Flight\<close> and those of \<open>Store_Pool\<close>, so the invariants of the one and of the other hold
  together; an upload moves the world under the other requests as one of two things: nothing
  they can see, or one whole object.
\<close>

section \<open>A step of an upload seen by the server\<close>

definition upload_moves ::
  "('s \<Rightarrow> bucket_objects) \<Rightarrow> string \<Rightarrow> body \<Rightarrow> 's cserver \<Rightarrow> 's cserver \<Rightarrow> bool" where
  "upload_moves objs h stream s s' \<longleftrightarrow>
     probes s' = probes s \<and> prefix (log (world s)) (log (world s')) \<and>
     (objs (backend (world s')) = objs (backend (world s)) \<or>
      objs (backend (world s')) = (objs (backend (world s)))(h \<mapsto> body_bytes stream)) \<and>
     (\<forall>t. jobs s' t = jobs s t \<or>
        (\<exists>req t0 data r rest. jobs s t = Active req t0 (Writing h data) \<and>
           jobs s' t = Active req t0 (Written h r rest) \<and>
           (r = Ok () \<longrightarrow> objs (backend (world s')) h \<noteq> None)))"

lemma upload_movesD:
  assumes "upload_moves objs h stream s s'"
  shows "probes s' = probes s" "prefix (log (world s)) (log (world s'))"
    and "objs (backend (world s)) k \<noteq> None \<Longrightarrow> objs (backend (world s')) k \<noteq> None"
    and "objs (backend (world s')) k = Some bs \<Longrightarrow>
      objs (backend (world s)) k = Some bs \<or> k = h \<and> bs = body_bytes stream"
    and "jobs s' t = jobs s t \<or>
      (\<exists>req t0 data r rest. jobs s t = Active req t0 (Writing h data) \<and>
         jobs s' t = Active req t0 (Written h r rest) \<and> (r = Ok () \<longrightarrow> objs (backend (world s')) h \<noteq> None))"
proof -
  note m = assms [unfolded upload_moves_def]
  show "probes s' = probes s" "prefix (log (world s)) (log (world s'))"
    "jobs s' t = jobs s t \<or>
      (\<exists>req t0 data r rest. jobs s t = Active req t0 (Writing h data) \<and>
         jobs s' t = Active req t0 (Written h r rest) \<and> (r = Ok () \<longrightarrow> objs (backend (world s')) h \<noteq> None))"
    using m by blast+
  have "objs (backend (world s')) = objs (backend (world s)) \<or>
      objs (backend (world s')) = (objs (backend (world s)))(h \<mapsto> body_bytes stream)"
    using m by blast
  then show "objs (backend (world s)) k \<noteq> None \<Longrightarrow> objs (backend (world s')) k \<noteq> None"
    and "objs (backend (world s')) k = Some bs \<Longrightarrow>
      objs (backend (world s)) k = Some bs \<or> k = h \<and> bs = body_bytes stream"
    by (auto split: if_splits)
qed

lemma moves_linked:
  assumes "upload_moves objs h stream s s'" "linked s"
  shows "linked s'"
  unfolding linked_def
proof
  fix t
  show "job_linked (jobs s' t) (tasks (probes s') t)"
    using upload_movesD(1) [OF assms(1)] upload_movesD(5) [OF assms(1), of t] linkedD [OF assms(2) refl, of t] by auto
qed

lemma moves_jobs_ok:
  assumes "upload_moves objs h stream s s'" "jobs_ok d app s"
  shows "jobs_ok d app s'"
  unfolding jobs_ok_def
proof
  fix t
  show "job_ok d app (jobs s' t)"
    using upload_movesD(5) [OF assms(1), of t] jobs_okD [OF assms(2) refl, of t] by auto
qed

lemma moves_job_request:
  assumes "upload_moves objs h stream s s'"
  shows "job_request (jobs s' t) = job_request (jobs s t)"
  using upload_movesD(5) [OF assms, of t] by auto

lemma moves_sourced:
  assumes "upload_moves objs h stream s s'" "sourced objs d app initial s"
    and "may_hold d app initial s h (body_bytes stream)"
  shows "sourced objs d app initial s'"
proof -
  have hold: "may_hold d app initial s' = may_hold d app initial s"
    by (intro ext) (simp add: may_hold_def moves_job_request [OF assms(1)])
  then have serve: "may_serve d app initial s' = may_serve d app initial s"
    by (intro ext) (simp add: may_serve_def)
  have job: "job_serves d app initial s' j = job_serves d app initial s j" for j
    by (cases "(d, app, initial, s, j)" rule: job_serves.cases) (simp_all add: serve)
  show ?thesis
    unfolding sourced_def hold job
  proof (intro conjI allI impI)
    show "may_hold d app initial s k bs" if "objs (backend (world s')) k = Some bs" for k bs
      using upload_movesD(4) [OF assms(1) that] sourcedD(1) [OF assms(2)] assms(3) by blast
    show "job_serves d app initial s (jobs s' t)" for t
      using upload_movesD(5) [OF assms(1), of t] sourcedD(2) [OF assms(2) refl, of t] by auto
  qed
qed

lemma moves_clean:
  assumes "upload_moves objs h stream s s'" "clean s i"
  shows "clean s' i"
proof -
  have "jobs s t = Active req t0 (Headed k r)" if "jobs s' t = Active req t0 (Headed k r)" for t req t0 k r
    using upload_movesD(5) [OF assms(1), of t] that by auto
  then show ?thesis using assms(2) unfolding clean_def upload_movesD(1) [OF assms(1)] by blast
qed

lemma moves_visible:
  "upload_moves objs h stream s s' \<Longrightarrow> visible objs k s \<Longrightarrow> visible objs k s'"
  using moves_clean upload_movesD(3) unfolding visible_def by (metis upload_movesD(1))

lemma moves_acknowledged:
  assumes "upload_moves objs h stream s s'" "acknowledged_ok objs d app s"
  shows "acknowledged_ok objs d app s'"
  unfolding acknowledged_ok_def
proof (intro allI conjI impI)
  fix t k
  note old = acknowledged_okD [OF assms(2) refl, where t = t and h = k]
  have "settled d app k (jobs s t)" if "settled d app k (jobs s' t)"
    using upload_movesD(5) [OF assms(1), of t] that by auto
  then show "visible objs k s'" if "settled d app k (jobs s' t)"
    using old(1) moves_visible [OF assms(1)] that by blast
  show "objs (backend (world s')) k \<noteq> None" if "found k (jobs s' t)"
    using upload_movesD(5) [OF assms(1), of t] that old(2) upload_movesD(3) [OF assms(1)] by auto
qed

lemma moves_reading:
  assumes "upload_moves objs h stream s s'" "reading failed n k u s"
  shows "reading failed n k u s'"
proof -
  note p = upload_movesD(1,2) [OF assms(1)]
  have old: "n \<le> length (log (world s))"
    "reads_ok (clean s) (failed_since failed n k s) k (tasks (probes s) u) (jobs s u)"
    using assms(2) by (simp_all add: reading_def)
  have "jobs s' u = jobs s u" using upload_movesD(5) [OF assms(1), of u] old(2) by auto
  then have "reads_ok (clean s') (failed_since failed n k s') k (tasks (probes s') u) (jobs s' u)"
    using reads_ok_mono [OF old(2), of "clean s'" "failed_since failed n k s'"] moves_clean [OF assms(1)]
      failed_since_prefix [OF p(2)] p(1) by simp
  then show ?thesis using old(1) prefix_length_le [OF p(2)] by (simp add: reading_def)
qed

section \<open>The pool of the server's uploads\<close>

definition upload_pool :: "'s fserver \<Rightarrow> 's pool" where
  "upload_pool f = \<lparr>pool_world = machine_now (base f), stores = uploads f\<rparr>"

lemma upload_pool_simps [simp]:
  "pool_world (upload_pool f) = machine_now (base f)" "stores (upload_pool f) = uploads f"
  by (simp_all add: upload_pool_def)

text \<open>The steps of an upload are steps of the pool.\<close>

lemma upload_pool_step:
  assumes "full_step d app c b f a f'" "\<And>a'. a \<noteq> Plain a'"
  obtains ev where "pool_exec c b ev (upload_pool f) = Some (upload_pool f')"
  using assms(1)
proof (cases rule: full_step.cases)
  case (upload_call t req t0 h data)
  then show ?thesis
    by (intro that [of "Call t h (d_reader_stream d data)"]) (simp add: set_store_def upload_pool_def)
next
  case (upload_step t req t0 h data h' stream st st' m)
  then show ?thesis
    by (intro that [of "Advance t"])
      (simp add: set_store_def set_world_def upload_pool_def upload_to_def machine_now_def split: store_stage.split)
next
  case (upload_late t h stream st st' m)
  then show ?thesis
    by (intro that [of "Late t"]) (simp add: set_store_def set_world_def upload_pool_def machine_now_def)
qed (use assms(2) in blast)

lemma pool_inv_drops:
  assumes "pool_inv ups issued p"
  shows "pool_inv ups issued (p\<lparr>stores := drops a (stores p)\<rparr>)"
proof (cases "\<exists>t. a = Hang_Up t")
  case True
  then obtain t where a: "a = Hang_Up t" ..
  have "job_holds (ups (backend (pool_world p))) (log (pool_world p)) (stores p t)"
    using assms by (simp add: pool_inv_def)
  then show ?thesis
    by (intro pool_inv_step [OF assms, where t = t])
      (cases "stores p t"; auto simp: a)+
next
  case False
  then show ?thesis using assms by (cases a) (simp_all add: pool_inv_def)
qed

section \<open>The invariant of the whole\<close>

fun store_call :: "store_job \<Rightarrow> (string \<times> body) option" where
  "store_call Not_Called = None"
| "store_call (Running h stream st) = Some (h, stream)"
| "store_call (Dropped h stream st) = Some (h, stream)"
| "store_call (Buried h stream st) = Some (h, stream)"

text \<open>Every upload is the body of a PUT that arrived with the service token, under its key.\<close>

definition uploads_authorised :: "'s deps \<Rightarrow> 's app_state \<Rightarrow> 's fserver \<Rightarrow> bool" where
  "uploads_authorised d app f \<longleftrightarrow>
     (\<forall>t h stream. store_call (uploads f t) = Some (h, stream) \<longrightarrow>
        (\<exists>put. job_request (jobs (base f) t) = Some put \<and> put_request d app put h \<and>
           stream = d_reader_stream d (req_body put)))"

lemma authorisedD:
  assumes "uploads_authorised d app f" "store_call (uploads f t) = Some (h, stream)"
  obtains put where "job_request (jobs (base f) t) = Some put" "put_request d app put h"
    "stream = d_reader_stream d (req_body put)"
  using assms unfolding uploads_authorised_def by blast

lemma authorised_same:
  assumes "uploads_authorised d app f" "\<And>t. store_call (uploads f' t) = store_call (uploads f t)"
    and "\<And>t put. job_request (jobs (base f) t) = Some put \<Longrightarrow> job_request (jobs (base f') t) = Some put"
  shows "uploads_authorised d app f'"
  using assms unfolding uploads_authorised_def by metis

lemma authorised_may_hold:
  assumes "uploads_authorised d app f" "reader_stream_spec d" "store_call (uploads f t) = Some (h, stream)"
  shows "may_hold d app initial (base f) h (body_bytes stream)"
  using assms unfolding uploads_authorised_def may_hold_def reader_stream_spec_def by metis

lemma store_call_dropped [simp]: "store_call (drops a ups t) = store_call (ups t)"
  by (cases a) (auto, cases "ups t", auto)

lemma authorised_step:
  assumes "axum_response_spec d" "uploads_authorised d app f" "jobs_ok d app (base f)" "full_step d app c b f a f'"
  shows "uploads_authorised d app f'"
  using assms(4)
proof (cases rule: full_step.cases)
  case (plain a' s)
  then show ?thesis using job_request_step [OF assms(1) plain(3)] by (intro authorised_same [OF assms(2)]) simp_all
next
  case (upload_call t req t0 h data)
  then have "put_request d app req h \<and> data = req_body req" using jobs_okD [OF assms(3)] by fastforce
  then show ?thesis using assms(2) upload_call unfolding uploads_authorised_def by auto
next
  case (upload_step t req t0 h data h' stream st st' m)
  then show ?thesis
    by (intro authorised_same [OF assms(2)]) (auto simp: upload_to_def split: store_stage.splits)
next
  case (upload_late t h stream st st' m)
  then show ?thesis by (intro authorised_same [OF assms(2)]) auto
qed

context s3_uploads
begin

lemma upload_effect:
  assumes inv: "pool_inv ups issued (upload_pool f)" and ok: "jobs_ok d app (base f)"
    and auth: "uploads_authorised d app f"
    and step: "full_step d app client bucket f a f'" "a = Upload_Step t \<or> a = Upload_Late t"
  obtains h stream where "store_call (uploads f t) = Some (h, stream)"
    "upload_moves objs h stream (base f) (base f')"
  using step(1)
proof (cases rule: full_step.cases)
  case (upload_step t' req t0 h data h' stream st st' m)
  have t: "t' = t" using step(2) upload_step(1) by simp
  have "put_request d app req h" using jobs_okD [OF ok upload_step(3)] by simp
  moreover have "store_call (uploads f t) = Some (h', stream)" using upload_step(4) t by simp
  then obtain put where "job_request (jobs (base f) t) = Some put" "put_request d app put h'"
    by (rule authorisedD [OF auth])
  ultimately have h: "h = h'" using upload_step(3) t put_request_unique by fastforce
  have w: "stage_writes h' stream st' (objs (backend (world (base f)))) (objs (backend m))"
    using run_request(2) [OF inv, of h' st st' m t' stream] upload_step(4,5) by simp
  have lg: "prefix (log (world (base f))) (log m)"
    using advance_later [OF upload_step(5)] by (simp add: later_def)
  have "upload_moves objs h' stream (base f) (base f')"
  proof (cases "returned st'")
    case True
    then obtain r rest u where "st' = Returned r rest u" by (cases st') simp_all
    then show ?thesis
      using w lg upload_step(2,3) t h unfolding upload_moves_def by (cases r) (auto simp: upload_to_def)
  next
    case False
    then show ?thesis using w lg upload_step(2) unfolding upload_moves_def
      by (cases st') (simp_all add: upload_to_def)
  qed
  then show ?thesis using that upload_step(4) t by simp
next
  case (upload_late t' h stream st st' m)
  have t: "t' = t" using step(2) upload_late(1) by simp
  have w: "stage_writes h stream st' (objs (backend (world (base f)))) (objs (backend m))"
    using run_request(2) [OF inv, of h st st' m t' stream] upload_late(3,4) by simp
  then have "upload_moves objs h stream (base f) (base f')"
    unfolding upload_moves_def upload_late(2)
    by (cases "(h, stream, st', objs (backend (world (base f))), objs (backend m))" rule: stage_writes.cases) auto
  then show ?thesis using that upload_late(3) t by simp
qed (use step(2) in auto)

text \<open>A step of the server other than of an upload leaves the uploads of S3 alone.\<close>

lemma plain_world:
  assumes app: "storage app = s3_storage client bucket" and step: "server_step d app s a s'"
    and a: "\<not> whole_upload a"
  shows "ups (backend (world s')) = ups (backend (world s)) \<and> issued (backend (world s)) \<subseteq> issued (backend (world s')) \<and>
    objs (backend (world s')) = objs (backend (world s))"
  using step a
proof (induction rule: server_step.induct)
  case (head_effect s t req t0 h i e b r m)
  then show ?case using read_effect(1) [of h "machine_now s" r m] app by (simp add: s3_storage_def)
next
  case (get_effect s t req t0 h r' m)
  then show ?case using read_effect(2) [of h "machine_now s" r' m] app by (simp add: s3_storage_def)
next
  case (check_effect s t req t0 h data r m)
  then show ?case using read_effect(1) [of h "machine_now s" r m] app by (simp add: s3_storage_def)
next
  case (self_check s)
  obtain r m where "s3_exists client bucket PROBE_KEY (machine_now s) = (r, m)" by fastforce
  then show ?case using read_effect(1) [of PROBE_KEY "machine_now s" r m] app
    by (simp add: s3_storage_def self_probe_once_def Let_def)
qed auto

lemma full_pool_inv:
  assumes app: "storage app = s3_storage client bucket" and inv: "pool_inv ups issued (upload_pool f)"
    and step: "full_step d app client bucket f a f'"
  shows "pool_inv ups issued (upload_pool f')"
proof (cases "\<exists>a'. a = Plain a'")
  case True
  from step show ?thesis
  proof (cases rule: full_step.cases)
    case (plain a' s)
    note w = plain_world [OF app plain(3,4)]
    have lg: "prefix (log (world (base f))) (log (world s))"
      by (rule object_store.log_step [OF object_store_axioms app plain(3)])
    have "pool_inv ups issued \<lparr>pool_world = machine_now s, stores = uploads f\<rparr>"
      using w lg by (intro pool_inv_read [OF inv]) (simp_all add: set_mono_prefix)
    from pool_inv_drops [OF this, of a'] show ?thesis using plain(2) by (simp add: upload_pool_def)
  qed (use True in auto)
next
  case False
  then obtain ev where "pool_exec client bucket ev (upload_pool f) = Some (upload_pool f')"
    using upload_pool_step [OF step] by blast
  then show ?thesis by (rule pool_step_inv [OF inv])
qed

end

text \<open>On the bucket and the calls of \<open>store\<close>, every step of the server is one of the specification.\<close>

lemma drops_atomic:
  "atomic_step (os, \<lambda>t. job_status (ups t)) (os, \<lambda>t. job_status (drops a ups t))"
proof (cases "\<exists>t h data st. a = Hang_Up t \<and> ups t = Running h data st \<and> \<not> returned st")
  case True
  then obtain t h data st where a: "a = Hang_Up t" "ups t = Running h data st" "\<not> returned st" by blast
  then have "(\<lambda>u. job_status (drops a ups u)) = (\<lambda>u. job_status (ups u))(t := Abandoned h data)" by auto
  then show ?thesis
    using abandoned [of "\<lambda>u. job_status (ups u)" t h data os] a by (simp add: job_status_running)
next
  case False
  have "dropped (ups t) = ups t" if "a = Hang_Up t" for t
    using False that by (cases "ups t") auto
  then have "drops a ups = ups" by (cases a) auto
  then show ?thesis using stutter by simp
qed

context s3_uploads
begin

lemma full_step_atomic:
  assumes app: "storage app = s3_storage client bucket" and inv: "pool_inv ups issued (upload_pool f)"
    and step: "full_step d app client bucket f a f'"
  shows "atomic_step (pool_abs objs (upload_pool f)) (pool_abs objs (upload_pool f'))"
proof (cases "\<exists>a'. a = Plain a'")
  case True
  from step show ?thesis
  proof (cases rule: full_step.cases)
    case (plain a' s)
    then show ?thesis
      using plain_world [OF app plain(3,4)] drops_atomic [of "objs (backend (world s))" "uploads f" a']
      by (simp add: pool_abs_def)
  qed (use True in auto)
next
  case False
  then obtain ev where "pool_exec client bucket ev (upload_pool f) = Some (upload_pool f')"
    using upload_pool_step [OF step] by blast
  then show ?thesis by (rule pool_step_atomic [OF inv])
qed

end

text \<open>All invariants together: of the tasks and the cache, of the answers and of the uploads; and,
  for a server that has its bucket to itself, of the objects.\<close>

definition member_inv ::
  "'s deps \<Rightarrow> 's app_state \<Rightarrow> ('s \<Rightarrow> bucket_objects) \<Rightarrow> ('s \<Rightarrow> bucket_uploads) \<Rightarrow> ('s \<Rightarrow> string set)
    \<Rightarrow> 's fserver \<Rightarrow> bool" where
  "member_inv d app objs ups issued f \<longleftrightarrow>
     linked (base f) \<and> flight_inv (probes (base f)) \<and> jobs_ok d app (base f) \<and>
     pool_inv ups issued (upload_pool f) \<and> uploads_authorised d app f \<and>
     acknowledged_ok objs d app (base f)"

definition full_inv ::
  "'s deps \<Rightarrow> 's app_state \<Rightarrow> ('s \<Rightarrow> bucket_objects) \<Rightarrow> ('s \<Rightarrow> bucket_uploads) \<Rightarrow> ('s \<Rightarrow> string set)
    \<Rightarrow> bucket_objects \<Rightarrow> 's fserver \<Rightarrow> bool" where
  "full_inv d app objs ups issued initial f \<longleftrightarrow>
     member_inv d app objs ups issued f \<and> sourced objs d app initial (base f)"

lemma member_invD:
  assumes "member_inv d app objs ups issued f"
  shows "linked (base f)" "flight_inv (probes (base f))" "jobs_ok d app (base f)"
    "pool_inv ups issued (upload_pool f)" "uploads_authorised d app f"
    "acknowledged_ok objs d app (base f)"
  using assms by (simp_all add: member_inv_def)

lemma full_invD:
  assumes "full_inv d app objs ups issued initial f"
  shows "member_inv d app objs ups issued f" "sourced objs d app initial (base f)"
  using assms by (simp_all add: full_inv_def)

lemma full_run_inv:
  assumes "full_run d app c b f acts f'" "P f"
    and "\<And>f a f'. full_step d app c b f a f' \<Longrightarrow> P f \<Longrightarrow> P f'"
  shows "P f'"
  using assms(1,2) by (induction rule: full_run.induct) (auto intro: assms(3))

lemma full_run_append:
  "full_run d app c b f acts1 f1 \<Longrightarrow> full_run d app c b f1 acts2 f2 \<Longrightarrow> full_run d app c b f (acts1 @ acts2) f2"
  by (induction rule: full_run.induct) (auto intro: full_run.intros)

lemma full_reachable_run:
  "full_reachable d app c b m f \<Longrightarrow> full_run d app c b f acts f' \<Longrightarrow> full_reachable d app c b m f'"
  unfolding full_reachable_def using full_run_append by blast

context s3_uploads
begin

lemma member_inv_init: "member_inv d app objs ups issued (fserver_init m)"
proof -
  have "flight_inv (probes (cserver_init m))" by (simp add: cserver_init_def flight_inv_init)
  moreover have "acknowledged_ok objs d app (cserver_init m)"
    by (simp add: acknowledged_ok_def) (simp add: cserver_init_def)
  ultimately show ?thesis
    by (simp add: member_inv_def fserver_init_def linked_init jobs_ok_init uploads_authorised_def pool_inv_def)
qed

lemma full_inv_init: "full_inv d app objs ups issued (objs (backend m)) (fserver_init m)"
proof -
  have "sourced objs d app (objs (backend m)) (cserver_init m)"
    by (simp add: sourced_def) (simp add: cserver_init_def may_hold_def)
  then show ?thesis using member_inv_init by (simp add: full_inv_def fserver_init_def)
qed

text \<open>A step is one of the server, or one of an upload, or the call of one.\<close>

lemma full_step_base:
  assumes app: "storage app = s3_storage client bucket"
    and inv: "member_inv d app objs ups issued f" and step: "full_step d app client bucket f a f'"
  obtains (server) a' where "a = Plain a'" "\<not> whole_upload a'" "server_step d app (base f) a' (base f')"
  | (upload) t h stream where "store_call (uploads f t) = Some (h, stream)"
      "upload_moves objs h stream (base f) (base f')"
  | (same) "base f' = base f"
proof (cases a)
  case (Plain a')
  from step Plain show ?thesis by (cases rule: full_step.cases) (auto intro: server)
next
  case (Upload_Call t)
  from step Upload_Call show ?thesis by (cases rule: full_step.cases) (auto intro: same)
next
  case (Upload_Step t)
  then show ?thesis
    using upload_effect [OF member_invD(4,3,5) [OF inv] step, of t] upload by blast
next
  case (Upload_Late t)
  then show ?thesis
    using upload_effect [OF member_invD(4,3,5) [OF inv] step, of t] upload by blast
qed

lemma full_step_member:
  assumes app: "storage app = s3_storage client bucket" and spec: "axum_response_spec d"
    and inv: "member_inv d app objs ups issued f" and step: "full_step d app client bucket f a f'"
  shows "member_inv d app objs ups issued f'"
proof -
  note i = member_invD [OF inv]
  have up: "pool_inv ups issued (upload_pool f')" by (rule full_pool_inv [OF app i(4) step])
  have auth: "uploads_authorised d app f'" by (rule authorised_step [OF spec i(5,3) step])
  from app inv step show ?thesis
  proof (cases rule: full_step_base)
    case (server a')
    have "flight_inv (probes (base f'))"
      using server_step_probes [OF server(3) i(1)] i(2) flight_step_inv by auto
    then show ?thesis
      using up auth linked_step [OF server(3) i(1)] jobs_ok_step [OF spec server(3) i(3)]
        acknowledged_step [OF app spec server(3) i(2,1,3,6)]
      by (simp add: member_inv_def)
  next
    case (upload t h stream)
    then show ?thesis
      using up auth i moves_linked [OF upload(2)] moves_jobs_ok [OF upload(2)]
        moves_acknowledged [OF upload(2)] upload_movesD(1) [OF upload(2)]
      by (simp add: member_inv_def)
  next
    case same
    then show ?thesis using up auth i by (simp add: member_inv_def)
  qed
qed

lemma full_step_inv:
  assumes app: "storage app = s3_storage client bucket" and specs: "axum_response_spec d" "reader_stream_spec d"
    and inv: "full_inv d app objs ups issued initial f" and step: "full_step d app client bucket f a f'"
  shows "full_inv d app objs ups issued initial f'"
proof -
  note m = full_invD(1) [OF inv] and src = full_invD(2) [OF inv]
  have "sourced objs d app initial (base f')"
    using app m step
  proof (cases rule: full_step_base)
    case (server a')
    then show ?thesis using sourced_step [OF app specs server(3) member_invD(3) [OF m] src] by simp
  next
    case (upload t h stream)
    then show ?thesis
      using moves_sourced [OF upload(2) src] authorised_may_hold [OF member_invD(5) [OF m] specs(2) upload(1)] by blast
  next
    case same
    then show ?thesis using src by simp
  qed
  then show ?thesis using full_step_member [OF app specs(1) m step] by (simp add: full_inv_def)
qed

lemma full_reachable_inv:
  assumes "storage app = s3_storage client bucket" "axum_response_spec d" "reader_stream_spec d"
    and "full_reachable d app client bucket m f"
  shows "full_inv d app objs ups issued (objs (backend m)) f"
proof -
  obtain acts where "full_run d app client bucket (fserver_init m) acts f"
    using assms(4) unfolding full_reachable_def by blast
  then show ?thesis using full_inv_init full_step_inv [OF assms(1-3)]
    by (rule full_run_inv [where P = "full_inv d app objs ups issued (objs (backend m))"])
qed

text \<open>A read that arrives when the key has been acknowledged, as in \<open>Server_Concurrency\<close>.\<close>

lemma full_step_reading:
  assumes app: "storage app = s3_storage client bucket" and spec: "axum_response_spec d"
    and inv: "member_inv d app objs ups issued f" and step: "full_step d app client bucket f a f'"
    and there: "objs (backend (world (base f))) h \<noteq> None" and rd: "reading s3_failure n h u (base f)"
  shows "objs (backend (world (base f'))) h \<noteq> None \<and> reading s3_failure n h u (base f')"
  using app inv step
proof (cases rule: full_step_base)
  case (server a')
  then show ?thesis
    using objects_kept [OF app server(3) there] reading_step [OF app spec server(3) member_invD(2,1) [OF inv] there rd]
    by simp
next
  case (upload t k stream)
  then show ?thesis using upload_movesD(3) [OF upload(2) there] moves_reading [OF upload(2) rd] by simp
next
  case same
  then show ?thesis using there rd by simp
qed

lemma full_run_reading:
  assumes "storage app = s3_storage client bucket" "axum_response_spec d"
    and "full_run d app client bucket f acts f'" "member_inv d app objs ups issued f"
    and "objs (backend (world (base f))) h \<noteq> None" "reading s3_failure n h u (base f)"
  shows "reading s3_failure n h u (base f')"
proof -
  let ?P = "\<lambda>f. member_inv d app objs ups issued f \<and> objs (backend (world (base f))) h \<noteq> None \<and>
    reading s3_failure n h u (base f)"
  have "?P f'"
    using assms(3) by (rule full_run_inv [where P = ?P])
      (use assms(4-6) full_step_member [OF assms(1,2)] full_step_reading [OF assms(1,2)] in blast)+
  then show ?thesis by blast
qed

end

end
