(* ===== verification/Cluster.thy ===== *)
theory Cluster
  imports Full_Facts
begin

text \<open>
  Several instances of the server behind a load balancer, over one bucket (the deployment
  of \<open>README.md\<close>: tasks of one service that share nothing but S3). Each member is a whole
  server of \<open>Full_Server\<close> with its own cache, its own requests and its own log; what one of
  them does to the bucket the others find there. Time passes for all of them alike.
\<close>

section \<open>State and steps\<close>

type_synonym 's cluster = "'s fserver list"

definition cluster_init :: "nat \<Rightarrow> 's machine \<Rightarrow> 's cluster" where
  "cluster_init n m = replicate n (fserver_init m)"

definition bucket_of :: "'s fserver \<Rightarrow> 's" where
  "bucket_of f = backend (world (base f))"

text \<open>A member after another one has brought the bucket to \<open>k\<close>.\<close>

definition see_bucket :: "'s \<Rightarrow> 's fserver \<Rightarrow> 's fserver" where
  "see_bucket k f = f\<lparr>base := (base f)\<lparr>world := (world (base f))\<lparr>backend := k\<rparr>\<rparr>\<rparr>"

text \<open>A member after time has passed.\<close>

definition member_wait :: "duration \<Rightarrow> 's fserver \<Rightarrow> 's fserver" where
  "member_wait delay f =
     f\<lparr>base := (base f)\<lparr>probes := (probes (base f))\<lparr>now := now (probes (base f)) + delay\<rparr>\<rparr>\<rparr>"

datatype cluster_action =
    All_Wait duration
  | At nat full_action

fun passes :: "full_action \<Rightarrow> bool" where
  "passes (Plain (Pass delay)) = True"
| "passes a = False"

definition put_member :: "nat \<Rightarrow> 's fserver \<Rightarrow> 's cluster \<Rightarrow> 's cluster" where
  "put_member i f C = map (see_bucket (bucket_of f)) (C[i := f])"

inductive cluster_step ::
  "'s deps \<Rightarrow> 's app_state \<Rightarrow> 's s3_client \<Rightarrow> string \<Rightarrow> 's cluster \<Rightarrow> cluster_action \<Rightarrow> 's cluster \<Rightarrow> bool"
  for d app c b where
  all_wait: "cluster_step d app c b C (All_Wait delay) (map (member_wait delay) C)"
| at_member: "i < length C \<Longrightarrow> \<not> passes a \<Longrightarrow> full_step d app c b (C ! i) a f \<Longrightarrow>
     cluster_step d app c b C (At i a) (put_member i f C)"

inductive cluster_run ::
  "'s deps \<Rightarrow> 's app_state \<Rightarrow> 's s3_client \<Rightarrow> string \<Rightarrow> 's cluster \<Rightarrow> cluster_action list \<Rightarrow> 's cluster \<Rightarrow> bool"
  for d app c b where
  cluster_done: "cluster_run d app c b C [] C"
| cluster_next: "cluster_step d app c b C a C1 \<Longrightarrow> cluster_run d app c b C1 acts C2 \<Longrightarrow>
     cluster_run d app c b C (a # acts) C2"

inductive_simps cluster_run_simps [simp]:
  "cluster_run d app c b C [] C'" "cluster_run d app c b C (a # acts) C'"

inductive_simps cluster_step_simps:
  "cluster_step d app c b C (All_Wait delay) C'" "cluster_step d app c b C (At i a) C'"

definition cluster_reachable ::
  "'s deps \<Rightarrow> 's app_state \<Rightarrow> 's s3_client \<Rightarrow> string \<Rightarrow> nat \<Rightarrow> 's machine \<Rightarrow> 's cluster \<Rightarrow> bool" where
  "cluster_reachable d app c b n m C \<longleftrightarrow> (\<exists>acts. cluster_run d app c b (cluster_init n m) acts C)"

text \<open>The steps as a function.\<close>

fun cluster_exec ::
  "'s deps \<Rightarrow> 's app_state \<Rightarrow> 's s3_client \<Rightarrow> string \<Rightarrow> cluster_action \<Rightarrow> 's cluster \<Rightarrow> 's cluster option" where
  "cluster_exec d app c b (All_Wait delay) C = Some (map (member_wait delay) C)"
| "cluster_exec d app c b (At i a) C =
     (if i < length C \<and> \<not> passes a then
        (case full_exec d app c b a (C ! i) of None \<Rightarrow> None | Some f \<Rightarrow> Some (put_member i f C))
      else None)"

fun cluster_exec_all ::
  "'s deps \<Rightarrow> 's app_state \<Rightarrow> 's s3_client \<Rightarrow> string \<Rightarrow> cluster_action list \<Rightarrow> 's cluster \<Rightarrow> 's cluster option" where
  "cluster_exec_all d app c b [] C = Some C"
| "cluster_exec_all d app c b (a # acts) C =
     (case cluster_exec d app c b a C of None \<Rightarrow> None | Some C1 \<Rightarrow> cluster_exec_all d app c b acts C1)"

lemma cluster_exec_sound: "cluster_exec d app c b a C = Some C' \<Longrightarrow> cluster_step d app c b C a C'"
  by (cases a) (auto split: if_splits option.splits intro: cluster_step.intros full_exec_sound)

lemma cluster_exec_all_sound: "cluster_exec_all d app c b acts C = Some C' \<Longrightarrow> cluster_run d app c b C acts C'"
  by (induction acts arbitrary: C) (auto split: option.splits intro: cluster_exec_sound)

lemma cluster_run_append:
  "cluster_run d app c b C acts1 C1 \<Longrightarrow> cluster_run d app c b C1 acts2 C2 \<Longrightarrow>
     cluster_run d app c b C (acts1 @ acts2) C2"
  by (induction rule: cluster_run.induct) (auto intro: cluster_run.intros)

lemma cluster_reachable_run:
  "cluster_reachable d app c b n m C \<Longrightarrow> cluster_run d app c b C acts C' \<Longrightarrow> cluster_reachable d app c b n m C'"
  unfolding cluster_reachable_def using cluster_run_append by blast

lemma cluster_run_inv:
  assumes "cluster_run d app c b C acts C'" "P C"
    and "\<And>C a C'. cluster_step d app c b C a C' \<Longrightarrow> P C \<Longrightarrow> P C'"
  shows "P C'"
  using assms(1,2) by (induction rule: cluster_run.induct) (auto intro: assms(3))

section \<open>Members\<close>

lemma see_bucket_simps [simp]:
  "probes (base (see_bucket k f)) = probes (base f)" "jobs (base (see_bucket k f)) = jobs (base f)"
  "uploads (see_bucket k f) = uploads f" "bucket_of (see_bucket k f) = k"
  "log (world (base (see_bucket k f))) = log (world (base f))"
  "backend (world (base (see_bucket k f))) = k"
  by (simp_all add: see_bucket_def bucket_of_def)

lemma see_own [simp]: "see_bucket (bucket_of f) f = f"
  by (simp add: see_bucket_def bucket_of_def)

lemma member_wait_simps [simp]:
  "jobs (base (member_wait delay f)) = jobs (base f)" "world (base (member_wait delay f)) = world (base f)"
  "uploads (member_wait delay f) = uploads f" "bucket_of (member_wait delay f) = bucket_of f"
  "probes (base (member_wait delay f)) = (probes (base f))\<lparr>now := now (probes (base f)) + delay\<rparr>"
  by (simp_all add: member_wait_def bucket_of_def)

text \<open>For each member alone, time that passes is a step of its server.\<close>

lemma member_wait_step: "full_step d app c b f (Plain (Pass delay)) (member_wait delay f)"
  using full_step.plain [where a = "Pass delay" and f = f and d = d and app = app and c = c and b = b,
      OF server_step.pass [of d app "base f" delay]]
  by (simp add: member_wait_def)

lemma put_member_simps [simp]:
  "length (put_member i f C) = length C"
  "i < length C \<Longrightarrow> put_member i f C ! i = f"
  "j < length C \<Longrightarrow> j \<noteq> i \<Longrightarrow> put_member i f C ! j = see_bucket (bucket_of f) (C ! j)"
  by (simp_all add: put_member_def)

lemma cluster_step_length: "cluster_step d app c b C a C' \<Longrightarrow> length C' = length C"
  by (induction rule: cluster_step.induct) simp_all

lemma cluster_run_length: "cluster_run d app c b C acts C' \<Longrightarrow> length C' = length C"
  by (induction rule: cluster_run.induct) (simp_all add: cluster_step_length)

end
