(* ===== verification/Cluster_Facts.thy ===== *)
theory Cluster_Facts
  imports Cluster
begin

text \<open>
  The invariants of several instances over one bucket: each member keeps those of a server
  alone while the others write to its bucket, because uploads have ids of their own and
  objects are never taken away; and the objects come from the PUTs of all members.
\<close>

section \<open>A step seen from the bucket\<close>

lemma job_upload_drops: "job_upload (drops a ups t) = Some u \<Longrightarrow> job_upload (ups t) = Some u"
  by (cases a) (auto split: if_splits, cases "ups t", auto split: if_splits)

lemma machine_now_backend [simp]: "backend (machine_now s) = backend (world s)"
  by (simp add: machine_now_def)

context s3_uploads
begin

lemma full_step_uploads:
  assumes app: "storage app = s3_storage client bucket" and step: "full_step d app client bucket f a f'"
  shows "issued (bucket_of f) \<subseteq> issued (bucket_of f')"
    and "u \<in> issued (bucket_of f) \<Longrightarrow> (\<And>t. job_upload (uploads f t) \<noteq> Some u) \<Longrightarrow>
      ups (bucket_of f') u = ups (bucket_of f) u"
    and "job_upload (uploads f' t) = Some u \<Longrightarrow>
      job_upload (uploads f t) = Some u \<or> u \<notin> issued (bucket_of f)"
proof -
  have "issued (bucket_of f) \<subseteq> issued (bucket_of f') \<and>
    (\<forall>u \<in> issued (bucket_of f). (\<forall>t. job_upload (uploads f t) \<noteq> Some u) \<longrightarrow>
       ups (bucket_of f') u = ups (bucket_of f) u) \<and>
    (\<forall>t u. job_upload (uploads f' t) = Some u \<longrightarrow>
       job_upload (uploads f t) = Some u \<or> u \<notin> issued (bucket_of f))"
    using step
  proof (cases rule: full_step.cases)
    case (plain a' s)
    then show ?thesis using plain_world [OF app plain(3,4)] job_upload_drops [of a' "uploads f"]
      by (simp add: bucket_of_def)
  next
    case (upload_call t req t0 h data)
    then show ?thesis by (simp add: bucket_of_def)
  next
    case (upload_step t req t0 h data h' stream st st' m)
    have "bucket_of f' = backend m"
      by (cases st') (simp_all add: upload_step(2) bucket_of_def upload_to_def)
    moreover have "job_upload (uploads f t) = stage_upload st" using upload_step(4) by simp
    ultimately show ?thesis
      using advance_uploads [OF upload_step(5)] upload_step(2) by (simp add: bucket_of_def) metis
  next
    case (upload_late t h stream st st' m)
    have "job_upload (uploads f t) = stage_upload st" using upload_late(3) by simp
    then show ?thesis
      using advance_uploads [OF upload_late(4)] upload_late(2) by (simp add: bucket_of_def) metis
  qed
  then show "issued (bucket_of f) \<subseteq> issued (bucket_of f')"
    and "u \<in> issued (bucket_of f) \<Longrightarrow> (\<And>t. job_upload (uploads f t) \<noteq> Some u) \<Longrightarrow>
      ups (bucket_of f') u = ups (bucket_of f) u"
    and "job_upload (uploads f' t) = Some u \<Longrightarrow>
      job_upload (uploads f t) = Some u \<or> u \<notin> issued (bucket_of f)"
    by blast+
qed

lemma full_step_kept:
  assumes "storage app = s3_storage client bucket" "member_inv d app objs ups issued f"
    and "full_step d app client bucket f a f'" "objs (bucket_of f) h \<noteq> None"
  shows "objs (bucket_of f') h \<noteq> None"
  using assms(1-3)
proof (cases rule: full_step_base)
  case (server a')
  then show ?thesis using plain_world [OF assms(1) server(3,2)] assms(4) by (simp add: bucket_of_def)
next
  case (upload t k stream)
  then show ?thesis using upload_movesD(3) assms(4) by (simp add: bucket_of_def)
next
  case same
  then show ?thesis using assms(4) by (simp add: bucket_of_def)
qed

text \<open>A step writes nothing, or the whole body of a PUT that arrived with the service token.\<close>

lemma full_step_written:
  assumes app: "storage app = s3_storage client bucket" and spec: "reader_stream_spec d"
    and inv: "member_inv d app objs ups issued f" and step: "full_step d app client bucket f a f'"
    and there: "objs (bucket_of f') h = Some bs"
  obtains "objs (bucket_of f) h = Some bs"
  | t put where "job_request (jobs (base f) t) = Some put" "put_request d app put h"
      "bs = body_bytes (req_body put)"
  using app inv step
proof (cases rule: full_step_base)
  case (server a')
  then show ?thesis using that(1) plain_world [OF app server(3,2)] there by (simp add: bucket_of_def)
next
  case (upload t k stream)
  from upload_movesD(4) [OF upload(2)] there
  consider "objs (bucket_of f) h = Some bs" | "h = k" "bs = body_bytes stream" by (auto simp: bucket_of_def)
  then show ?thesis
  proof cases
    case 2
    obtain put where "job_request (jobs (base f) t) = Some put" "put_request d app put k"
      "stream = d_reader_stream d (req_body put)"
      by (rule authorisedD [OF member_invD(5) [OF inv] upload(1)])
    then show ?thesis using that(2) [of t put] 2 spec by (simp add: reader_stream_spec_def)
  qed (rule that(1))
next
  case same
  then show ?thesis using that(1) there by (simp add: bucket_of_def)
qed

lemma full_step_request:
  assumes "storage app = s3_storage client bucket" "axum_response_spec d" "member_inv d app objs ups issued f"
    and "full_step d app client bucket f a f'" "job_request (jobs (base f) t) = Some req"
  shows "job_request (jobs (base f') t) = Some req"
  using assms(1,3,4)
proof (cases rule: full_step_base)
  case (server a')
  then show ?thesis using job_request_step [OF assms(2) server(3) assms(5)] by simp
next
  case (upload u k stream)
  then show ?thesis using moves_job_request [OF upload(2)] assms(5) by simp
next
  case same
  then show ?thesis using assms(5) by simp
qed

lemma full_step_carries:
  assumes app: "storage app = s3_storage client bucket" and specs: "axum_response_spec d" "reader_stream_spec d"
    and inv: "member_inv d app objs ups issued f" and step: "full_step d app client bucket f a f'"
    and held: "\<And>h bs. objs (bucket_of f) h = Some bs \<Longrightarrow> H h bs"
    and old: "\<And>t. job_carries H d app (jobs (base f) t)"
  shows "job_carries H d app (jobs (base f') t)"
  using app inv step
proof (cases rule: full_step_base)
  case (server a')
  show ?thesis
    using held old by (intro carries_step [OF app specs server(3) member_invD(3) [OF inv]]) (simp_all add: bucket_of_def)
next
  case (upload u k stream)
  then show ?thesis using upload_movesD(5) [OF upload(2), of t] old [of t] by auto
next
  case same
  then show ?thesis using old by simp
qed

end

section \<open>A member while another one writes\<close>

lemma member_see:
  assumes inv: "member_inv d app objs ups issued f" and grows: "issued (bucket_of f) \<subseteq> issued k"
    and frame: "\<And>t u. job_upload (uploads f t) = Some u \<Longrightarrow> ups k u = ups (bucket_of f) u"
    and kept: "\<And>h. objs (bucket_of f) h \<noteq> None \<Longrightarrow> objs k h \<noteq> None"
  shows "member_inv d app objs ups issued (see_bucket k f)"
proof -
  note i = member_invD [OF inv]
  have "pool_inv ups issued (upload_pool (see_bucket k f))"
    using i(4) grows frame job_holds_frame [OF _ subset_refl] unfolding pool_inv_def
    by (simp add: bucket_of_def machine_now_def) (metis subsetD)
  moreover have "linked (base (see_bucket k f))" "jobs_ok d app (base (see_bucket k f))"
    "uploads_authorised d app (see_bucket k f)"
    using i(1,3,5) by (simp_all add: linked_def jobs_ok_def uploads_authorised_def)
  moreover have "acknowledged_ok objs d app (base (see_bucket k f))"
  proof -
    have "visible objs h (base (see_bucket k f))" if "visible objs h (base f)" for h
      using that kept [of h] by (auto simp: visible_def clean_def bucket_of_def)
    then show ?thesis using i(6) kept unfolding acknowledged_ok_def by (simp add: bucket_of_def)
  qed
  ultimately show ?thesis using i(2) by (simp add: member_inv_def)
qed

section \<open>The invariant of the cluster\<close>

text \<open>The contents a key may have: the one at the start, and the bodies of the PUTs of it that
  arrived with the service token at any member.\<close>

definition cluster_may_hold ::
  "'s deps \<Rightarrow> 's app_state \<Rightarrow> bucket_objects \<Rightarrow> 's cluster \<Rightarrow> string \<Rightarrow> bytes \<Rightarrow> bool" where
  "cluster_may_hold d app initial C h bs \<longleftrightarrow>
     initial h = Some bs \<or>
     (\<exists>i < length C. \<exists>t put. job_request (jobs (base (C ! i)) t) = Some put \<and> put_request d app put h \<and>
        bs = body_bytes (req_body put))"

definition one_bucket :: "'s cluster \<Rightarrow> bool" where
  "one_bucket C \<longleftrightarrow> (\<forall>i < length C. \<forall>j < length C. bucket_of (C ! i) = bucket_of (C ! j))"

definition own_uploads :: "'s cluster \<Rightarrow> bool" where
  "own_uploads C \<longleftrightarrow>
     (\<forall>i < length C. \<forall>j < length C. \<forall>t t' u. job_upload (uploads (C ! i) t) = Some u \<longrightarrow>
        job_upload (uploads (C ! j) t') = Some u \<longrightarrow> i = j)"

definition member_sourced ::
  "('s \<Rightarrow> bucket_objects) \<Rightarrow> 's deps \<Rightarrow> 's app_state \<Rightarrow> (string \<Rightarrow> bytes \<Rightarrow> bool) \<Rightarrow> 's fserver \<Rightarrow> bool" where
  "member_sourced objs d app H f \<longleftrightarrow>
     (\<forall>h bs. objs (bucket_of f) h = Some bs \<longrightarrow> H h bs) \<and> (\<forall>t. job_carries H d app (jobs (base f) t))"

definition cluster_inv ::
  "'s deps \<Rightarrow> 's app_state \<Rightarrow> ('s \<Rightarrow> bucket_objects) \<Rightarrow> ('s \<Rightarrow> bucket_uploads) \<Rightarrow> ('s \<Rightarrow> string set)
    \<Rightarrow> bucket_objects \<Rightarrow> 's cluster \<Rightarrow> bool" where
  "cluster_inv d app objs ups issued initial C \<longleftrightarrow>
     one_bucket C \<and> own_uploads C \<and>
     (\<forall>i < length C. member_inv d app objs ups issued (C ! i) \<and>
        member_sourced objs d app (cluster_may_hold d app initial C) (C ! i))"

lemma cluster_invD:
  assumes "cluster_inv d app objs ups issued initial C" "i < length C"
  shows "member_inv d app objs ups issued (C ! i)"
    and "member_sourced objs d app (cluster_may_hold d app initial C) (C ! i)"
    and "j < length C \<Longrightarrow> bucket_of (C ! j) = bucket_of (C ! i)"
    and "j < length C \<Longrightarrow> job_upload (uploads (C ! i) t) = Some u \<Longrightarrow>
      job_upload (uploads (C ! j) t') = Some u \<Longrightarrow> j = i"
  using assms unfolding cluster_inv_def one_bucket_def own_uploads_def by metis+

lemma cluster_may_hold_mono:
  assumes "cluster_may_hold d app initial C h bs" "length C' = length C"
    and "\<And>i t put. i < length C \<Longrightarrow> job_request (jobs (base (C ! i)) t) = Some put \<Longrightarrow>
      job_request (jobs (base (C' ! i)) t) = Some put"
  shows "cluster_may_hold d app initial C' h bs"
  using assms unfolding cluster_may_hold_def by metis

lemma member_sourced_mono:
  assumes "member_sourced objs d app H f" "\<And>h bs. H h bs \<Longrightarrow> H' h bs"
    and "bucket_of f' = bucket_of f" "jobs (base f') = jobs (base f)"
  shows "member_sourced objs d app H' f'"
  using assms job_carries_mono unfolding member_sourced_def by metis

context s3_uploads
begin

lemma cluster_inv_init:
  "cluster_inv d app objs ups issued (objs (backend m)) (cluster_init n m)"
proof -
  let ?f = "fserver_init m"
  have nth: "cluster_init n m ! i = ?f" if "i < n" for i
    using that by (simp add: cluster_init_def)
  have "job_upload (uploads ?f t) \<noteq> Some u" for t u
    by (simp add: fserver_init_def)
  moreover have "member_sourced objs d app (cluster_may_hold d app (objs (backend m)) (cluster_init n m)) ?f"
    by (simp add: member_sourced_def cluster_may_hold_def) (simp add: fserver_init_def bucket_of_def cserver_init_def)
  moreover have "length (cluster_init n m) = n" by (simp add: cluster_init_def)
  ultimately show ?thesis
    using member_inv_init by (simp add: cluster_inv_def one_bucket_def own_uploads_def nth)
qed

lemma cluster_step_inv:
  assumes app: "storage app = s3_storage client bucket" and specs: "axum_response_spec d" "reader_stream_spec d"
    and step: "cluster_step d app client bucket C a C'" and inv: "cluster_inv d app objs ups issued initial C"
  shows "cluster_inv d app objs ups issued initial C'"
  using step
proof (cases rule: cluster_step.cases)
  case (all_wait delay)
  have nth: "C' ! j = member_wait delay (C ! j)" if "j < length C" for j
    using all_wait(2) that by simp
  have len: "length C' = length C" using all_wait(2) by simp
  have hold: "cluster_may_hold d app initial C' h bs" if "cluster_may_hold d app initial C h bs" for h bs
    by (rule cluster_may_hold_mono [OF that len]) (simp add: nth)
  show ?thesis
    unfolding cluster_inv_def len
  proof (intro conjI allI impI)
    show "one_bucket C'"
      unfolding one_bucket_def len using cluster_invD(3) [OF inv] by (metis nth member_wait_simps(4))
    show "own_uploads C'"
      unfolding own_uploads_def len using cluster_invD(4) [OF inv] by (metis nth member_wait_simps(3))
    fix j assume j: "j < length C"
    show "member_inv d app objs ups issued (C' ! j)"
      unfolding nth [OF j] by (rule full_step_member [OF app specs(1) cluster_invD(1) [OF inv j] member_wait_step])
    show "member_sourced objs d app (cluster_may_hold d app initial C') (C' ! j)"
      using hold by (rule member_sourced_mono [OF cluster_invD(2) [OF inv j]]) (simp_all add: nth [OF j])
  qed
next
  case (at_member i a' f)
  note inv1 = cluster_invD [OF inv]
  note own = inv1(1) [OF at_member(3)]
  note up = full_step_uploads [OF app at_member(5)]
  have nth: "C' ! j = (if j = i then f else see_bucket (bucket_of f) (C ! j))" if "j < length C" for j
    using at_member(2,3) that by simp
  have len: "length C' = length C" using at_member(2) by simp
  have foreign: "member_inv d app objs ups issued (see_bucket (bucket_of f) (C ! j))"
    if "j < length C" "j \<noteq> i" for j
  proof (rule member_see [OF inv1(1) [OF that(1)]], unfold inv1(3) [OF at_member(3) that(1)])
    show "issued (bucket_of (C ! i)) \<subseteq> issued (bucket_of f)" by (rule up(1))
    show "ups (bucket_of f) u = ups (bucket_of (C ! i)) u" if "job_upload (uploads (C ! j) t) = Some u" for t u
    proof (rule up(2))
      show "u \<in> issued (bucket_of (C ! i))"
        using member_invD(4) [OF inv1(1) [OF \<open>j < length C\<close>]] that inv1(3) [OF at_member(3) \<open>j < length C\<close>]
        unfolding pool_inv_def by (auto simp: bucket_of_def)
      show "job_upload (uploads (C ! i) t') \<noteq> Some u" for t'
        using inv1(4) [OF at_member(3) \<open>j < length C\<close>] that \<open>j \<noteq> i\<close> by blast
    qed
    show "objs (bucket_of f) h \<noteq> None" if "objs (bucket_of (C ! i)) h \<noteq> None" for h
      by (rule full_step_kept [OF app own at_member(5) that])
  qed
  have request: "job_request (jobs (base (C' ! j)) t) = Some put"
    if "j < length C" "job_request (jobs (base (C ! j)) t) = Some put" for j t put
    using full_step_request [OF app specs(1) own at_member(5), of t put] that by (cases "j = i") (simp_all add: nth)
  have hold: "cluster_may_hold d app initial C' h bs" if "cluster_may_hold d app initial C h bs" for h bs
    using request by (intro cluster_may_hold_mono [OF that len])
  have held: "cluster_may_hold d app initial C' h bs" if there: "objs (bucket_of f) h = Some bs" for h bs
    using app specs(2) own at_member(5) there
  proof (cases rule: full_step_written)
    case 1
    then show ?thesis using inv1(2) [OF at_member(3)] hold by (simp add: member_sourced_def)
  next
    case (2 t put)
    then have "cluster_may_hold d app initial C h bs"
      using at_member(3) unfolding cluster_may_hold_def by blast
    then show ?thesis by (rule hold)
  qed
  have other_jobs: "job_carries (cluster_may_hold d app initial C') d app (jobs (base (C ! j)) t)"
    if "j < length C" for j t
  proof (rule job_carries_mono)
    show "job_carries (cluster_may_hold d app initial C) d app (jobs (base (C ! j)) t)"
      using inv1(2) [OF that] by (simp add: member_sourced_def)
  qed (rule hold)
  have jobs: "job_carries (cluster_may_hold d app initial C') d app (jobs (base f) t)" for t
  proof (rule full_step_carries [OF app specs own at_member(5)])
    show "cluster_may_hold d app initial C' h bs" if "objs (bucket_of (C ! i)) h = Some bs" for h bs
      using inv1(2) [OF at_member(3)] that by (intro hold) (simp add: member_sourced_def)
  qed (rule other_jobs [OF at_member(3)])
  have uploads: "job_upload (uploads (C ! j) t') \<noteq> Some u"
    if "j < length C" "j \<noteq> i" "job_upload (uploads f t) = Some u" for j t t' u
  proof
    assume j: "job_upload (uploads (C ! j) t') = Some u"
    then have "u \<in> issued (bucket_of (C ! i))"
      using member_invD(4) [OF inv1(1) [OF that(1)]] inv1(3) [OF at_member(3) that(1)]
      unfolding pool_inv_def by (auto simp: bucket_of_def)
    then show False using up(3) [OF that(3)] inv1(4) [OF at_member(3) that(1)] j that(2) by blast
  qed
  show ?thesis
    unfolding cluster_inv_def len
  proof (intro conjI allI impI)
    show "one_bucket C'" by (auto simp: one_bucket_def len nth)
    show "own_uploads C'"
      using uploads inv1(4) by (auto simp: own_uploads_def len nth split: if_splits)
    fix j assume j: "j < length C"
    show "member_inv d app objs ups issued (C' ! j)"
      using full_step_member [OF app specs(1) own at_member(5)] foreign [OF j] nth [OF j] by simp
    show "member_sourced objs d app (cluster_may_hold d app initial C') (C' ! j)"
      using held jobs other_jobs [OF j] nth [OF j] by (simp add: member_sourced_def)
  qed
qed

lemma cluster_reachable_inv:
  assumes "storage app = s3_storage client bucket" "axum_response_spec d" "reader_stream_spec d"
    and "cluster_reachable d app client bucket n m C"
  shows "cluster_inv d app objs ups issued (objs (backend m)) C"
proof -
  obtain acts where "cluster_run d app client bucket (cluster_init n m) acts C"
    using assms(4) unfolding cluster_reachable_def by blast
  then show ?thesis using cluster_inv_init cluster_step_inv [OF assms(1-3)]
    by (rule cluster_run_inv [where P = "cluster_inv d app objs ups issued (objs (backend m))"])
qed

end

end
