(* ===== verification/Server_Progress.thy ===== *)
theory Server_Progress
  imports Server_Visibility Store_Steps
begin

text \<open>
  Three accounts of the concurrent server: how many steps a request takes at most, that there
  is a next one, and what the access log says of the answers, whatever the interleaving.
\<close>

section \<open>Steps of a request\<close>

text \<open>The steps a request may still make, from where its task is suspended.\<close>

fun steps_due :: "job \<Rightarrow> task \<Rightarrow> nat" where
  "steps_due Unused st = 6"
| "steps_due (Active req t0 (Awaiting h)) (Probing k i e b) = 4"
| "steps_due (Active req t0 (Awaiting h)) st = 5"
| "steps_due (Active req t0 (Headed h r)) st = 3"
| "steps_due (Active req t0 (Reading h)) st = 2"
| "steps_due (Active req t0 (Was_Read h r')) st = 1"
| "steps_due (Active req t0 (Checking h data)) st = 5"
| "steps_due (Active req t0 (Checked h data r)) st = 4"
| "steps_due (Active req t0 (Writing h data)) st = 3"
| "steps_due (Active req t0 (Written h w rest)) st = 2"
| "steps_due (Active req t0 (Draining r'' rest deadline)) st = 1"
| "steps_due (Finished req resp rest) st = 0"
| "steps_due (Gone req) st = 0"

lemma steps_due_started: "started_job j \<Longrightarrow> steps_due j st \<le> 5"
  by (cases "(j, st)" rule: steps_due.cases) simp_all

lemma steps_due_zero: "steps_due j st = 0 \<longleftrightarrow> (\<exists>req resp rest. j = Finished req resp rest) \<or> (\<exists>req. j = Gone req)"
  by (cases "(j, st)" rule: steps_due.cases) simp_all

lemma steps_due_active [simp]: "0 < steps_due (Active req t0 sg) st"
  using steps_due_zero [of "Active req t0 sg" st] by auto

lemma steps_due_start_drain [simp]: "steps_due (jobs (start_drain t req t0 r b s) t) st = 1"
  using jobs_start_drain [of t req t0 r b s] by auto

lemma steps_due_after:
  "steps_due (jobs (after_present d t req t0 h r s) t) st \<le> 2"
  "steps_due (jobs (after_retrieve d t req t0 r' s) t) st = 0"
  "steps_due (jobs (after_check t req t0 h data r s) t) st \<le> 3"
  "steps_due (jobs (after_store d t req t0 h w rest s) t) st \<le> 1"
  by (auto simp: after_present_def after_retrieve_def after_check_def after_store_def split: sum.split)

lemma own_step_decreases:
  assumes "axum_response_spec d"
  shows "server_step d app s a s' \<Longrightarrow> actor a = Some t \<Longrightarrow>
    steps_due (jobs s' t) (tasks (probes s') t) < steps_due (jobs s t) (tasks (probes s) t)"
proof (induction rule: server_step.induct)
  case (arrive s t' req)
  then have t: "t' = t" "jobs s t = Unused" by simp_all
  obtain j where "jobs (arrive d app t req s) t = j" "started_job j"
    using jobs_arrive [OF assms, of app t req s] by (metis fun_upd_same)
  then show ?case using t by (simp add: le_less_trans [OF steps_due_started])
qed (auto simp: steps_due_after intro: le_less_trans [OF steps_due_after(1)] le_less_trans [OF steps_due_after(3)]
      le_less_trans [OF steps_due_after(4)])

lemma run_steps_due:
  assumes "axum_response_spec d"
  shows "server_run d app s acts s' \<Longrightarrow>
    length (filter (\<lambda>a. actor a = Some t) acts) + steps_due (jobs s' t) (tasks (probes s') t)
      \<le> steps_due (jobs s t) (tasks (probes s) t)"
proof (induction rule: server_run.induct)
  case (run_step s a s1 acts s2)
  then show ?case
    using own_step_decreases [OF assms run_step(1), of t] server_step_other [OF assms run_step(1), of t]
    by (cases "actor a = Some t") auto
qed simp

section \<open>The next step\<close>

lemma probing_job:
  assumes "linked s" "tasks (probes s) u = Probing k i e b"
  obtains req t0 where "jobs s u = Active req t0 (Awaiting k)"
  | req t0 r where "jobs s u = Active req t0 (Headed k r)"
proof -
  have "job_linked (jobs s u) (Probing k i e b)" using linkedD [OF assms(1) refl, of u] assms(2) by simp
  then show ?thesis using that
    by (cases "(jobs s u, Probing k i e b)" rule: job_linked.cases) (auto simp: job_linked.simps(4-))
qed

lemma prober_steps:
  assumes "linked s" "tasks (probes s) u = Probing k i e b"
  shows "\<exists>s'. server_step d app s (Head_Effect u) s' \<or> server_step d app s (Probe_End u) s'"
  using assms
proof (cases rule: probing_job)
  case (1 req t0)
  obtain r m where "exists (storage app) k (machine_now s) = (r, m)" by fastforce
  from server_step.head_effect [OF 1 assms(2) this] show ?thesis by blast
next
  case (2 req t0 r)
  then show ?thesis using assms(2)
    by (cases r) (auto intro: server_step.probe_end server_step.probe_fail)
qed

lemma progress_facts:
  assumes lk: "linked s" and inv: "flight_inv (probes s)" and act: "jobs s t = Active req t0 st"
  shows "(\<exists>a s'. actor a = Some t \<and> a \<noteq> Hang_Up t \<and> server_step d app s a s') \<or>
    (\<exists>r rest deadline. st = Draining r rest deadline \<and> now (probes s) < deadline) \<or>
    (\<exists>h data. st = Writing h data \<and> store (storage app) h (d_reader_stream d data) (machine_now s) = None) \<or>
    (\<exists>h u s'. st = Awaiting h \<and> u \<noteq> t \<and>
       (server_step d app s (Head_Effect u) s' \<or> server_step d app s (Probe_End u) s'))"
proof -
  have own: ?thesis if "actor a = Some t" "a \<noteq> Hang_Up t" "server_step d app s a s'" for a s'
    using that by blast
  show ?thesis
  proof (cases st)
    case (Awaiting h)
    obtain i e b where "tasks (probes s) t = Waiting h i e \<or> tasks (probes s) t = Probing h i e b"
      using linkedD [OF lk act] Awaiting by auto
    then show ?thesis
    proof
      assume w: "tasks (probes s) t = Waiting h i e"
      have i: "i < length (heap (probes s))" using flight_invD(2) [OF inv, of t] w by simp
      show ?thesis
      proof (cases "present_cell (heap (probes s) ! i)")
        case (Some v)
        from own [OF _ _ server_step.cell_hit [OF act [unfolded Awaiting] w Some]] show ?thesis by simp
      next
        case cell: None
        show ?thesis
        proof (cases "permit (heap (probes s) ! i)")
          case None
          from own [OF _ _ server_step.probe_start [OF act [unfolded Awaiting] w cell None]] show ?thesis by simp
        next
          case (Some u)
          then obtain k e' b' where u: "tasks (probes s) u = Probing k i e' b'"
            using flight_invD(3) [OF inv i] by (auto simp: slot_ok_def)
          then have "u \<noteq> t" using w by auto
          then show ?thesis using prober_steps [OF lk u, of d app] Awaiting by blast
        qed
      qed
    next
      assume p: "tasks (probes s) t = Probing h i e b"
      obtain r m where "exists (storage app) h (machine_now s) = (r, m)" by fastforce
      from own [OF _ _ server_step.head_effect [OF act [unfolded Awaiting] p this]] show ?thesis by simp
    qed
  next
    case (Headed h r)
    then obtain i e b where p: "tasks (probes s) t = Probing h i e b"
      using linkedD [OF lk act] by auto
    show ?thesis
    proof (cases r)
      case (Inl err)
      from own [OF _ _ server_step.probe_fail [OF act [unfolded Headed Inl] p]] show ?thesis by simp
    next
      case (Inr v)
      from own [OF _ _ server_step.probe_end [OF act [unfolded Headed Inr] p]] show ?thesis by simp
    qed
  next
    case (Reading h)
    obtain r m where "retrieve (storage app) h (machine_now s) = (r, m)" by fastforce
    from own [OF _ _ server_step.get_effect [OF act [unfolded Reading] this]] show ?thesis by simp
  next
    case (Was_Read h r)
    from own [OF _ _ server_step.get_end [OF act [unfolded Was_Read]]] show ?thesis by simp
  next
    case (Checking h data)
    obtain r m where "exists (storage app) h (machine_now s) = (r, m)" by fastforce
    from own [OF _ _ server_step.check_effect [OF act [unfolded Checking] this]] show ?thesis by simp
  next
    case (Checked h data r)
    from own [OF _ _ server_step.check_end [OF act [unfolded Checked]]] show ?thesis by simp
  next
    case (Writing h data)
    show ?thesis
    proof (cases "store (storage app) h (d_reader_stream d data) (machine_now s)")
      case None
      then show ?thesis using Writing by simp
    next
      case (Some x)
      obtain r rest m where "x = (r, rest, m)" by (cases x)
      from own [OF _ _ server_step.put_effect [OF act [unfolded Writing] Some [unfolded this]]] show ?thesis by simp
    qed
  next
    case (Written h r rest)
    from own [OF _ _ server_step.put_end [OF act [unfolded Written]]] show ?thesis by simp
  next
    case (Draining r rest deadline)
    show ?thesis
    proof (cases "deadline \<le> now (probes s)")
      case True
      from own [OF _ _ server_step.drain_end [OF act [unfolded Draining] True]] show ?thesis by simp
    next
      case False
      then show ?thesis using Draining by simp
    qed
  qed
qed

section \<open>The access log\<close>

fun is_access :: "log_event \<Rightarrow> bool" where
  "is_access (Request_Completed method path st ms bytes) = True"
| "is_access _ = False"

definition access_lines :: "'s machine \<Rightarrow> log_event list" where
  "access_lines m = filter is_access (log m)"

lemma access_lines_simps [simp]:
  "\<not> is_access ev \<Longrightarrow> access_lines (emit ev m) = access_lines m"
  "is_access ev \<Longrightarrow> access_lines (emit ev m) = access_lines m @ [ev]"
  "access_lines (elapse delay m) = access_lines m"
  "access_lines (error_log e m) = access_lines m"
  "access_lines (machine_now s) = access_lines (world s)"
  by (simp_all add: access_lines_def) (cases e; simp add: emit_def)

lemma is_access_event [simp]: "is_access (access_event d req resp dt)"
  by (simp add: access_event_def)

text \<open>A storage that writes no line of the access log; S3 is one.\<close>

definition keeps_access_log :: "'s storage_provider \<Rightarrow> bool" where
  "keeps_access_log provider \<longleftrightarrow>
     (\<forall>k m r m'. exists provider k m = (r, m') \<longrightarrow> access_lines m' = access_lines m) \<and>
     (\<forall>k m r m'. retrieve provider k m = (r, m') \<longrightarrow> access_lines m' = access_lines m) \<and>
     (\<forall>k b m r rest m'. store provider k b m = Some (r, rest, m') \<longrightarrow> access_lines m' = access_lines m)"

definition logs_step :: "'s deps \<Rightarrow> nat \<Rightarrow> 's cserver \<Rightarrow> 's cserver \<Rightarrow> bool" where
  "logs_step d t s s' \<longleftrightarrow>
     (\<exists>j. jobs s' = (jobs s)(t := j) \<and>
        (case j of
           Finished req resp rest \<Rightarrow>
             \<exists>dt. access_lines (world s') = access_lines (world s) @ [access_event d req resp dt]
         | _ \<Rightarrow> access_lines (world s') = access_lines (world s)))"

lemma logs_finish: "logs_step d t s (finish d t req t0 r rest s)"
  unfolding logs_step_def
  by (rule exI [of _ "Finished req (closing (response_of r)) rest"])
    (cases r; auto simp: finish_def access_event_def content_length_of_def)

lemma logs_job: "(\<And>req resp rest. j \<noteq> Finished req resp rest) \<Longrightarrow> logs_step d t s (set_job t j s)"
  unfolding logs_step_def by (rule exI [of _ j]) (simp split: job.split)

lemma logs_stage: "logs_step d t s (set_stage t req t0 st s)"
  by (simp add: set_stage_def logs_job)

lemma logs_drain: "logs_step d t s (start_drain t req t0 r b s)"
  by (simp add: start_drain_def logs_stage split: prod.split)

lemma logs_from:
  assumes "logs_step d t s1 s'" "jobs s1 = jobs s" "access_lines (world s1) = access_lines (world s)"
  shows "logs_step d t s s'"
  using assms(1) unfolding logs_step_def assms(2,3) .

lemmas logs_rules = logs_from [OF logs_finish] logs_from [OF logs_stage] logs_from [OF logs_drain]

lemma logs_begin_get: "logs_step d t s (begin_get d t req t0 h s)"
  by (simp add: begin_get_def logs_rules split: sum.split prod.split)

lemma logs_begin_put: "logs_step d t s (begin_put d t req t0 h s)"
  by (simp add: begin_put_def logs_rules split: sum.split)

lemma logs_arrive: "logs_step d t s (arrive d app t req s)"
  by (simp add: arrive_def begin_auth_eq begin_cache_def Let_def logs_rules logs_begin_get logs_begin_put
      split: route_match.split option.split)

lemma logs_after:
  assumes "jobs s1 = jobs s" "access_lines (world s1) = access_lines (world s)"
  shows "logs_step d t s (after_present d t req t0 h r s1)"
    and "logs_step d t s (after_retrieve d t req t0 r' s1)"
    and "logs_step d t s (after_check t req t0 h data r s1)"
    and "logs_step d t s (after_store d t req t0 h w rest s1)"
  using assms
  by (simp_all add: after_present_def after_retrieve_def after_check_def after_store_def logs_rules split: sum.split)

text \<open>Only a step of a task answers, and it answers its own request, once.\<close>

lemma logs_server_step:
  assumes keeps: "keeps_access_log (storage app)"
  shows "server_step d app s a s' \<Longrightarrow>
    (\<exists>t. (\<nexists>req resp rest. jobs s t = Finished req resp rest) \<and> logs_step d t s s') \<or>
    jobs s' = jobs s \<and> access_lines (world s') = access_lines (world s)"
proof (induction rule: server_step.induct)
  case (arrive s t req)
  then show ?case using logs_arrive by (intro disjI1 exI [of _ t]) simp
next
  case (cell_hit s t req t0 h i e v)
  then show ?case by (intro disjI1 exI [of _ t]) (simp add: logs_after)
next
  case (head_effect s t req t0 h i e b r m)
  then show ?case using keeps by (intro disjI1 exI [of _ t]) (auto simp: logs_rules keeps_access_log_def)
next
  case (probe_end s t req t0 h v i e b)
  then show ?case by (intro disjI1 exI [of _ t]) (simp add: logs_after)
next
  case (probe_fail s t req t0 h err i e b)
  then show ?case by (intro disjI1 exI [of _ t]) (simp add: logs_after)
next
  case (get_effect s t req t0 h r' m)
  then show ?case using keeps by (intro disjI1 exI [of _ t]) (auto simp: logs_rules keeps_access_log_def)
next
  case (get_end s t req t0 h r')
  then show ?case by (intro disjI1 exI [of _ t]) (simp add: logs_after)
next
  case (check_effect s t req t0 h data r m)
  then show ?case using keeps by (intro disjI1 exI [of _ t]) (auto simp: logs_rules keeps_access_log_def)
next
  case (check_end s t req t0 h data r)
  then show ?case by (intro disjI1 exI [of _ t]) (simp add: logs_after)
next
  case (put_effect s t req t0 h data st rest m)
  then show ?case using keeps by (intro disjI1 exI [of _ t]) (auto simp: logs_rules keeps_access_log_def)
next
  case (put_end s t req t0 h st rest)
  then show ?case by (intro disjI1 exI [of _ t]) (simp add: logs_after)
next
  case (drain_end s t req t0 res rest deadline)
  then show ?case by (intro disjI1 exI [of _ t]) (simp add: logs_finish)
next
  case (hang_up s t req t0 sg)
  then show ?case
    by (intro disjI1 exI [of _ t]) (simp add: logs_from [OF logs_job, of "Gone req"])
next
  case (self_check s)
  obtain r m where x: "exists (storage app) PROBE_KEY (machine_now s) = (r, m)" by fastforce
  then have "access_lines m = access_lines (world s)"
    using keeps unfolding keeps_access_log_def by (metis access_lines_simps(5))
  then show ?case using x by (simp add: self_probe_once_def Let_def)
qed simp_all

text \<open>The access log is the list of the answers in the order they were given.\<close>

definition answer_line :: "'s deps \<Rightarrow> 's cserver \<Rightarrow> nat \<Rightarrow> log_event \<Rightarrow> bool" where
  "answer_line d s t ev \<longleftrightarrow>
     (\<exists>req resp rest dt. jobs s t = Finished req resp rest \<and> ev = access_event d req resp dt)"

text \<open>The access lines are one for each of the requests \<open>ts\<close>, which are those answered so far.\<close>

definition logged_as ::
  "'s deps \<Rightarrow> log_event list \<Rightarrow> 's cserver \<Rightarrow> nat list \<Rightarrow> log_event list \<Rightarrow> bool" where
  "logged_as d before s ts lines \<longleftrightarrow>
     access_lines (world s) = before @ lines \<and> distinct ts \<and>
     set ts = {t. \<exists>req resp rest. jobs s t = Finished req resp rest} \<and> list_all2 (answer_line d s) ts lines"

lemma logged_as_init: "logged_as d (access_lines m) (cserver_init m) [] []"
  by (simp add: logged_as_def cserver_init_def)

lemma logged_as_length: "logged_as d before s ts lines \<Longrightarrow> length lines = length ts"
  by (auto simp: logged_as_def dest: list_all2_lengthD)

text \<open>A step adds the line of the request it answers at the end.\<close>

lemma logged_as_step:
  assumes "keeps_access_log (storage app)" "server_step d app s a s'" "logged_as d before s ts lines"
  shows "\<exists>ts' lines'. logged_as d before s' (ts @ ts') (lines @ lines')"
proof -
  have ts: "access_lines (world s) = before @ lines" "distinct ts"
    "set ts = {t. \<exists>req resp rest. jobs s t = Finished req resp rest}" "list_all2 (answer_line d s) ts lines"
    using assms(3) unfolding logged_as_def by blast+
  consider (same) "jobs s' = jobs s" "access_lines (world s') = access_lines (world s)"
    | (task) t j where "\<nexists>req resp rest. jobs s t = Finished req resp rest" "jobs s' = (jobs s)(t := j)"
        "case j of Finished req resp rest \<Rightarrow>
             \<exists>dt. access_lines (world s') = access_lines (world s) @ [access_event d req resp dt]
         | _ \<Rightarrow> access_lines (world s') = access_lines (world s)"
    using logs_server_step [OF assms(1,2)] unfolding logs_step_def by blast
  then show ?thesis
  proof cases
    case same
    then have "answer_line d s' = answer_line d s" by (simp add: answer_line_def fun_eq_iff)
    then show ?thesis using ts same by (intro exI [of _ "[]"]) (simp add: logged_as_def)
  next
    case task
    have old: "list_all2 (answer_line d s') ts lines"
      using ts(4) by (rule list.rel_mono_strong) (use ts(3) task(1,2) in \<open>auto simp: answer_line_def\<close>)
    have fin: "{u. \<exists>req resp rest. jobs s' u = Finished req resp rest} =
        set ts \<union> {u. u = t \<and> (\<exists>req resp rest. j = Finished req resp rest)}"
      using ts(3) task(1,2) by auto
    have "t \<notin> set ts" using task(1) ts(3) by simp
    show ?thesis
    proof (cases "\<exists>req resp rest. j = Finished req resp rest")
      case True
      then obtain req resp rest dt where j: "j = Finished req resp rest"
        "access_lines (world s') = before @ (lines @ [access_event d req resp dt])"
        using task(3) ts(1) by auto
      have "list_all2 (answer_line d s') (ts @ [t]) (lines @ [access_event d req resp dt])"
        using old j(1) task(2) by (intro list_all2_appendI) (auto simp: answer_line_def)
      moreover have "set (ts @ [t]) = {u. \<exists>req resp rest. jobs s' u = Finished req resp rest}" using fin True by auto
      moreover have "distinct (ts @ [t])" using ts(2) \<open>t \<notin> set ts\<close> by simp
      ultimately show ?thesis using j(2) unfolding logged_as_def by blast
    next
      case False
      then have "access_lines (world s') = before @ lines" using task(3) ts(1) by (cases j) auto
      moreover have "set ts = {u. \<exists>req resp rest. jobs s' u = Finished req resp rest}" using fin False by auto
      ultimately show ?thesis using old ts(2) by (intro exI [of _ "[]"]) (simp add: logged_as_def)
    qed
  qed
qed

lemma reachable_answers_logged:
  assumes "keeps_access_log (storage app)" "server_reachable d app m s"
  shows "\<exists>ts lines. logged_as d (access_lines m) s ts lines"
  using assms(2)
  by (rule server_reachable_inv [where P = "\<lambda>s. \<exists>ts lines. logged_as d (access_lines m) s ts lines"])
    (use logged_as_init logged_as_step [OF assms(1)] in blast)+

section \<open>S3 writes no access line\<close>

lemma send_access: "send req call m = (r, m') \<Longrightarrow> access_lines m' = access_lines m"
  by (simp add: access_lines_def send_log)

lemma fill_part_access:
  "fill_part data n h k m = Some (r, rest, k', m') \<Longrightarrow> access_lines m' = access_lines m"
proof -
  have "fill_loop n h buf b k m = Some (r, rest, k', m') \<Longrightarrow> access_lines m' = access_lines m" for buf b k m
    by (induction n h buf b k m rule: fill_loop.induct)
      (subst (asm) fill_loop.simps, auto split: if_splits body.splits)
  then show "fill_part data n h k m = Some (r, rest, k', m') \<Longrightarrow> access_lines m' = access_lines m"
    by (simp add: fill_part_def)
qed

lemma store_advance_access:
  assumes "store_advance c b h st m = Some (st', m')"
  shows "access_lines m' = access_lines m"
  using assms
  by (cases st)
    (auto simp: put_whole_def upload_turn_def upload_one_def abort_upload_def complete_upload_def log_s3_error_def
      Let_def split: option.splits sum.splits prod.splits if_splits dest!: send_access fill_part_access)

lemma store_steps_access: "store_steps c b h st m n st' m' \<Longrightarrow> access_lines m' = access_lines m"
  by (induction rule: store_steps.induct) (auto dest: store_advance_access)

lemma s3_keeps_access_log: "keeps_access_log (s3_storage c b)"
  unfolding keeps_access_log_def
proof (intro conjI allI impI)
  fix k and m m' :: "'a machine" and r r' data w rest
  show "exists (s3_storage c b) k m = (r, m') \<Longrightarrow> access_lines m' = access_lines m"
    by (auto simp: s3_storage_def s3_exists_def log_s3_error_def split: prod.splits sum.splits if_splits dest!: send_access)
  show "retrieve (s3_storage c b) k m = (r', m') \<Longrightarrow> access_lines m' = access_lines m"
    by (auto simp: s3_storage_def s3_retrieve_def log_s3_error_def split: prod.splits sum.splits if_splits dest!: send_access)
  show "store (s3_storage c b) k data m = Some (w, rest, m') \<Longrightarrow> access_lines m' = access_lines m"
    using store_steps_access by (auto simp: s3_storage_def store_steps_eq)
qed

end
