(* ===== verification/Server_Solo.thy ===== *)
theory Server_Solo
  imports Server_Flight_Facts
begin

text \<open>
  The two models of the server agree: a request served alone by the concurrent server, with
  time passing as its storage calls and drains take it, ends with the response, the unread
  body, the cache, the log and the world that the sequential model of the router computes.
\<close>

section \<open>The sequential view of a concurrent state\<close>

definition seq :: "'s cserver \<Rightarrow> 's server" where
  "seq s = \<lparr>probe = view (probes s), machine = machine_now s\<rparr>"

definition logged :: "server_error + response \<Rightarrow> 's machine \<Rightarrow> 's machine" where
  "logged r m = (case r of Ok _ \<Rightarrow> m | Err e \<Rightarrow> error_log e m)"

lemma logged_simps [simp]:
  "logged (Ok resp) m = m" "logged (Err e) m = error_log e m" "clock (logged r m) = clock m"
  by (simp_all add: logged_def split: sum.split)

lemma seq_simps [simp]: "probe (seq s) = view (probes s)" "machine (seq s) = machine_now s"
  by (simp_all add: seq_def)

lemma seq_set_job [simp]: "seq (set_job t j s) = seq s" "seq (set_stage t req t0 st s) = seq s"
  by (simp_all add: seq_def machine_now_def)

lemma respond_eq:
  "respond (Some (r, rest, srv)) = Some (response_of r, rest, srv\<lparr>machine := logged r (machine srv)\<rparr>)"
  by (cases r) (simp_all add: respond_def)

lemma emit_clock: "(emit e m)\<lparr>clock := t\<rparr> = emit e (m\<lparr>clock := t\<rparr>)"
  by (simp add: emit_def)

lemma same_clock: "clock m = t \<Longrightarrow> m\<lparr>clock := t\<rparr> = m"
  by simp

lemma machine_now_finish:
  "machine_now (finish d t req t0 r rest s) =
     emit (access_event d req (response_of r) (now (probes s) - t0)) (logged r (machine_now s))"
proof -
  have "world (finish d t req t0 r rest s) =
      emit (access_event d req (response_of r) (now (probes s) - t0)) (logged r (machine_now s))"
    by (cases r) (simp_all add: finish_def saturating_duration_since_def)
  then show ?thesis by (simp add: machine_now_def [of "finish d t req t0 r rest s"] emit_clock same_clock)
qed

section \<open>Running one task\<close>

text \<open>The steps of one task that is served to its end: its own ones, and time.\<close>

fun own_step :: "nat \<Rightarrow> action \<Rightarrow> bool" where
  "own_step t (Pass delay) \<longleftrightarrow> True"
| "own_step t (Cell_Hit u) \<longleftrightarrow> u = t"
| "own_step t (Probe_Start u) \<longleftrightarrow> u = t"
| "own_step t (Head_Effect u) \<longleftrightarrow> u = t"
| "own_step t (Probe_End u) \<longleftrightarrow> u = t"
| "own_step t (Get_Effect u) \<longleftrightarrow> u = t"
| "own_step t (Get_End u) \<longleftrightarrow> u = t"
| "own_step t (Check_Effect u) \<longleftrightarrow> u = t"
| "own_step t (Check_End u) \<longleftrightarrow> u = t"
| "own_step t (Put_Effect u) \<longleftrightarrow> u = t"
| "own_step t (Put_End u) \<longleftrightarrow> u = t"
| "own_step t (Drain_End u) \<longleftrightarrow> u = t"
| "own_step t (Arrive u req) \<longleftrightarrow> False"
| "own_step t (Hang_Up u) \<longleftrightarrow> False"
| "own_step t Self_Check \<longleftrightarrow> False"

definition alone :: "'s deps \<Rightarrow> 's app_state \<Rightarrow> nat \<Rightarrow> 's cserver \<Rightarrow> 's cserver \<Rightarrow> bool" where
  "alone d app t s s' \<longleftrightarrow> (\<exists>acts. server_run d app s acts s' \<and> list_all (own_step t) acts)"

lemma alone_refl: "alone d app t s s"
  unfolding alone_def by (rule exI [of _ "[]"]) simp

lemma alone_step:
  assumes "server_step d app s a s1" "alone d app t s1 s2" "own_step t a"
  shows "alone d app t s s2"
proof -
  obtain acts where "server_run d app s1 acts s2" "list_all (own_step t) acts"
    using assms(2) by (auto simp: alone_def)
  then show ?thesis
    using server_run.run_step [OF assms(1)] assms(3) unfolding alone_def by (intro exI [of _ "a # acts"]) simp
qed

text \<open>Letting time pass until the clock shows what a machine's does.\<close>

definition wait_for :: "'s machine \<Rightarrow> 's cserver \<Rightarrow> 's cserver" where
  "wait_for m s = s\<lparr>probes := (probes s)\<lparr>now := now (probes s) + (clock m - now (probes s))\<rparr>\<rparr>"

lemma wait_for_simps [simp]:
  "jobs (wait_for m s) = jobs s" "world (wait_for m s) = world s" "tasks (probes (wait_for m s)) = tasks (probes s)"
  "heap (probes (wait_for m s)) = heap (probes s)" "index (probes (wait_for m s)) = index (probes s)"
  "view (probes (wait_for m s)) = view (probes s)"
  by (simp_all add: wait_for_def view_def)

lemma now_wait_for: "now (probes s) \<le> clock m \<Longrightarrow> now (probes (wait_for m s)) = clock m"
  by (simp add: wait_for_def)

lemma alone_wait: "alone d app t (wait_for m s) s' \<Longrightarrow> alone d app t s s'"
  by (rule alone_step [OF server_step.pass]) (auto simp: wait_for_def)

text \<open>An operation's effect followed by the time it takes: the machine it returned.\<close>

lemma seq_after_op:
  assumes "later (machine_now s) m"
  shows "seq (wait_for m (s\<lparr>world := m\<rparr>)) = (seq s)\<lparr>machine := m\<rparr>"
proof -
  have "now (probes s) \<le> clock m" using later_clock [OF assms] by simp
  then have "now (probes (wait_for m (s\<lparr>world := m\<rparr>))) = clock m" by (simp add: now_wait_for)
  then show ?thesis by (simp add: seq_def machine_now_def [of "wait_for m (s\<lparr>world := m\<rparr>)"] same_clock)
qed

text \<open>
  A handler's sequential outcome is reached: the task runs, alone, to the point where it
  sends the response, in a state whose sequential view is the one the handler left.
\<close>

definition concludes ::
  "'s deps \<Rightarrow> 's app_state \<Rightarrow> nat \<Rightarrow> request \<Rightarrow> instant \<Rightarrow> 's cserver
    \<Rightarrow> ((server_error + response) \<times> body \<times> 's server) \<Rightarrow> bool" where
  "concludes d app t req t0 s out \<longleftrightarrow>
     (\<exists>r rest s1. out = (r, rest, seq s1) \<and> alone d app t s (finish d t req t0 r rest s1) \<and>
        (\<forall>u. u \<noteq> t \<longrightarrow> jobs s1 u = jobs s u))"

lemma concludes_finish: "concludes d app t req t0 (finish d t req t0 r rest s) (r, rest, seq s)"
  unfolding concludes_def
  by (intro exI [of _ r] exI [of _ rest] exI [of _ s]) (simp add: alone_refl)

lemma concludes_step:
  assumes "server_step d app s a s1" "concludes d app t req t0 s1 out"
    "own_step t a"
    and "\<And>u. u \<noteq> t \<Longrightarrow> jobs s1 u = jobs s u"
  shows "concludes d app t req t0 s out"
  using assms(2) alone_step [OF assms(1)] assms(3,4) unfolding concludes_def by metis

lemma concludes_wait: "concludes d app t req t0 (wait_for m s) out \<Longrightarrow> concludes d app t req t0 s out"
  unfolding concludes_def by (auto intro: alone_wait)

lemma concludes_drain:
  assumes "drain_body b (machine_now s) = (rest, m)"
  shows "concludes d app t req t0 (start_drain t req t0 r b s) (r, rest, (seq s)\<lparr>machine := m\<rparr>)"
proof -
  obtain taken where dr: "drain_stream DRAIN_TIMEOUT b = (taken, rest)" and m: "m = elapse taken (machine_now s)"
    using assms by (auto simp: drain_body_def drain_body_within_def split: prod.splits)
  let ?s = "set_stage t req t0 (Draining r rest (now (probes s) + taken)) s"
  have n: "now (probes (wait_for m ?s)) = now (probes s) + taken" by (simp add: wait_for_def m)
  have "server_step d app (wait_for m ?s) (Drain_End t) (finish d t req t0 r rest (wait_for m ?s))"
    using n by (intro server_step.drain_end [where deadline = "now (probes s) + taken"]) simp_all
  then have "concludes d app t req t0 (wait_for m ?s) (r, rest, seq (wait_for m ?s))"
    by (rule concludes_step [OF _ concludes_finish]) simp_all
  moreover have "seq (wait_for m ?s) = (seq s)\<lparr>machine := m\<rparr>"
    unfolding seq_def machine_now_def [of "wait_for m ?s"] n
    by (simp add: m elapse_def machine_now_def)
  ultimately show ?thesis using concludes_wait dr by (simp add: start_drain_def)
qed

section \<open>Storage operations\<close>

text \<open>The state in which an operation's result reaches the task: the effect, then the time it took.\<close>

definition after_op :: "'s machine \<Rightarrow> nat \<Rightarrow> request \<Rightarrow> instant \<Rightarrow> stage \<Rightarrow> 's cserver \<Rightarrow> 's cserver" where
  "after_op m t req t0 st s = wait_for m (set_stage t req t0 st (s\<lparr>world := m\<rparr>))"

lemma machine_now_set_stage [simp]: "machine_now (set_stage t req t0 st s) = machine_now s"
  by (simp add: machine_now_def)

lemma after_op_simps [simp]:
  "jobs (after_op m t req t0 st s) = (jobs s)(t := Active req t0 st)"
  "tasks (probes (after_op m t req t0 st s)) = tasks (probes s)"
  "heap (probes (after_op m t req t0 st s)) = heap (probes s)"
  "index (probes (after_op m t req t0 st s)) = index (probes s)"
  "view (probes (after_op m t req t0 st s)) = view (probes s)"
  by (simp_all add: after_op_def)

lemma after_op_inv: "flight_inv (probes s) \<Longrightarrow> flight_inv (probes (after_op m t req t0 st s))"
  using tick_inv by (simp add: after_op_def wait_for_def)

lemma after_op_later:
  assumes "later (machine_now s) m"
  shows "now (probes (after_op m t req t0 st s)) = clock m" "machine_now (after_op m t req t0 st s) = m"
    "seq (after_op m t req t0 st s) = (seq s)\<lparr>machine := m\<rparr>"
proof -
  have "now (probes s) \<le> clock m" using later_clock [OF assms] by (simp add: machine_now_def)
  then show n: "now (probes (after_op m t req t0 st s)) = clock m"
    by (simp add: after_op_def now_wait_for)
  show "machine_now (after_op m t req t0 st s) = m"
    unfolding machine_now_def n by (simp add: after_op_def same_clock)
  then show "seq (after_op m t req t0 st s) = (seq s)\<lparr>machine := m\<rparr>" by (simp add: seq_def)
qed

lemma concludes_op:
  assumes "server_step d app s a (set_stage t req t0 st (s\<lparr>world := m\<rparr>))"
    "concludes d app t req t0 (after_op m t req t0 st s) out"
    "own_step t a"
  shows "concludes d app t req t0 s out"
  by (rule concludes_step [OF assms(1) concludes_wait [OF assms(2) [unfolded after_op_def]] assms(3)]) simp

lemma machine_now_marked [simp]:
  "now p = now (probes s) \<Longrightarrow> machine_now (s\<lparr>probes := p\<rparr>) = machine_now s"
  by (simp add: machine_now_def)

lemma now_flight_mark [simp]: "now (flight_mark h p) = now p"
  by (simp add: flight_mark_def)

lemma seq_marked:
  "flight_inv (probes s) \<Longrightarrow>
     seq (s\<lparr>probes := flight_mark h (probes s)\<rparr>) =
       (seq s)\<lparr>probe := mark_present h (now (probes s)) (view (probes s))\<rparr>"
  by (simp add: seq_def flight_mark_view)


lemma jobs_start_drain_other [simp]: "u \<noteq> t \<Longrightarrow> jobs (start_drain t req t0 r b s) u = jobs s u"
  using jobs_start_drain [of t req t0 r b s] by auto

lemma jobs_after_other [simp]:
  "u \<noteq> t \<Longrightarrow> jobs (after_check t req t0 h data ex s) u = jobs s u"
  "u \<noteq> t \<Longrightarrow> jobs (after_store d t req t0 h st rest s) u = jobs s u"
  "u \<noteq> t \<Longrightarrow> jobs (after_present d t req t0 h pr s) u = jobs s u"
  "u \<noteq> t \<Longrightarrow> jobs (after_retrieve d t req t0 rr s) u = jobs s u"
  by (simp_all add: after_check_def after_store_def after_present_def after_retrieve_def split: sum.split)

section \<open>PUT\<close>

context storage_contract
begin

text \<open>The check and the upload, each up to what the handler does with the result.\<close>

lemma check_concludes:
  assumes "storage app = provider" "exists provider h (machine_now s) = (ex, mid)"
    and "concludes d app t req t0
      (after_check t req t0 h data ex (after_op mid t req t0 (Checked h data ex) (set_stage t req t0 (Checking h data) s))) out"
  shows "concludes d app t req t0 (set_stage t req t0 (Checking h data) s) out"
proof -
  let ?s0 = "set_stage t req t0 (Checking h data) s"
  let ?s1 = "after_op mid t req t0 (Checked h data ex) ?s0"
  have "server_step d app ?s1 (Check_End t) (after_check t req t0 h data ex ?s1)"
    by (rule server_step.check_end) simp
  then have c: "concludes d app t req t0 ?s1 out" by (rule concludes_step [OF _ assms(3)]) simp_all
  have "server_step d app ?s0 (Check_Effect t) (set_stage t req t0 (Checked h data ex) (?s0\<lparr>world := mid\<rparr>))"
    using assms(1,2) by (intro server_step.check_effect) simp_all
  then show ?thesis by (rule concludes_op [OF _ c]) simp
qed

lemma write_concludes:
  assumes "storage app = provider"
    "store provider h (d_reader_stream d data) (machine_now s) = Some (st, rest, m2)"
    and "concludes d app t req t0
      (after_store d t req t0 h st rest (after_op m2 t req t0 (Written h st rest) (set_stage t req t0 (Writing h data) s))) out"
  shows "concludes d app t req t0 (set_stage t req t0 (Writing h data) s) out"
proof -
  let ?s0 = "set_stage t req t0 (Writing h data) s"
  let ?s1 = "after_op m2 t req t0 (Written h st rest) ?s0"
  have "server_step d app ?s1 (Put_End t) (after_store d t req t0 h st rest ?s1)"
    by (rule server_step.put_end) simp
  then have c: "concludes d app t req t0 ?s1 out" by (rule concludes_step [OF _ assms(3)]) simp_all
  have "server_step d app ?s0 (Put_Effect t) (set_stage t req t0 (Written h st rest) (?s0\<lparr>world := m2\<rparr>))"
    using assms(1,2) by (intro server_step.put_effect) simp_all
  then show ?thesis by (rule concludes_op [OF _ c]) simp
qed

text \<open>A check that found nothing, then the upload: the state in which the upload's result is looked at.\<close>

lemma upload_concludes:
  assumes "storage app = provider" "exists provider h (machine_now s) = (ex, m1)" "ex \<noteq> Ok True"
    "store provider h (d_reader_stream d data) m1 = Some (st, rest, m2)"
    and "\<And>s2. seq s2 = (seq s)\<lparr>machine := m2\<rparr> \<Longrightarrow> now (probes s2) = clock m2 \<Longrightarrow> machine_now s2 = m2 \<Longrightarrow>
      (flight_inv (probes s) \<Longrightarrow> flight_inv (probes s2)) \<Longrightarrow>
      concludes d app t req t0 (after_store d t req t0 h st rest s2) out"
  shows "concludes d app t req t0 (set_stage t req t0 (Checking h data) s) out"
proof (rule check_concludes [OF assms(1,2)])
  let ?s1 = "after_op m1 t req t0 (Checked h data ex) (set_stage t req t0 (Checking h data) s)"
  let ?s2 = "after_op m2 t req t0 (Written h st rest) (set_stage t req t0 (Writing h data) ?s1)"
  have l1: "later (machine_now (set_stage t req t0 (Checking h data) s)) m1"
    using assms(2) exists_later by simp
  note op1 = after_op_later [OF l1, of t req t0 "Checked h data ex"]
  have l2: "later (machine_now (set_stage t req t0 (Writing h data) ?s1)) m2"
    using store_later [OF assms(4)] by (simp add: op1(2))
  note op2 = after_op_later [OF l2, of t req t0 "Written h st rest"]
  have "concludes d app t req t0 (after_store d t req t0 h st rest ?s2) out"
    by (rule assms(5)) (simp_all add: op2 op1 after_op_inv)
  then have "concludes d app t req t0 (set_stage t req t0 (Writing h data) ?s1) out"
    by (rule write_concludes [OF assms(1), rotated]) (simp add: op1(2) assms(4))
  then show "concludes d app t req t0 (after_check t req t0 h data ex ?s1) out"
    using assms(3) by (simp add: after_check_def unwrap_or_False)
qed

lemma put_concludes:
  assumes "storage app = provider" "flight_inv (probes s)"
    "store_artifact d app h (req_body req) (seq s) = Some (r, rest, srv')"
  shows "concludes d app t req t0 (begin_put d t req t0 h s) (r, rest, srv')"
  using assms(3)
proof (cases rule: store_artifact_cases)
  case (invalid m)
  then show ?thesis using concludes_drain [of "req_body req" s rest m] by (simp add: begin_put_def)
next
  case (conflict m1 m2)
  let ?s1 = "after_op m1 t req t0 (Checked h (req_body req) (Ok True)) (set_stage t req t0 (Checking h (req_body req)) s)"
  let ?s2 = "?s1\<lparr>probes := flight_mark h (probes ?s1)\<rparr>"
  have l: "later (machine_now (set_stage t req t0 (Checking h (req_body req)) s)) m1"
    using conflict(2) assms(1) exists_later by simp
  note op = after_op_later [OF l, of t req t0 "Checked h (req_body req) (Ok True)"]
  have "concludes d app t req t0 (start_drain t req t0 r (req_body req) ?s2) (r, rest, (seq ?s2)\<lparr>machine := m2\<rparr>)"
    by (rule concludes_drain) (simp add: conflict(4) op(2))
  moreover have "(seq ?s2)\<lparr>machine := m2\<rparr> = srv'"
    using conflict(5) by (simp add: seq_marked after_op_inv assms(2) op)
  ultimately have "concludes d app t req t0 (set_stage t req t0 (Checking h (req_body req)) s) (r, rest, srv')"
    using conflict(2,3) assms(1) by (intro check_concludes [OF assms(1), where ex = "Ok True" and mid = m1]) (simp_all add: after_check_def)
  then show ?thesis using conflict(1) by (simp add: begin_put_def)
next
  case (stored ex m1 m2)
  have "concludes d app t req t0 (after_store d t req t0 h (Ok ()) rest s2) (r, rest, srv')"
    if s2: "seq s2 = (seq s)\<lparr>machine := m2\<rparr>" "now (probes s2) = clock m2" "flight_inv (probes s2)" for s2
  proof -
    let ?s3 = "s2\<lparr>probes := flight_mark h (probes s2)\<rparr>"
    have "view (probes s2) = view (probes s)" using arg_cong [OF s2(1), of probe] by simp
    then have "seq ?s3 = srv'" using stored(6) s2 by (simp add: seq_marked)
    then show ?thesis using concludes_finish [of d app t req t0 r rest ?s3] stored(5) by (simp add: after_store_def)
  qed
  with upload_concludes [OF assms(1) _ stored(3) _ this] stored(1,2,4) assms(1,2)
  show ?thesis by (simp add: begin_put_def)
next
  case (aborted ex m1 m2)
  have "concludes d app t req t0 (after_store d t req t0 h (Err ClientAbort) rest s2) (r, rest, srv')"
    if s2: "seq s2 = (seq s)\<lparr>machine := m2\<rparr>" for s2
    using concludes_finish [of d app t req t0 r rest s2] aborted(5,6) s2 by (simp add: after_store_def)
  with upload_concludes [OF assms(1) _ aborted(3) _ this] aborted(1,2,4) assms(1)
  show ?thesis by (simp add: begin_put_def)
next
  case (declined ex m1 e rest1 m2 m3)
  have "concludes d app t req t0 (after_store d t req t0 h (Err e) rest1 s2) (r, rest, srv')"
    if s2: "seq s2 = (seq s)\<lparr>machine := m2\<rparr>" "machine_now s2 = m2" for s2
  proof -
    let ?s3 = "s2\<lparr>world := emit (Store_Declined h e) (world s2)\<rparr>"
    have m: "machine_now ?s3 = emit (Store_Declined h e) m2"
      using s2(2) by (auto simp: machine_now_def emit_def)
    have "view (probes s2) = view (probes s)" using arg_cong [OF s2(1), of probe] by simp
    then have "(seq ?s3)\<lparr>machine := m3\<rparr> = srv'" using declined(8) by (simp add: seq_def)
    moreover have "drain_body rest1 (machine_now ?s3) = (rest, m3)" using declined(6) m by simp
    ultimately show ?thesis
      using concludes_drain [of rest1 ?s3 rest m3 d app t req t0 r] declined(4,7) by (simp add: after_store_def)
  qed
  with upload_concludes [OF assms(1) _ declined(3) _ this] declined(1,2,5) assms(1)
  show ?thesis by (simp add: begin_put_def)
qed

end

section \<open>The slot a GET enters\<close>

lemma flight_slot_index: "flight_slot k p = (i, p1) \<Longrightarrow> fmlookup (index p1) k = Some i"
  by (erule flight_slot_cases) simp_all

lemma truncate_set_permit [simp]: "slot.truncate (heap (set_permit i x p) ! j) = slot.truncate (heap p ! j)"
  using cells_set_permit [of i x p j] by (simp add: slot.truncate_def)

lemma truncate_resolve:
  "slot.truncate (heap (resolve_slot i v p) ! j) =
     (if j = i \<and> i < length (heap p) then (slot.truncate (heap p ! i))\<lparr>present_cell := Some v\<rparr>
      else slot.truncate (heap p ! j))"
  by (cases "i < length (heap p)") (auto simp: heap_simps slot.truncate_def list_update_beyond)

lemma view_resolve_same:
  assumes "index q = index p" "length (heap q) = length (heap p)"
    "\<And>j. slot.truncate (heap q ! j) = slot.truncate (heap p ! j)"
  shows "view (resolve_slot i v q) = view (resolve_slot i v p)"
  unfolding view_def truncate_resolve assms(2,3) by (simp add: assms(1))

lemma view_resolve:
  assumes "fmlookup (index p) h = Some i" "i < length (heap p)" "\<And>k. fmlookup (index p) k = Some i \<Longrightarrow> k = h"
  shows "view (resolve_slot i v p) = fmupd h ((slot.truncate (heap p ! i))\<lparr>present_cell := Some v\<rparr>) (view p)"
proof (rule fmap_ext)
  fix k
  have "j \<noteq> i" if "fmlookup (index p) k = Some j" "k \<noteq> h" for j using assms(3) that by blast
  then show "fmlookup (view (resolve_slot i v p)) k =
      fmlookup (fmupd h ((slot.truncate (heap p ! i))\<lparr>present_cell := Some v\<rparr>) (view p)) k"
    using assms(1,2)
    by (cases "fmlookup (index p) k") (auto simp: fmlookup_view heap_simps slot.truncate_def)
qed

text \<open>No probe is running: the state of a server with no request in progress.\<close>

definition no_probe :: "flight \<Rightarrow> bool" where
  "no_probe p \<longleftrightarrow> (\<forall>u k i e b. tasks p u \<noteq> Probing k i e b)"

lemma no_probe_permit:
  assumes "flight_inv p" "no_probe p" "flight_slot h p = (i, p1)"
  shows "permit (heap p1 ! i) = None"
proof -
  note f = flight_slot_facts [OF assms(3,1)]
  then have "slot_ok p1 i (heap p1 ! i)" using flight_invD(3) [of p1 i] by blast
  then show ?thesis using assms(2) f by (cases "permit (heap p1 ! i)") (auto simp: slot_ok_def no_probe_def)
qed

lemma present_miss_view:
  assumes "cell_spec d" "flight_inv p" "flight_slot h p = (i, p1)" "present_cell (heap p1 ! i) = None"
    "f m = (r, mid)" "clock m = now p"
  shows "present (d_get_or_try_init d) h f (view p) m =
    (r, (case r of Ok v \<Rightarrow> view (resolve_slot i v p1) | Err e \<Rightarrow> view p1), mid)"
proof -
  have g: "d_get_or_try_init d = reference_get_or_try_init"
    using assms(1) by (simp add: cell_spec_def once_cell_unique)
  note fc = flight_slot_facts [OF assms(3,2)]
  have ix: "fmlookup (index p1) h = Some i" by (rule flight_slot_index [OF assms(3)])
  have own: "k = h" if "fmlookup (index p1) k = Some i" for k
    using flight_invD(1) [of p1 k i] that fc by auto
  have keep: "fmupd h \<lparr>present_cell = None, created = created (heap p1 ! i)\<rparr> (view p1) = view p1"
    using ix assms(4) by (intro fmupd_same) (simp add: fmlookup_view slot.truncate_def)
  show ?thesis
    using assms(4-6) flight_slot_view [OF assms(2,3)] view_resolve [OF ix _ own] fc
    by (cases r) (simp_all add: present_def g reference_None slot.truncate_def [of "heap p1 ! i"] keep)
qed

lemma present_hit_view:
  assumes "cell_spec d" "flight_inv p" "flight_slot h p = (i, p1)" "present_cell (heap p1 ! i) = Some v"
    "clock m = now p"
  shows "present (d_get_or_try_init d) h f (view p) m = (Ok v, view p1, m)"
proof -
  have g: "d_get_or_try_init d = reference_get_or_try_init"
    using assms(1) by (simp add: cell_spec_def once_cell_unique)
  have same: "(slot.truncate (heap p1 ! i))\<lparr>present_cell := Some v\<rparr> = slot.truncate (heap p1 ! i)"
    using assms(4) by (simp add: slot.truncate_def)
  have keep: "fmupd h ((slot.truncate (heap p1 ! i))\<lparr>present_cell := Some v\<rparr>) (view p1) = view p1"
    unfolding same using flight_slot_index [OF assms(3)] by (intro fmupd_same) (simp add: fmlookup_view)
  have "present_cell (slot.truncate (heap p1 ! i)) = Some v" using assms(4) by (simp add: slot.truncate_def)
  then show ?thesis
    using assms(5) flight_slot_view [OF assms(2,3)] keep
    by (simp add: present_def g reference_get_or_try_init_def)
qed

section \<open>GET\<close>

lemma seq_update [simp]: "(seq s)\<lparr>probe := c, machine := m\<rparr> = \<lparr>probe = c, machine = m\<rparr>"
  by (simp add: seq_def)

lemma after_present_step:
  assumes "jobs s t = Active req t0 (Awaiting h)" "tasks (probes s) t = Waiting h i e"
    "present_cell (heap (probes s) ! i) = Some v"
    and "concludes d app t req t0 (after_present d t req t0 h (Ok v)
      (s\<lparr>probes := set_task t (Answered h e (Ok v) (resolved_at (heap (probes s) ! i))) (probes s)\<rparr>)) out"
  shows "concludes d app t req t0 s out"
  by (rule concludes_step [OF server_step.cell_hit [OF assms(1-3)] assms(4)]) simp_all

lemma retrieve_concludes:
  assumes "retrieve (storage app) h (machine_now s) = (rr, m)" "later (machine_now s) m"
    and "\<And>s2. seq s2 = (seq s)\<lparr>machine := m\<rparr> \<Longrightarrow> concludes d app t req t0 (after_retrieve d t req t0 rr s2) out"
  shows "concludes d app t req t0 (set_stage t req t0 (Reading h) s) out"
proof -
  let ?s0 = "set_stage t req t0 (Reading h) s"
  let ?s1 = "after_op m t req t0 (Was_Read h rr) ?s0"
  have "later (machine_now ?s0) m" using assms(2) by simp
  note op = after_op_later [OF this, of t req t0 "Was_Read h rr"]
  have "server_step d app ?s1 (Get_End t) (after_retrieve d t req t0 rr ?s1)"
    by (rule server_step.get_end) simp
  moreover have "concludes d app t req t0 (after_retrieve d t req t0 rr ?s1) out"
    by (rule assms(3)) (simp add: op)
  ultimately have c: "concludes d app t req t0 ?s1 out" by (rule concludes_step) simp_all
  have "server_step d app ?s0 (Get_Effect t) (set_stage t req t0 (Was_Read h rr) (?s0\<lparr>world := m\<rparr>))"
    using assms(1) by (intro server_step.get_effect) simp_all
  then show ?thesis by (rule concludes_op [OF _ c]) simp
qed

text \<open>The probe of a slot that no other task is probing.\<close>

lemma probe_concludes:
  assumes "jobs s t = Active req t0 (Awaiting h)" "tasks (probes s) t = Waiting h i e"
    "present_cell (heap (probes s) ! i) = None" "permit (heap (probes s) ! i) = None"
    and ex: "exists (storage app) h (machine_now s) = (r, m)" "later (machine_now s) m"
    and rest: "\<And>s2. machine_now s2 = m \<Longrightarrow>
      view (probes s2) = (case r of Ok v \<Rightarrow> view (resolve_slot i v (probes s)) | Err e \<Rightarrow> view (probes s)) \<Longrightarrow>
      concludes d app t req t0 (after_present d t req t0 h r s2) out"
  shows "concludes d app t req t0 s out"
proof -
  let ?s1 = "s\<lparr>probes := set_task t (Probing h i e (now (probes s))) (set_permit i (Some t) (probes s))\<rparr>"
  let ?s2 = "after_op m t req t0 (Headed h r) ?s1"
  have "later (machine_now ?s1) m" using ex(2) by simp
  note op = after_op_later [OF this, of t req t0 "Headed h r"]
  have v: "view (resolve_slot i v (probes ?s2)) = view (resolve_slot i v (probes s))" for v
    by (rule view_resolve_same) (simp_all add: heap_set_permit [where s = "probes s"] truncate_set_permit [unfolded heap_set_permit])
  have c: "concludes d app t req t0 ?s2 out"
  proof (cases r)
    case (Inl err)
    let ?s3 = "?s2\<lparr>probes := set_task t (Answered h e (Err err) (now (probes ?s2))) (set_permit i None (probes ?s2))\<rparr>"
    have "server_step d app ?s2 (Probe_End t) (after_present d t req t0 h (Err err) ?s3)"
      by (rule server_step.probe_fail [where b = "now (probes s)"]) (simp_all add: Inl)
    moreover have "concludes d app t req t0 (after_present d t req t0 h (Err err) ?s3) out"
      using rest [of ?s3] by (simp add: Inl op [simplified Inl])
    ultimately show ?thesis by (rule concludes_step) simp_all
  next
    case (Inr v)
    let ?s3 = "?s2\<lparr>probes := set_task t (Answered h e (Ok v) (now (probes ?s2))) (resolve_slot i v (probes ?s2))\<rparr>"
    have "server_step d app ?s2 (Probe_End t) (after_present d t req t0 h (Ok v) ?s3)"
      by (rule server_step.probe_end [where b = "now (probes s)"]) (simp_all add: Inr)
    moreover have "concludes d app t req t0 (after_present d t req t0 h (Ok v) ?s3) out"
      using rest [of ?s3] v by (simp add: Inr op [simplified Inr])
    ultimately show ?thesis by (rule concludes_step) simp_all
  qed
  have "server_step d app ?s1 (Head_Effect t) (set_stage t req t0 (Headed h r) (?s1\<lparr>world := m\<rparr>))"
    using assms(1) ex(1) by (intro server_step.head_effect) simp_all
  then have "concludes d app t req t0 ?s1 out" by (rule concludes_op [OF _ c]) simp
  then show ?thesis
    by (rule concludes_step [OF server_step.probe_start [OF assms(1-4)]]) simp_all
qed

text \<open>\<open>present\<close>, from the entry into the cache to what the handler does with the answer.\<close>

lemma present_concludes:
  assumes "cell_spec d" "flight_inv (probes s)" "no_probe (probes s)"
    and later: "\<And>r m. exists (storage app) h (machine_now s) = (r, m) \<Longrightarrow> later (machine_now s) m"
    and pr: "present (d_get_or_try_init d) h (exists (storage app) h) (view (probes s)) (machine_now s) = (pr, pc, m)"
    and rest: "\<And>s2. seq s2 = \<lparr>probe = pc, machine = m\<rparr> \<Longrightarrow>
      concludes d app t req t0 (after_present d t req t0 h pr s2) out"
    and slot: "flight_slot h (probes s) = (i, p1)"
  shows "concludes d app t req t0
    (set_stage t req t0 (Awaiting h) (s\<lparr>probes := set_task t (Waiting h i (now (probes s))) p1\<rparr>)) out"
proof -
  note fc = flight_slot_facts [OF slot assms(2)]
  have mn: "machine_now (s\<lparr>probes := set_task t (Waiting h i (now (probes s))) p1\<rparr>) = machine_now s"
    using fc by (simp add: machine_now_def)
  have ck: "clock (machine_now s) = now (probes s)" by (simp add: machine_now_def)
  let ?s1 = "set_stage t req t0 (Awaiting h) (s\<lparr>probes := set_task t (Waiting h i (now (probes s))) p1\<rparr>)"
  show ?thesis
  proof (cases "present_cell (heap p1 ! i)")
    case (Some v)
    have hit: "pr = Ok v" "pc = view p1" "m = machine_now s"
      using pr present_hit_view [OF assms(1,2) slot Some ck, of "exists (storage app) h"] by simp_all
    show ?thesis
    proof (rule after_present_step [where i = i and e = "now (probes s)" and v = v])
      show "concludes d app t req t0 (after_present d t req t0 h (Ok v)
          (?s1\<lparr>probes := set_task t (Answered h (now (probes s)) (Ok v) (resolved_at (heap (probes ?s1) ! i))) (probes ?s1)\<rparr>)) out"
        unfolding hit(1) [symmetric] by (rule rest) (simp add: seq_def hit mn)
    qed (use Some in simp_all)
  next
    case None
    obtain r mid where ex: "exists (storage app) h (machine_now s) = (r, mid)"
      by (cases "exists (storage app) h (machine_now s)")
    have miss: "pr = r" "m = mid" "pc = (case r of Ok v \<Rightarrow> view (resolve_slot i v p1) | Err e \<Rightarrow> view p1)"
      using pr present_miss_view [where f = "exists (storage app) h", OF assms(1,2) slot None ex ck] by auto
    have vw: "view (resolve_slot i v (set_task t st p1)) = view (resolve_slot i v p1)" for v st
      by (rule view_resolve_same) simp_all
    show ?thesis
    proof (rule probe_concludes [where i = i and e = "now (probes s)" and r = r and m = mid])
      show "concludes d app t req t0 (after_present d t req t0 h r s2) out"
        if "machine_now s2 = mid"
          "view (probes s2) = (case r of Ok v \<Rightarrow> view (resolve_slot i v (probes ?s1)) | Err e \<Rightarrow> view (probes ?s1))" for s2
        using rest [of s2] that miss by (cases r) (simp_all add: seq_def vw)
    qed (use None no_probe_permit [OF assms(2,3) slot] ex later [OF ex] mn in simp_all)
  qed
qed

context storage_contract
begin

lemma get_concludes:
  assumes app: "storage app = provider" and cell: "cell_spec d" and inv: "flight_inv (probes s)" "no_probe (probes s)"
    and get: "retrieve_artifact d app h (seq s) = (r, srv')"
  shows "concludes d app t req t0 (begin_get d t req t0 h s) (r, req_body req, srv')"
proof -
  obtain i p1 where slot: "flight_slot h (probes s) = (i, p1)" by (cases "flight_slot h (probes s)")
  have later: "later (machine_now s) m" if "exists (storage app) h (machine_now s) = (x, m)" for x m
    using that app exists_later by simp
  have read: "concludes d app t req t0 (after_present d t req t0 h (Ok True) s2) (r, req_body req, srv')"
    if rr: "retrieve (storage app) h m1 = (rr, m2)" and s2: "seq s2 = \<lparr>probe = pc, machine = m1\<rparr>"
      and fin: "\<And>s3. seq s3 = \<lparr>probe = pc, machine = m2\<rparr> \<Longrightarrow>
        concludes d app t req t0 (after_retrieve d t req t0 rr s3) (r, req_body req, srv')" for m1 rr m2 pc s2
  proof -
    have "machine_now s2 = m1" using arg_cong [OF s2, of machine] by simp
    then show ?thesis
      using rr app retrieve_later [of h m1 rr m2] s2 fin
      by (auto simp: after_present_def intro!: retrieve_concludes)
  qed
  have go: "concludes d app t req t0 (begin_get d t req t0 h s) (r, req_body req, srv')"
    if valid: "validate_hash (d_uni d) h = Ok ()"
      and pr: "present (d_get_or_try_init d) h (exists (storage app) h) (probe (seq s)) (machine (seq s)) = (pr, pc, m)"
      and rest: "\<And>s2. seq s2 = \<lparr>probe = pc, machine = m\<rparr> \<Longrightarrow>
        concludes d app t req t0 (after_present d t req t0 h pr s2) (r, req_body req, srv')" for pr pc m
    using present_concludes [OF cell inv later _ rest slot] pr valid slot by (simp add: begin_get_def)
  show ?thesis
    using get
  proof (cases rule: retrieve_artifact_cases)
    case invalid
    then show ?thesis using concludes_finish by (simp add: begin_get_def)
  next
    case (absent pr p1 m1)
    show ?thesis
    proof (rule go [OF absent(1,2)])
      show "concludes d app t req t0 (after_present d t req t0 h pr s2) (r, req_body req, srv')"
        if "seq s2 = \<lparr>probe = p1, machine = m1\<rparr>" for s2
        using concludes_finish [of d app t req t0 r "req_body req" s2] absent(3-5) that
        by (simp add: after_present_def unwrap_or_False)
    qed
  next
    case (failed p1 m1 e m2)
    show ?thesis
    proof (rule go [OF failed(1,2)], rule read [OF failed(3)], assumption)
      show "concludes d app t req t0 (after_retrieve d t req t0 (Err e) s3) (r, req_body req, srv')"
        if "seq s3 = \<lparr>probe = p1, machine = m2\<rparr>" for s3
        using concludes_finish [of d app t req t0 r "req_body req" s3] failed(4,5) that
        by (simp add: after_retrieve_def)
    qed
  next
    case (served p1 m1 reader m2)
    show ?thesis
    proof (rule go [OF served(1,2)], rule read [OF served(3)], assumption)
      show "concludes d app t req t0 (after_retrieve d t req t0 (Ok reader) s3) (r, req_body req, srv')"
        if "seq s3 = \<lparr>probe = p1, machine = m2\<rparr>" for s3
        using concludes_finish [of d app t req t0 r "req_body req" s3] served(4,5) that
        by (simp add: after_retrieve_def)
    qed
  qed
qed

end

section \<open>The router\<close>

context storage_contract
begin

lemma cache_concludes:
  assumes "storage app = provider" "cell_spec d" "flight_inv (probes s)" "no_probe (probes s)"
    and "cache_methods d app param req (seq s) = Some (resp, rest, srv')"
  shows "\<exists>out. concludes d app t req t0 (begin_cache d t req t0 param s) out \<and>
    respond (Some out) = Some (resp, rest, srv')"
proof -
  have fin: "\<exists>out. concludes d app t req t0 (finish d t req t0 (Ok x) (req_body req) s) out \<and>
      respond (Some out) = Some (x, req_body req, seq s)" for x
    by (intro exI conjI, rule concludes_finish) (simp add: respond_def)
  show ?thesis
  proof (cases "\<exists>hash. param = Some hash \<and> (is_read (req_method req) \<or> req_method req = PUT)")
    case False
    then show ?thesis using assms(5) fin by (cases param) (auto simp: cache_methods_def begin_cache_def is_read_def)
  next
    case True
    then obtain hash where h: "param = Some hash" by blast
    show ?thesis
    proof (cases "is_read (req_method req)")
      case True
      obtain r srv1 where g: "retrieve_artifact d app hash (seq s) = (r, srv1)"
        by (cases "retrieve_artifact d app hash (seq s)")
      have "respond (Some (r, req_body req, srv1)) = Some (resp, rest, srv')"
        using assms(5) True h g by (auto simp: cache_methods_def is_read_def)
      then show ?thesis using get_concludes [OF assms(1-4) g] True h
        by (intro exI [of _ "(r, req_body req, srv1)"]) (auto simp: begin_cache_def is_read_def)
    next
      case False
      then have put: "req_method req = PUT" using True by simp
      then have p: "respond (store_artifact d app hash (req_body req) (seq s)) = Some (resp, rest, srv')"
        using assms(5) h by (simp add: cache_methods_def)
      then obtain r rest1 srv1 where st: "store_artifact d app hash (req_body req) (seq s) = Some (r, rest1, srv1)"
        by (cases "store_artifact d app hash (req_body req) (seq s)") (auto simp: respond_def)
      then show ?thesis using put_concludes [OF assms(1,3) st] put h p
        by (intro exI [of _ "(r, rest1, srv1)"]) (auto simp: begin_cache_def)
    qed
  qed
qed

lemma arrive_concludes:
  assumes "storage app = provider" "cell_spec d" "flight_inv (probes s)" "no_probe (probes s)"
    and "route d app req (seq s) = Some (resp, rest, srv')"
  shows "\<exists>out. concludes d app t req (now (probes s)) (arrive d app t req s) out \<and>
    respond (Some out) = Some (resp, rest, srv')"
proof -
  let ?t0 = "now (probes s)"
  have fin: "\<exists>out. concludes d app t req ?t0 (finish d t req ?t0 r (req_body req) s) out \<and>
      respond (Some out) = respond (Some (r, req_body req, seq s))" for r
    by (intro exI conjI, rule concludes_finish) simp
  show ?thesis
  proof (cases "d_match_path d (req_path req)")
    case (Route_Cache param)
    show ?thesis
    proof (cases "bearer_token d req")
      case None
      then show ?thesis using fin [of "Err Unauthorized"] assms(5) Route_Cache
        by (simp add: route_def auth_middleware_def arrive_def begin_auth_def)
    next
      case (Some tok)
      let ?rw = "is_read_write d (config app) tok" and ?ro = "is_read_only d (config app) tok"
      consider "\<not> ?rw" "\<not> ?ro" | "\<not> ?rw" "?ro" "\<not> is_read (req_method req)" | "?rw \<or> ?ro \<and> is_read (req_method req)"
        by blast
      then show ?thesis
      proof cases
        case 1
        then show ?thesis using fin [of "Err Unauthorized"] assms(5) Route_Cache Some
          by (simp add: route_def auth_middleware_def arrive_def begin_auth_def)
      next
        case 2
        obtain rest1 m where dr: "drain_body (req_body req) (machine_now s) = (rest1, m)"
          by (cases "drain_body (req_body req) (machine_now s)")
        show ?thesis using concludes_drain [OF dr, of d app t req ?t0 "Err Forbidden"] 2 assms(5) Route_Cache Some dr
          by (auto simp: route_def auth_middleware_def arrive_def begin_auth_def)
      next
        case 3
        obtain resp1 rest1 srv1 where c: "cache_methods d app param req (seq s) = Some (resp1, rest1, srv1)"
          using 3 assms(5) Route_Cache Some
          by (cases "cache_methods d app param req (seq s)") (auto simp: route_def auth_middleware_def respond_def)
        have "(resp1, rest1, srv1) = (resp, rest, srv')"
          using 3 assms(5) Route_Cache Some c by (auto simp: route_def auth_middleware_def respond_def)
        then show ?thesis using cache_concludes [OF assms(1-4) c] 3 Route_Cache Some
          by (auto simp: arrive_def begin_auth_def)
      qed
    qed
  qed (use fin [of "Ok health_check"] fin [of "Ok (d_axum_response d METHOD_NOT_ALLOWED)"]
        fin [of "Ok (d_axum_response d NOT_FOUND)"] assms(5)
      in \<open>auto simp: route_def arrive_def respond_def split: if_splits\<close>)
qed

end

section \<open>Sessions\<close>

text \<open>No request is in progress.\<close>

definition quiet :: "'s cserver \<Rightarrow> bool" where
  "quiet s \<longleftrightarrow> (\<forall>u req t0 st. jobs s u \<noteq> Active req t0 st)"

lemma quiet_no_probe:
  assumes "linked s" "quiet s"
  shows "no_probe (probes s)"
proof -
  have "tasks (probes s) u \<noteq> Probing k i e b" for u k i e b
    using linkedD [OF assms(1) refl, of u] assms(2) by (cases "jobs s u") (auto simp: quiet_def)
  then show ?thesis by (simp add: no_probe_def)
qed

lemma seq_finish:
  "seq (finish d t req t0 r rest s) = \<lparr>probe = view (probes s),
     machine = emit (access_event d req (response_of r) (now (probes s) - t0)) (logged r (machine_now s))\<rparr>"
  by (simp add: seq_def machine_now_finish)

lemma jobs_arrive_other: "u \<noteq> t \<Longrightarrow> jobs (arrive d app t req s) u = jobs s u"
  by (auto simp: arrive_def begin_auth_def begin_cache_def begin_get_def begin_put_def Let_def
      split: route_match.split option.split sum.split prod.split)

context storage_contract
begin

text \<open>One request, from its arrival to its response, with nothing else running.\<close>

lemma alone_run:
  assumes "storage app = provider" "cell_spec d" "linked s \<and> flight_inv (probes s)" "quiet s" "jobs s t = Unused"
    and "create_router d app req (seq s) = Some (resp, rest, srv')"
  shows "\<exists>acts s'. server_run d app s (Arrive t req # acts) s' \<and> list_all (own_step t) acts \<and>
    jobs s' = (jobs s)(t := Finished req resp rest) \<and> seq s' = srv'"
proof -
  note inv = assms(3) [THEN conjunct2] quiet_no_probe [OF assms(3) [THEN conjunct1] assms(4)]
  obtain resp1 srv1 where rt: "route d app req (seq s) = Some (resp1, rest, srv1)" "resp = closing resp1"
    "srv' = srv1\<lparr>machine :=
       emit (access_event d req resp1 (clock (machine srv1) - clock (machine (seq s)))) (machine srv1)\<rparr>"
    using assms(6) by (rule create_router_cases)
  obtain r rest1 s1 where run: "alone d app t (arrive d app t req s) (finish d t req (now (probes s)) r rest1 s1)"
    and keep: "\<And>u. u \<noteq> t \<Longrightarrow> jobs s1 u = jobs (arrive d app t req s) u"
    and out: "respond (Some (r, rest1, seq s1)) = Some (resp1, rest, srv1)"
    using arrive_concludes [OF assms(1,2) inv rt(1)] unfolding concludes_def by blast
  have o: "response_of r = resp1" "rest1 = rest" "srv1 = (seq s1)\<lparr>machine := logged r (machine_now s1)\<rparr>"
    using out by (simp_all add: respond_eq)
  let ?s' = "finish d t req (now (probes s)) r rest1 s1"
  have ck: "clock (machine_now s1) = now (probes s1)" "clock (machine_now s) = now (probes s)"
    by (simp_all add: machine_now_def)
  have "seq ?s' = srv'" by (simp add: seq_finish rt(3) o ck)
  moreover have "jobs ?s' = (jobs s)(t := Finished req resp rest)"
    using keep o rt(2) jobs_arrive_other [of _ t d app req s] by (auto simp: fun_eq_iff)
  moreover obtain acts where "server_run d app (arrive d app t req s) acts ?s'" "list_all (own_step t) acts"
    using run by (auto simp: alone_def)
  moreover have "server_step d app s (Arrive t req) (arrive d app t req s)"
    using assms(5) by (rule server_step.arrive)
  ultimately show ?thesis using server_run.run_step by blast
qed

text \<open>Any number of requests, one after the other.\<close>

lemma session_run:
  assumes "storage app = provider" "cell_spec d" "linked s \<and> flight_inv (probes s)" "quiet s"
    and "\<And>i. n \<le> i \<Longrightarrow> i < n + length reqs \<Longrightarrow> jobs s i = Unused"
    and "serve d app reqs (seq s) = Some (resps, srv')"
  shows "\<exists>acts s'. server_run d app s acts s' \<and> seq s' = srv' \<and> length resps = length reqs \<and>
    (\<forall>u. u < n \<or> n + length reqs \<le> u \<longrightarrow> jobs s' u = jobs s u) \<and>
    (\<forall>i < length reqs. \<exists>rest. jobs s' (n + i) = Finished (reqs ! i) (resps ! i) rest)"
  using assms(3-6)
proof (induction reqs arbitrary: s n resps)
  case Nil
  then show ?case by (intro exI [of _ "[]"] exI [of _ s]) simp
next
  case (Cons req reqs)
  obtain resp rest srv1 resps1 where step: "create_router d app req (seq s) = Some (resp, rest, srv1)"
    and rec: "serve d app reqs srv1 = Some (resps1, srv')" and resps: "resps = resp # resps1"
    using Cons.prems(4) by (auto split: option.splits)
  obtain acts s1 where run: "server_run d app s (Arrive n req # acts) s1"
    and j: "jobs s1 = (jobs s)(n := Finished req resp rest)" and sq: "seq s1 = srv1"
    using alone_run [OF assms(1,2) Cons.prems(1,2) _ step, of n] Cons.prems(3) by auto
  have q: "quiet s1" using Cons.prems(2) j by (simp add: quiet_def)
  have unused: "jobs s1 i = Unused" if "Suc n \<le> i" "i < Suc n + length reqs" for i
    using that Cons.prems(3) j by simp
  obtain acts2 s2 where run2: "server_run d app s1 acts2 s2" and fin: "seq s2 = srv'" "length resps1 = length reqs"
    and old: "\<forall>u. u < Suc n \<or> Suc n + length reqs \<le> u \<longrightarrow> jobs s2 u = jobs s1 u"
    and new: "\<forall>i < length reqs. \<exists>rest. jobs s2 (Suc n + i) = Finished (reqs ! i) (resps1 ! i) rest"
    using Cons.IH [OF server_run_inv [OF run Cons.prems(1)] q unused rec [folded sq]] by blast
  have "\<exists>rest. jobs s2 (n + i) = Finished ((req # reqs) ! i) (resps ! i) rest" if "i < Suc (length reqs)" for i
    using that old j resps new by (cases i) auto
  moreover have "jobs s2 u = jobs s u" if "u < n \<or> Suc (n + length reqs) \<le> u" for u
    using that old j by auto
  ultimately show ?case
    using server_run_append [OF run run2] fin resps
    by (intro exI [of _ "(Arrive n req # acts) @ acts2"] exI [of _ s2]) simp
qed

end

end
