(* ===== verification/Mock_Server.thy ===== *)
theory Mock_Server
  imports Server_Run
begin

text \<open>
  The repository's own specification of the router: the mock storage and the table of cases
  in the tests of \<open>src/server/mod.rs\<close>, as a second implementation of the storage trait and a
  list the model is checked against.
\<close>

section \<open>The mock storage\<close>

datatype exists_behavior = Exists_No | Exists_Yes | Exists_Fail

record mock_storage =
  mock_exists :: exists_behavior
  store_fails :: bool
  retrieve_fails :: bool

definition mock_new :: "exists_behavior \<Rightarrow> mock_storage" where
  "mock_new ex = \<lparr>mock_exists = ex, store_fails = False, retrieve_fails = False\<rparr>"

definition failing_store :: "mock_storage \<Rightarrow> mock_storage" where
  "failing_store ms = ms\<lparr>store_fails := True\<rparr>"

definition failing_retrieve :: "mock_storage \<Rightarrow> mock_storage" where
  "failing_retrieve ms = ms\<lparr>retrieve_fails := True\<rparr>"

text \<open>
  Copying a reader into a sink: to its end or its first error. The backend of the mock is
  its counter of \<open>store\<close> calls.
\<close>

fun copy_to_sink :: "body \<Rightarrow> 's machine \<Rightarrow> 's machine option" where
  "copy_to_sink Done m = Some m"
| "copy_to_sink Stalled m = None"
| "copy_to_sink (Broken d) m = Some (elapse d m)"
| "copy_to_sink (Chunk d bs b) m = copy_to_sink b (elapse d m)"

definition mock_exists_call ::
  "mock_storage \<Rightarrow> string \<Rightarrow> nat machine \<Rightarrow> (storage_error + bool) \<times> nat machine" where
  "mock_exists_call ms hash m =
     ((case mock_exists ms of
         Exists_No \<Rightarrow> Ok False
       | Exists_Yes \<Rightarrow> Ok True
       | Exists_Fail \<Rightarrow> Err OperationFailed), m)"

definition mock_store_call ::
  "mock_storage \<Rightarrow> string \<Rightarrow> body \<Rightarrow> nat machine \<Rightarrow> ((storage_error + unit) \<times> body \<times> nat machine) option" where
  "mock_store_call ms hash data m =
     (let m1 = m\<lparr>backend := Suc (backend m)\<rparr> in
      if store_fails ms then Some (Err OperationFailed, data, m1)
      else (case copy_to_sink data m1 of None \<Rightarrow> None | Some m2 \<Rightarrow> Some (Ok (), Done, m2)))"

definition ascii_bytes :: "string \<Rightarrow> bytes" where
  "ascii_bytes s = map (\<lambda>c. of_nat (of_char c)) s"

definition mock_retrieve_call ::
  "mock_storage \<Rightarrow> string \<Rightarrow> nat machine \<Rightarrow> (storage_error + body) \<times> nat machine" where
  "mock_retrieve_call ms hash m =
     (if retrieve_fails ms then Err OperationFailed else Ok (Chunk 0 (ascii_bytes ''artifact'') Done), m)"

definition mock_provider :: "mock_storage \<Rightarrow> nat storage_provider" where
  "mock_provider ms =
     \<lparr>exists = mock_exists_call ms, store = mock_store_call ms, retrieve = mock_retrieve_call ms\<rparr>"

text \<open>The mock keeps the contract of the trait too.\<close>

lemma copy_to_sink_later: "copy_to_sink b m = Some m' \<Longrightarrow> later m m' \<and> backend m' = backend m"
proof (induction b arbitrary: m)
  case (Chunk d bs b)
  then have "later (elapse d m) m' \<and> backend m' = backend m" using Chunk.IH [of "elapse d m"] by simp
  then show ?case using later_trans [of m "elapse d m" m'] by simp
qed auto

lemma copy_to_sink_returns: "terminates b \<Longrightarrow> \<exists>m'. copy_to_sink b m = Some m'"
  by (induction b arbitrary: m) auto

lemma count_later: "later (m\<lparr>backend := x\<rparr>) m' \<Longrightarrow> later m m'"
  by (simp add: later_def)

interpretation mock: storage_contract "mock_provider ms" for ms
proof unfold_locales
  fix k m m' r r' s b rest
  show "exists (mock_provider ms) k m = (r, m') \<Longrightarrow> later m m'"
    by (simp add: mock_provider_def mock_exists_call_def)
  show "retrieve (mock_provider ms) k m = (r', m') \<Longrightarrow> later m m'"
    by (simp add: mock_provider_def mock_retrieve_call_def)
  show "store (mock_provider ms) k b m = Some (s, rest, m') \<Longrightarrow> later m m'"
    by (auto simp: mock_provider_def mock_store_call_def later_def Let_def split: if_splits option.splits
        dest: copy_to_sink_later)
  show "terminates b \<Longrightarrow> \<exists>s rest m'. store (mock_provider ms) k b m = Some (s, rest, m')"
    using copy_to_sink_returns [of b "m\<lparr>backend := Suc (backend m)\<rparr>"]
    by (auto simp: mock_provider_def mock_store_call_def Let_def)
  show "store (mock_provider ms) k b m = Some (s, rest, m') \<Longrightarrow> \<exists>taken. body_bytes b = taken @ body_bytes rest"
    by (auto simp: mock_provider_def mock_store_call_def Let_def split: if_splits option.splits)
  show "store (mock_provider ms) k b m = Some (s, rest, m') \<Longrightarrow> terminates b \<Longrightarrow> terminates rest"
    by (auto simp: mock_provider_def mock_store_call_def Let_def split: if_splits option.splits)
  show "store (mock_provider ms) k b m = Some (Ok (), rest, m') \<Longrightarrow> rest = Done"
    by (auto simp: mock_provider_def mock_store_call_def Let_def split: if_splits option.splits)
  show "store (mock_provider ms) k b m = Some (Err ClientAbort, rest, m') \<Longrightarrow> rest = Done"
    by (auto simp: mock_provider_def mock_store_call_def Let_def split: if_splits option.splits)
qed

section \<open>The table of cases\<close>

definition RW_TOKEN :: string where
  "RW_TOKEN = ''test-rw-token''"

definition RO_TOKEN :: string where
  "RO_TOKEN = ''test-ro-token''"

definition test_config :: server_config where
  "test_config =
     \<lparr>port = 3000, bind_address = V4 0x7F000001, service_access_token = RW_TOKEN,
      read_only_access_token = Some RO_TOKEN\<rparr>"

definition test_app :: "mock_storage \<Rightarrow> nat app_state" where
  "test_app ms = \<lparr>storage = mock_provider ms, config = test_config\<rparr>"

definition test_server :: "nat server" where
  "test_server = \<lparr>probe = fmempty, machine = \<lparr>clock = 0, log = [], calls = [], backend = 0\<rparr>\<rparr>"

datatype test_token = Rw | Ro | Wrong | No_Token

datatype drain = Required | NotRequired string

record test_case =
  case_method :: http_method
  case_hash :: string
  case_token :: test_token
  case_exists :: exists_behavior
  case_store_fails :: bool
  case_status :: status_code
  case_drain :: drain

definition VALID_HASH :: string where
  "VALID_HASH = ''abc123''"

definition INVALID_HASH :: string where
  "INVALID_HASH = ''bad.hash!''"

definition BODY_CHUNKS :: nat where
  "BODY_CHUNKS = 32"

definition ok_case :: "http_method \<Rightarrow> test_token \<Rightarrow> status_code \<Rightarrow> drain \<Rightarrow> test_case" where
  "ok_case meth token st dr =
     \<lparr>case_method = meth, case_hash = VALID_HASH, case_token = token, case_exists = Exists_Yes,
      case_store_fails = False, case_status = st, case_drain = dr\<rparr>"

definition unauthenticated_reason :: string where
  "unauthenticated_reason =
     ''an unauthenticated caller is owed nothing; reading a body before deciding whether the caller may speak at all would let anyone make us read''"

definition builtin_405_reason :: string where
  "builtin_405_reason =
     ''axum's built-in 405, which we never see the body of. Reaching it needs the write token and a method no Nx client sends, so it buys a `method_not_allowed_fallback` handler nothing''"

definition put_case :: "string \<Rightarrow> test_token \<Rightarrow> exists_behavior \<Rightarrow> bool \<Rightarrow> status_code \<Rightarrow> test_case" where
  "put_case hash token ex fails st =
     \<lparr>case_method = PUT, case_hash = hash, case_token = token, case_exists = ex,
      case_store_fails = fails, case_status = st, case_drain = Required\<rparr>"

definition miss_case :: "http_method \<Rightarrow> test_case" where
  "miss_case meth =
     \<lparr>case_method = meth, case_hash = VALID_HASH, case_token = Ro, case_exists = Exists_No,
      case_store_fails = False, case_status = NOT_FOUND, case_drain = Required\<rparr>"

definition all_cases :: "test_case list" where
  "all_cases =
     [ok_case GET Rw HTTP_OK Required,
      ok_case GET Ro HTTP_OK Required,
      ok_case GET Wrong UNAUTHORIZED (NotRequired unauthenticated_reason),
      ok_case GET No_Token UNAUTHORIZED (NotRequired unauthenticated_reason),
      ok_case HEAD Rw HTTP_OK Required,
      ok_case HEAD Ro HTTP_OK Required,
      ok_case HEAD Wrong UNAUTHORIZED (NotRequired unauthenticated_reason),
      ok_case HEAD No_Token UNAUTHORIZED (NotRequired unauthenticated_reason),
      put_case VALID_HASH Ro Exists_No False FORBIDDEN,
      put_case VALID_HASH Rw Exists_No False HTTP_OK,
      ok_case PUT Wrong UNAUTHORIZED (NotRequired unauthenticated_reason),
      ok_case PUT No_Token UNAUTHORIZED (NotRequired unauthenticated_reason),
      ok_case POST Rw METHOD_NOT_ALLOWED (NotRequired builtin_405_reason),
      ok_case POST Ro FORBIDDEN Required,
      ok_case POST Wrong UNAUTHORIZED (NotRequired unauthenticated_reason),
      ok_case POST No_Token UNAUTHORIZED (NotRequired unauthenticated_reason),
      ok_case PUT Rw CONFLICT Required,
      put_case INVALID_HASH Rw Exists_No False BAD_REQUEST,
      put_case INVALID_HASH Ro Exists_No False FORBIDDEN,
      put_case VALID_HASH Rw Exists_Fail False HTTP_OK,
      put_case VALID_HASH Rw Exists_No True FORBIDDEN,
      miss_case GET,
      miss_case HEAD]"

section \<open>Running a case\<close>

definition zero_chunk :: bytes where
  "zero_chunk = replicate 1024 0"

fun counted_body :: "nat \<Rightarrow> body" where
  "counted_body 0 = Done"
| "counted_body (Suc n) = Chunk 0 zero_chunk (counted_body n)"

definition carries_body :: "test_case \<Rightarrow> bool" where
  "carries_body tc \<longleftrightarrow> case_method tc = PUT \<or> case_method tc = POST"

definition auth_header :: "test_token \<Rightarrow> headers" where
  "auth_header token =
     (case token of
        Rw \<Rightarrow> [(''authorization'', ''Bearer '' @ RW_TOKEN)]
      | Ro \<Rightarrow> [(''authorization'', ''Bearer '' @ RO_TOKEN)]
      | Wrong \<Rightarrow> [(''authorization'', ''Bearer nope'')]
      | No_Token \<Rightarrow> [])"

definition cache_path :: "string \<Rightarrow> string" where
  "cache_path hash = ''/v1/cache/'' @ hash"

definition case_request :: "test_case \<Rightarrow> request" where
  "case_request tc =
     \<lparr>req_method = case_method tc, req_path = cache_path (case_hash tc),
      req_headers = auth_header (case_token tc),
      req_body = (if carries_body tc then counted_body BODY_CHUNKS else Done)\<rparr>"

definition case_storage :: "test_case \<Rightarrow> mock_storage" where
  "case_storage tc =
     (if case_store_fails tc then failing_store (mock_new (case_exists tc)) else mock_new (case_exists tc))"

text \<open>The assertions of \<open>every_response_drains_the_body\<close> for one case.\<close>

definition case_passes :: "nat deps \<Rightarrow> test_case \<Rightarrow> bool" where
  "case_passes d tc =
     (case create_router d (test_app (case_storage tc)) (case_request tc) test_server of
        None \<Rightarrow> False
      | Some (resp, rest, srv) \<Rightarrow>
          status resp = case_status tc \<and>
          header_get (resp_headers resp) ''connection'' = Some ''close'' \<and>
          (carries_body tc \<longrightarrow>
             (case case_drain tc of
                Required \<Rightarrow> chunk_count rest = 0
              | NotRequired reason \<Rightarrow> reason \<noteq> [])))"

text \<open>\<open>cross_product_is_covered\<close>.\<close>

definition covered :: "test_case list \<Rightarrow> http_method \<Rightarrow> test_token \<Rightarrow> bool" where
  "covered cs meth token \<longleftrightarrow> list_ex (\<lambda>tc. case_method tc = meth \<and> case_token tc = token) cs"

section \<open>Evaluating the model\<close>

lemma elapse_0 [simp]: "elapse 0 m = m"
  by (simp add: elapse_def)

lemma drain_counted: "0 < limit \<Longrightarrow> drain_stream limit (counted_body n) = (0, Done)"
  by (induction n) simp_all

lemma copy_counted: "copy_to_sink (counted_body n) m = Some m"
  by (induction n) simp_all

lemma hash_eval:
  "validate_hash uni VALID_HASH = Ok ()" "validate_hash uni INVALID_HASH = Err BadRequest"
  by (simp_all add: VALID_HASH_def INVALID_HASH_def validate_hash_def hash_char_def is_alphanumeric_def
      ascii_alphanumeric_def chars_1)

lemma path_eval:
  "reference_match_path (cache_path VALID_HASH) = Route_Cache (Some VALID_HASH)"
  "reference_match_path (cache_path INVALID_HASH) = Route_Cache (Some INVALID_HASH)"
  by (simp_all add: reference_match_path_def cache_path_def VALID_HASH_def INVALID_HASH_def strip_prefix_def)

lemma bearer_eval:
  "bearer_token reference_deps \<lparr>req_method = meth, req_path = p, req_headers = auth_header token, req_body = b\<rparr> =
     (case token of Rw \<Rightarrow> Some RW_TOKEN | Ro \<Rightarrow> Some RO_TOKEN | Wrong \<Rightarrow> Some ''nope'' | No_Token \<Rightarrow> None)"
  by (cases token)
    (simp_all add: bearer_token_def auth_header_def RW_TOKEN_def RO_TOKEN_def header_get_def
      reference_deps_def reference_to_str_def strip_prefix_def)

lemma token_eval:
  "RW_TOKEN \<noteq> RO_TOKEN" "RO_TOKEN \<noteq> RW_TOKEN" "''nope'' \<noteq> RW_TOKEN" "''nope'' \<noteq> RO_TOKEN"
  by (simp_all add: RW_TOKEN_def RO_TOKEN_def)

lemma reference_deps_simps:
  "d_get_or_try_init reference_deps = reference_get_or_try_init" "d_ct_eq reference_deps = (=)"
  "d_match_path reference_deps = reference_match_path" "d_reader_stream reference_deps = (\<lambda>b. b)"
  "d_axum_response reference_deps = (\<lambda>s. \<lparr>status = s, resp_headers = [], resp_body = Empty\<rparr>)"
  by (simp_all add: reference_deps_def)

lemmas router_eval [eval_model] = create_router_eq route_def cache_methods_def auth_middleware_eq authenticated_def
  may_write_def is_read_write_def is_read_only_def is_read_def respond_def header_get_def header_insert_def
  into_response_def text_response_def typed_text_response_def closing_def reference_deps_simps
  hash_eval path_eval bearer_eval token_eval

lemmas handler_eval [eval_model] = store_artifact_def retrieve_artifact_def drain_body_def drain_body_within_def
  DRAIN_TIMEOUT_def from_secs_def present_def slot_for_def reference_get_or_try_init_def Let_def

lemmas mock_eval [eval_model] = test_app_def test_config_def test_server_def mock_provider_def mock_exists_call_def
  mock_store_call_def mock_retrieve_call_def mock_new_def failing_store_def case_storage_def
  case_request_def carries_body_def drain_counted copy_counted

section \<open>The table holds of the model\<close>

text \<open>The repository's table of cases. For every row (method, token, key, behaviour of the
  storage) the router answers the expected status with \<open>Connection: close\<close>, having read the
  whole body of a PUT or POST where the row requires it; and the rows cover the product of
  the methods GET, HEAD, PUT, POST and the four token classes.\<close>

theorem all_cases_pass:
  "list_all (case_passes reference_deps) all_cases \<and>
   list_all (\<lambda>meth. list_all (covered all_cases meth) [Rw, Ro, Wrong, No_Token]) [GET, HEAD, PUT, POST]"
proof
  show "list_all (case_passes reference_deps) all_cases"
    by (simp add: all_cases_def case_passes_def eval_model ok_case_def put_case_def
        miss_case_def unauthenticated_reason_def builtin_405_reason_def)
  show "list_all (\<lambda>meth. list_all (covered all_cases meth) [Rw, Ro, Wrong, No_Token]) [GET, HEAD, PUT, POST]"
    by (simp add: all_cases_def covered_def ok_case_def put_case_def miss_case_def)
qed

end
