(* ===== verification/Server_Properties.thy ===== *)
theory Server_Properties
  imports Mock_Server
begin

text \<open>
  The properties of the server, from a request to its response through the whole router,
  for every storage, or for every storage that keeps the contract of the trait. Their
  witnesses evaluate them on the mock storage of the tests.
\<close>

section \<open>Requests on the cache route\<close>

definition cache_request :: "'s deps \<Rightarrow> request \<Rightarrow> string \<Rightarrow> bool" where
  "cache_request d req h \<longleftrightarrow> d_match_path d (req_path req) = Route_Cache (Some h)"

lemma route_cache:
  "d_match_path d (req_path req) = Route_Cache param \<Longrightarrow>
     route d app req srv = respond (auth_middleware d (config app) (cache_methods d app param) req srv)"
  by (simp add: route_def)

text \<open>The three outcomes of a request on the cache route.\<close>

lemma route_unauthenticated:
  assumes "d_match_path d (req_path req) = Route_Cache param" "\<not> authenticated d (config app) req"
  shows "route d app req srv = Some (fst (into_response Unauthorized (machine srv)), req_body req, srv)"
  using assms
  by (simp add: route_cache auth_middleware_eq respond_def into_response_def typed_text_response_def
      text_response_def split: prod.split)

lemma route_read_only:
  assumes "d_match_path d (req_path req) = Route_Cache param" "authenticated d (config app) req"
    "\<not> may_write d (config app) req" "\<not> is_read (req_method req)"
    "drain_body (req_body req) (machine srv) = (rest, m)"
  shows "route d app req srv = Some (fst (into_response Forbidden m), rest, srv\<lparr>machine := m\<rparr>)"
  using assms
  by (simp add: route_cache auth_middleware_eq respond_def into_response_def typed_text_response_def
      text_response_def split: prod.split)

lemma respond_Ok [simp]:
  "respond (map_option (\<lambda>(resp, y). (Ok resp, y)) h) = h"
  by (cases h) (auto simp: respond_def)

lemma route_allowed:
  assumes "d_match_path d (req_path req) = Route_Cache param" "authenticated d (config app) req"
    "may_write d (config app) req \<or> is_read (req_method req)"
  shows "route d app req srv = cache_methods d app param req srv"
  using assms by (auto simp: route_cache auth_middleware_eq)

section \<open>Who may do what\<close>

text \<open>C1: no write without the service token. For a request whose bearer token is not the
  service access token, whatever its method, path and body, the outcome (response, cache,
  log, clock, world) does not depend on the storage's \<open>store\<close> operation at all: it is never
  called.\<close>

theorem no_write_without_service_token:
  assumes "ct_eq_spec d" "bearer_token d req \<noteq> Some (service_access_token (config app))"
  shows "create_router d (app\<lparr>storage := (storage app)\<lparr>store := other_store\<rparr>\<rparr>) req srv =
    create_router d app req srv"
proof -
  let ?app = "app\<lparr>storage := (storage app)\<lparr>store := other_store\<rparr>\<rparr>"
  have not_rw: "\<not> may_write d (config app) req" using assms by (simp add: may_write_iff)
  have get: "retrieve_artifact d ?app h srv = retrieve_artifact d app h srv" for h
    by (simp add: retrieve_artifact_def split: sum.split prod.split)
  have "cache_methods d ?app param req srv = cache_methods d app param req srv"
    if "is_read (req_method req)" for param
    using that get by (auto simp: cache_methods_def is_read_def split: option.split)
  then have "route d ?app req srv = route d app req srv"
    using not_rw by (auto simp: route_def auth_middleware_eq split: route_match.split)
  then show ?thesis by (simp add: create_router_eq)
qed

definition ro_put :: request where
  "ro_put = case_request (put_case VALID_HASH Ro Exists_No False FORBIDDEN)"

lemmas case_eval = ok_case_def put_case_def miss_case_def

lemma no_write_without_service_token_witness:
  "create_router reference_deps
     ((test_app (mock_new Exists_No))\<lparr>storage := (mock_provider (mock_new Exists_No))\<lparr>store := (\<lambda>_ _ _. None)\<rparr>\<rparr>)
     ro_put test_server =
   create_router reference_deps (test_app (mock_new Exists_No)) ro_put test_server"
proof -
  have "bearer_token (reference_deps :: nat deps) ro_put = Some RO_TOKEN"
    by (simp add: ro_put_def case_request_def case_eval bearer_eval)
  then have "bearer_token (reference_deps :: nat deps) ro_put \<noteq> Some (service_access_token (config (test_app (mock_new Exists_No))))"
    by (simp add: test_app_def test_config_def token_eval)
  from no_write_without_service_token [OF reference_deps_specs(1) this, of "\<lambda>_ _ _. None" test_server]
  show ?thesis by (simp add: test_app_def)
qed

text \<open>An unauthenticated request on the cache route is answered 401, with a non-empty plain
  text body, before anything is read or touched: the request body is unread, no time has
  passed, and storage, cache and world are as before.\<close>

theorem unauthenticated_is_401:
  assumes "ct_eq_spec d" "d_match_path d (req_path req) = Route_Cache param"
    and "bearer_token d req \<noteq> Some (service_access_token (config app))"
    and "bearer_token d req = None \<or> bearer_token d req \<noteq> read_only_access_token (config app)"
  shows "\<exists>resp srv' msg. create_router d app req srv = Some (resp, req_body req, srv') \<and>
    status resp = UNAUTHORIZED \<and> header_get (resp_headers resp) ''content-type'' = Some ''text/plain'' \<and>
    resp_body resp = Text msg \<and> msg \<noteq> [] \<and> probe srv' = probe srv \<and>
    clock (machine srv') = clock (machine srv) \<and> calls (machine srv') = calls (machine srv) \<and>
    backend (machine srv') = backend (machine srv)"
proof -
  have "\<not> authenticated d (config app) req" using assms(1,3,4) by (auto simp: authenticated_iff)
  then have "route d app req srv = Some (fst (into_response Unauthorized (machine srv)), req_body req, srv)"
    using assms(2) by (rule route_unauthenticated [rotated])
  then show ?thesis
    by (simp add: create_router_eq into_response_content_type into_response_body status_into_response)
qed

lemma unauthenticated_is_401_witness:
  "\<exists>resp rest srv'. create_router reference_deps (test_app (mock_new Exists_Yes))
      (case_request (ok_case PUT Wrong UNAUTHORIZED Required)) test_server = Some (resp, rest, srv') \<and>
    status resp = UNAUTHORIZED"
proof -
  let ?req = "case_request (ok_case PUT Wrong UNAUTHORIZED Required)"
  have b: "bearer_token (reference_deps :: nat deps) ?req = Some ''nope''"
    by (simp add: case_request_def case_eval bearer_eval)
  have "d_match_path (reference_deps :: nat deps) (req_path ?req) = Route_Cache (Some VALID_HASH)"
    by (simp add: case_request_def case_eval reference_deps_simps path_eval)
  from unauthenticated_is_401 [OF reference_deps_specs(1) this, of "test_app (mock_new Exists_Yes)" test_server]
  show ?thesis using b by (simp add: test_app_def test_config_def token_eval) blast
qed

text \<open>C27: the read-only token reads only. With it, every request on the cache route other than
  GET and HEAD is answered 403 with a non-empty plain text body, after its body was read to
  the end or for 60 seconds, and leaves storage, cache and world as before.\<close>

theorem read_only_token_cannot_write:
  assumes "ct_eq_spec d" "d_match_path d (req_path req) = Route_Cache param"
    and "read_only_access_token (config app) = Some token" "token \<noteq> service_access_token (config app)"
    and "bearer_token d req = Some token" "req_method req \<noteq> GET" "req_method req \<noteq> HEAD"
  shows "\<exists>resp rest srv' msg. create_router d app req srv = Some (resp, rest, srv') \<and>
    status resp = FORBIDDEN \<and> header_get (resp_headers resp) ''content-type'' = Some ''text/plain'' \<and>
    resp_body resp = Text msg \<and> msg \<noteq> [] \<and>
    (rest = Done \<or> clock (machine srv') = clock (machine srv) + from_secs 60) \<and>
    probe srv' = probe srv \<and> calls (machine srv') = calls (machine srv) \<and>
    backend (machine srv') = backend (machine srv)"
proof -
  have auth: "authenticated d (config app) req" "\<not> may_write d (config app) req"
    using assms(1,3-5) by (simp_all add: authenticated_iff may_write_iff)
  obtain rest m where dr: "drain_body (req_body req) (machine srv) = (rest, m)"
    by (cases "drain_body (req_body req) (machine srv)")
  have "route d app req srv = Some (fst (into_response Forbidden m), rest, srv\<lparr>machine := m\<rparr>)"
    using assms(2) auth _ dr by (rule route_read_only) (use assms(6,7) in \<open>simp add: is_read_def\<close>)
  then show ?thesis using drain_body_done [OF dr] drain_body_frame [OF dr]
    by (simp add: create_router_eq into_response_content_type into_response_body status_into_response
        DRAIN_TIMEOUT_def)
qed

lemma read_only_token_cannot_write_witness:
  "\<exists>resp rest srv'. create_router reference_deps (test_app (mock_new Exists_No)) ro_put test_server =
      Some (resp, rest, srv') \<and> status resp = FORBIDDEN"
proof -
  have b: "bearer_token (reference_deps :: nat deps) ro_put = Some RO_TOKEN" "req_method ro_put = PUT"
    by (simp_all add: ro_put_def case_request_def case_eval bearer_eval)
  have "d_match_path (reference_deps :: nat deps) (req_path ro_put) = Route_Cache (Some VALID_HASH)"
    by (simp add: ro_put_def case_request_def case_eval reference_deps_simps path_eval)
  from read_only_token_cannot_write [OF reference_deps_specs(1) this, of "test_app (mock_new Exists_No)" RO_TOKEN test_server]
  show ?thesis using b by (simp add: test_app_def test_config_def token_eval) blast
qed

section \<open>What is answered\<close>

text \<open>The abstract table of a PUT with the write token: its status from the storage's answers.\<close>

definition put_status :: "'s deps \<Rightarrow> 's storage_provider \<Rightarrow> string \<Rightarrow> body \<Rightarrow> 's machine \<Rightarrow> status_code" where
  "put_status d p h b m =
     (if validate_hash (d_uni d) h \<noteq> Ok () then BAD_REQUEST
      else case exists p h m of
        (ex, m1) \<Rightarrow>
          if ex = Ok True then CONFLICT
          else case store p h (d_reader_stream d b) m1 of
            Some (Ok _, _, _) \<Rightarrow> HTTP_OK
          | Some (Err ClientAbort, _, _) \<Rightarrow> BAD_REQUEST
          | _ \<Rightarrow> FORBIDDEN)"

lemma respond_store_status:
  assumes "respond (store_artifact d app h b srv) = Some (resp, rest, srv')"
  shows "status resp = put_status d (storage app) h b (machine srv)"
  using assms
proof (cases rule: respond_cases)
  case ok
  then show ?thesis
    by (cases rule: store_artifact_cases) (auto simp: put_status_def text_response_def)
next
  case (err e srv1)
  from err(1) show ?thesis unfolding err(2) status_into_response
  proof (cases rule: store_artifact_cases)
    case (declined ex m1 e' rest1 m2 m3)
    then show "fst (error_status_message e) = put_status d (storage app) h b (machine srv)"
      by (cases e') (simp_all add: put_status_def)
  qed (simp_all add: put_status_def)
qed

lemma put_status_eq:
  assumes "ct_eq_spec d" "cache_request d req h" "req_method req = PUT"
    and "bearer_token d req = Some (service_access_token (config app))"
    and "create_router d app req srv = Some (resp, rest, srv')"
  shows "status resp = put_status d (storage app) h (req_body req) (machine srv)"
  using assms(5)
proof (cases rule: create_router_cases)
  case (1 resp1 srv1)
  have "may_write d (config app) req" using assms(1,4) by (simp add: may_write_iff)
  then have "route d app req srv = respond (store_artifact d app h (req_body req) srv)"
    using route_allowed [OF assms(2) [unfolded cache_request_def] may_write_authenticated] assms(3)
    by (simp add: cache_methods_def)
  then have "respond (store_artifact d app h (req_body req) srv) = Some (resp1, rest, srv1)"
    using 1(1) by simp
  from respond_store_status [OF this] show ?thesis using 1(2) by simp
qed

text \<open>C25: the answers to a PUT. With the service token, a PUT is answered 400 for an invalid key,
  409 when the storage says that the key exists, and otherwise as \<open>store\<close> went: 200, 400
  when the client left, 403 for every other failure; a failed existence check stores.\<close>

theorem put_status_table:
  assumes "ct_eq_spec d" "cache_request d req h" "req_method req = PUT"
    and "bearer_token d req = Some (service_access_token (config app))"
    and "create_router d app req srv = Some (resp, rest, srv')"
  shows "status resp = put_status d (storage app) h (req_body req) (machine srv)"
  using assms by (rule put_status_eq)

definition rw_put :: request where
  "rw_put = case_request (put_case VALID_HASH Rw Exists_No False HTTP_OK)"

lemma rw_put_facts:
  "cache_request (reference_deps :: nat deps) rw_put VALID_HASH" "req_method rw_put = PUT"
  "bearer_token (reference_deps :: nat deps) rw_put = Some RW_TOKEN" "terminates (req_body rw_put)"
proof -
  show "cache_request (reference_deps :: nat deps) rw_put VALID_HASH" "req_method rw_put = PUT"
    "bearer_token (reference_deps :: nat deps) rw_put = Some RW_TOKEN"
    by (simp_all add: rw_put_def cache_request_def case_request_def case_eval reference_deps_simps
        path_eval bearer_eval)
  have "terminates (counted_body n)" for n by (induction n) simp_all
  then show "terminates (req_body rw_put)"
    by (simp add: rw_put_def case_request_def case_eval carries_body_def)
qed

lemma test_app_token [simp]:
  "service_access_token (config (test_app ms)) = RW_TOKEN"
  "read_only_access_token (config (test_app ms)) = Some RO_TOKEN"
  "storage (test_app ms) = mock_provider ms"
  by (simp_all add: test_app_def test_config_def)

lemma rw_put_answer:
  obtains resp rest srv' where
    "create_router reference_deps (test_app ms) rw_put test_server = Some (resp, rest, srv')"
  using storage_contract.create_router_returns [OF mock.storage_contract_axioms _ reference_deps_specs(4),
      of "test_app ms" ms rw_put test_server] rw_put_facts(4)
  by auto

lemma put_status_table_witness:
  "\<exists>resp rest srv'. create_router reference_deps (test_app (mock_new Exists_Fail)) rw_put test_server =
      Some (resp, rest, srv') \<and> status resp = HTTP_OK"
proof -
  obtain resp rest srv' where
    r: "create_router reference_deps (test_app (mock_new Exists_Fail)) rw_put test_server = Some (resp, rest, srv')"
    by (rule rw_put_answer)
  have "status resp = put_status reference_deps (mock_provider (mock_new Exists_Fail)) VALID_HASH (req_body rw_put)
      (machine test_server)"
    using put_status_table [OF reference_deps_specs(1) rw_put_facts(1,2) _ r] rw_put_facts(3) by simp
  also have "\<dots> = HTTP_OK"
    by (simp add: put_status_def mock_eval reference_deps_simps hash_eval rw_put_def case_eval)
  finally show ?thesis using r by blast
qed

text \<open>C24: no response is a 5xx. Whatever the request, the storage and the state, the status is
  below 500 (Nx retries a 5xx and then fails the task).\<close>

lemma cache_methods_status:
  assumes "axum_response_spec d" "cache_methods d app param req srv = Some (resp, rest, srv')"
  shows "status resp \<noteq> INTERNAL_SERVER_ERROR"
proof -
  have put: "status resp \<noteq> INTERNAL_SERVER_ERROR"
    if "respond (store_artifact d app h b srv) = Some (resp, rest, srv')" for h b
    using respond_store_status [OF that]
    by (auto simp: put_status_def split: if_splits prod.splits option.splits sum.splits storage_error.splits)
  have get: "status resp \<noteq> INTERNAL_SERVER_ERROR"
    if r: "retrieve_artifact d app h srv = (r, srv1)" and "respond (Some (r, b, srv1)) = Some (resp, rest, srv')"
    for h b r srv1
    using that(2)
  proof (cases rule: respond_cases)
    case ok
    with r show ?thesis by (cases rule: retrieve_artifact_cases) auto
  next
    case (err e srv2)
    from r err(1) show ?thesis unfolding err(2) status_into_response
      by (cases rule: retrieve_artifact_cases) auto
  qed
  show ?thesis using assms put get
    by (auto simp: cache_methods_def axum_response_spec_def split: if_splits option.splits prod.splits)
qed

theorem never_5xx:
  assumes "axum_response_spec d" "create_router d app req srv = Some (resp, rest, srv')"
  shows "as_u16 (status resp) < 500"
  using assms(2)
proof (cases rule: create_router_cases)
  case (1 resp1 srv1)
  have "status resp1 \<noteq> INTERNAL_SERVER_ERROR"
  proof (cases "d_match_path d (req_path req)")
    case (Route_Cache param)
    consider "\<not> authenticated d (config app) req"
      | "authenticated d (config app) req" "\<not> may_write d (config app) req" "\<not> is_read (req_method req)"
      | "authenticated d (config app) req" "may_write d (config app) req \<or> is_read (req_method req)"
      by blast
    then show ?thesis
    proof cases
      case 1
      then show ?thesis using route_unauthenticated [OF Route_Cache 1] \<open>route d app req srv = _\<close>
        by (auto simp: status_into_response)
    next
      case 2
      obtain rest' m where dr: "drain_body (req_body req) (machine srv) = (rest', m)"
        by (cases "drain_body (req_body req) (machine srv)")
      then show ?thesis using route_read_only [OF Route_Cache 2 dr] \<open>route d app req srv = _\<close>
        by (auto simp: status_into_response)
    next
      case 3
      then show ?thesis using route_allowed [OF Route_Cache 3] cache_methods_status [OF assms(1)]
          \<open>route d app req srv = _\<close> by metis
    qed
  qed (use 1 assms(1) in \<open>auto simp: route_def axum_response_spec_def health_check_def text_response_def
      split: if_splits\<close>)
  then have "status resp \<noteq> INTERNAL_SERVER_ERROR" using 1 by simp
  then show ?thesis using as_u16_5xx [of "status resp"] by simp
qed

lemma never_5xx_witness:
  "\<exists>resp rest srv'. create_router reference_deps (test_app (failing_store (mock_new Exists_No))) rw_put test_server =
      Some (resp, rest, srv') \<and> as_u16 (status resp) < 500"
proof -
  obtain resp rest srv' where r:
    "create_router reference_deps (test_app (failing_store (mock_new Exists_No))) rw_put test_server = Some (resp, rest, srv')"
    by (rule rw_put_answer)
  with never_5xx [OF reference_deps_specs(3) r] show ?thesis by blast
qed

end
