(* ===== verification/Body_Properties.thy ===== *)
theory Body_Properties
  imports Server_Properties
begin

text \<open>
  The properties of the server about request bodies, stored and served artifacts, and what
  surrounds every response (the \<open>Connection\<close> header and the access log).
\<close>

section \<open>Writing\<close>

lemma put_allowed:
  assumes "ct_eq_spec d" "cache_request d req h" "req_method req = PUT"
    "bearer_token d req = Some (service_access_token (config app))"
  shows "route d app req srv = respond (store_artifact d app h (req_body req) srv)"
proof -
  have "may_write d (config app) req" using assms(1,4) by (simp add: may_write_iff)
  then show ?thesis
    using route_allowed [OF assms(2) [unfolded cache_request_def] may_write_authenticated] assms(3)
    by (simp add: cache_methods_def)
qed

lemma put_200_route:
  assumes "respond (store_artifact d app h b srv) = Some (resp, rest, srv1)" "status resp = HTTP_OK"
  obtains ex m1 m2 where "validate_hash (d_uni d) h = Ok ()"
    "exists (storage app) h (machine srv) = (ex, m1)" "ex \<noteq> Ok True"
    "store (storage app) h (d_reader_stream d b) m1 = Some (Ok (), rest, m2)"
    "srv1 = srv\<lparr>probe := mark_present h (clock m2) (probe srv), machine := m2\<rparr>"
  using assms(1)
proof (cases rule: respond_cases)
  case ok
  then show ?thesis using assms(2) that
    by (cases rule: store_artifact_cases) (auto simp: text_response_def)
next
  case (err e srv2)
  have "fst (error_status_message e) = HTTP_OK" using assms(2) err(2) by (simp add: status_into_response)
  then show ?thesis by (cases e rule: error_status_message.cases) simp_all
qed

lemma put_200_facts:
  assumes "ct_eq_spec d" "cache_request d req h" "req_method req = PUT"
    and "create_router d app req srv = Some (resp, rest, srv')" "status resp = HTTP_OK"
  shows "bearer_token d req = Some (service_access_token (config app)) \<and>
    validate_hash (d_uni d) h = Ok () \<and>
    (\<exists>ex m1 m2. exists (storage app) h (machine srv) = (ex, m1) \<and> ex \<noteq> Ok True \<and>
       store (storage app) h (d_reader_stream d (req_body req)) m1 = Some (Ok (), rest, m2) \<and>
       backend (machine srv') = backend m2 \<and> clock (machine srv') = clock m2 \<and>
       (\<forall>t. clock m2 \<le> t \<longrightarrow> t < clock m2 + from_secs 60 \<longrightarrow> answer (probe srv') h t = Some True))"
  using assms(4)
proof (cases rule: create_router_cases)
  case (1 resp1 srv1)
  note route = 1(1) and outer = 1(2,3)
  have ok: "status resp1 = HTTP_OK" using assms(5) outer by simp
  have token: "bearer_token d req = Some (service_access_token (config app))"
  proof (rule ccontr)
    assume "bearer_token d req \<noteq> Some (service_access_token (config app))"
    then have rw: "\<not> may_write d (config app) req" using assms(1) by (simp add: may_write_iff)
    obtain rest' m where dr: "drain_body (req_body req) (machine srv) = (rest', m)"
      by (cases "drain_body (req_body req) (machine srv)")
    show False
    proof (cases "authenticated d (config app) req")
      case True
      have "route d app req srv = Some (fst (into_response Forbidden m), rest', srv\<lparr>machine := m\<rparr>)"
        using assms(2) [unfolded cache_request_def] True rw _ dr
        by (rule route_read_only) (simp add: assms(3) is_read_def)
      then show False using route ok by (auto simp: status_into_response)
    next
      case False
      from route_unauthenticated [OF assms(2) [unfolded cache_request_def] False] route ok
      show False by (auto simp: status_into_response)
    qed
  qed
  have "respond (store_artifact d app h (req_body req) srv) = Some (resp1, rest, srv1)"
    using put_allowed [OF assms(1-3) token] route by simp
  then obtain ex m1 m2 where st: "validate_hash (d_uni d) h = Ok ()"
    "exists (storage app) h (machine srv) = (ex, m1)" "ex \<noteq> Ok True"
    "store (storage app) h (d_reader_stream d (req_body req)) m1 = Some (Ok (), rest, m2)"
    "srv1 = srv\<lparr>probe := mark_present h (clock m2) (probe srv), machine := m2\<rparr>"
    using ok by (rule put_200_route)
  have "answer (probe srv') h t = Some True" if "clock m2 \<le> t" "t < clock m2 + from_secs 60" for t
    using cache.answer_mark [where t = "clock m2" and t' = t and k = h and c = "probe srv"] that st(5) outer(2) by (simp add: POSITIVE_TTL_def)
  then show ?thesis using token st outer by auto
qed

text \<open>C3: 200 means stored. A PUT on the cache route answered 200 carried the service token and a
  valid key; the storage was asked first, did not say that the key exists, and then took
  the body with success, all of it; and the cache answers "present" for the key from then
  on for 60 seconds.\<close>

theorem put_200_means_stored:
  assumes "ct_eq_spec d" "cache_request d req h" "req_method req = PUT"
    and "create_router d app req srv = Some (resp, rest, srv')" "status resp = HTTP_OK"
  shows "bearer_token d req = Some (service_access_token (config app)) \<and>
    validate_hash (d_uni d) h = Ok () \<and>
    (\<exists>ex m1 m2. exists (storage app) h (machine srv) = (ex, m1) \<and> ex \<noteq> Ok True \<and>
       store (storage app) h (d_reader_stream d (req_body req)) m1 = Some (Ok (), rest, m2) \<and>
       backend (machine srv') = backend m2 \<and> clock (machine srv') = clock m2 \<and>
       (\<forall>t. clock m2 \<le> t \<longrightarrow> t < clock m2 + from_secs 60 \<longrightarrow> answer (probe srv') h t = Some True))"
  using assms by (rule put_200_facts)

lemma put_answer_200:
  assumes "create_router reference_deps (test_app (mock_new Exists_No)) rw_put test_server = Some (resp, rest, srv')"
  shows "status resp = HTTP_OK"
  using put_status_eq [OF reference_deps_specs(1) rw_put_facts(1,2) _ assms] rw_put_facts(3)
  by (simp add: put_status_def eval_model rw_put_def case_eval)

lemma put_200_means_stored_witness:
  "\<exists>resp rest srv'. create_router reference_deps (test_app (mock_new Exists_No)) rw_put test_server = Some (resp, rest, srv') \<and>
    answer (probe srv') VALID_HASH (clock (machine srv')) = Some True"
proof -
  obtain resp rest srv' where
    r: "create_router reference_deps (test_app (mock_new Exists_No)) rw_put test_server = Some (resp, rest, srv')"
    by (rule rw_put_answer)
  have "answer (probe srv') VALID_HASH (clock (machine srv')) = Some True"
    using put_200_means_stored [OF reference_deps_specs(1) rw_put_facts(1,2) r put_answer_200 [OF r]]
    by (auto simp: from_secs_def)
  with r show ?thesis by blast
qed

section \<open>Reading the body before answering\<close>

text \<open>C17: every answer to an authenticated PUT of the cache route reaches its client, with one
  exception. It is given only after the body was read to the end, or 60 seconds have passed:
  also when the answer (400, 403, 409) was decided before the body. The exception is a PUT
  with the service token whose path segment is not UTF-8 after decoding: axum rejects it with
  400 before the handler runs, at once and with the body unread.\<close>

theorem put_body_drained:
  assumes "storage_contract (storage app)" "axum_response_spec d"
    and "d_match_path d (req_path req) = Route_Cache param" "req_method req = PUT"
    and "authenticated d (config app) req" "create_router d app req srv = Some (resp, rest, srv')"
  shows "if param = None \<and> may_write d (config app) req
    then status resp = BAD_REQUEST \<and> rest = req_body req \<and> clock (machine srv') = clock (machine srv)
    else rest = Done \<or> clock (machine srv) + from_secs 60 \<le> clock (machine srv')"
  using assms(6)
proof (cases rule: create_router_cases)
  case (1 resp1 srv1)
  have clk: "clock (machine srv') = clock (machine srv1)" using 1(3) by simp
  show ?thesis
  proof (cases "may_write d (config app) req")
    case True
    then have rt: "route d app req srv = cache_methods d app param req srv"
      using route_allowed [OF assms(3,5)] by simp
    show ?thesis
    proof (cases param)
      case None
      then show ?thesis using rt 1 True assms(2,4) clk by (simp add: cache_methods_def axum_response_spec_def)
    next
      case (Some h)
      then have "respond (store_artifact d app h (req_body req) srv) = Some (resp1, rest, srv1)"
        using rt 1(1) assms(4) by (simp add: cache_methods_def)
      then obtain r srv2 where st: "store_artifact d app h (req_body req) srv = Some (r, rest, srv2)"
        "clock (machine srv1) = clock (machine srv2)"
        by (cases rule: respond_cases) auto
      show ?thesis
        using storage_contract.store_artifact_drained [OF assms(1) refl st(1)] st(2) clk Some
        by (simp add: DRAIN_TIMEOUT_def)
    qed
  next
    case False
    obtain rest' m where dr: "drain_body (req_body req) (machine srv) = (rest', m)"
      by (cases "drain_body (req_body req) (machine srv)")
    have "route d app req srv = Some (fst (into_response Forbidden m), rest', srv\<lparr>machine := m\<rparr>)"
      using assms(3,5) False _ dr by (rule route_read_only) (simp add: assms(4) is_read_def)
    then show ?thesis using 1(1) drain_body_done [OF dr] clk False by (auto simp: DRAIN_TIMEOUT_def)
  qed
qed

lemma put_body_drained_witness:
  "\<exists>resp rest srv'. create_router reference_deps (test_app (mock_new Exists_Yes)) rw_put test_server = Some (resp, rest, srv') \<and>
    (rest = Done \<or> from_secs 60 \<le> clock (machine srv'))"
proof -
  obtain resp rest srv' where
    r: "create_router reference_deps (test_app (mock_new Exists_Yes)) rw_put test_server = Some (resp, rest, srv')"
    by (rule rw_put_answer)
  have "authenticated (reference_deps :: nat deps) (config (test_app (mock_new Exists_Yes))) rw_put"
    using rw_put_facts(3) by (simp add: authenticated_iff)
  from put_body_drained [OF _ reference_deps_specs(3) rw_put_facts(1) [unfolded cache_request_def] rw_put_facts(2) this r]
    mock.storage_contract_axioms
  have "rest = Done \<or> from_secs 60 \<le> clock (machine srv')" by (simp add: test_server_def)
  with r show ?thesis by blast
qed

text \<open>C28: every request whose body ends or breaks is answered, over every storage that keeps the
  contract; and the clock and the log have only moved forwards.\<close>

theorem always_answers:
  assumes "storage_contract (storage app)" "reader_stream_spec d" "cell_spec d" "terminates (req_body req)"
  shows "\<exists>resp rest srv'. create_router d app req srv = Some (resp, rest, srv') \<and>
    later (machine srv) (machine srv')"
  using storage_contract.create_router_returns [OF assms(1) refl assms(2,4)]
    storage_contract.create_router_later [OF assms(1) refl assms(3)] by blast

lemma always_answers_witness:
  "\<exists>resp rest srv'. create_router reference_deps (test_app (mock_new Exists_No)) rw_put test_server = Some (resp, rest, srv')
    \<and> later (machine test_server) (machine srv')"
  by (rule always_answers) (use mock.storage_contract_axioms rw_put_facts(4) in simp_all)

text \<open>C29: the only requests that are never answered. A request hangs exactly when it is a PUT with
  the service token and a valid key that the storage does not report as existing, and
  \<open>store\<close> hangs on its body, which has no read timeout.\<close>

theorem unanswered_requests:
  assumes "ct_eq_spec d"
  shows "create_router d app req srv = None \<longleftrightarrow>
    req_method req = PUT \<and> bearer_token d req = Some (service_access_token (config app)) \<and>
    (\<exists>h ex m1. cache_request d req h \<and> validate_hash (d_uni d) h = Ok () \<and>
       exists (storage app) h (machine srv) = (ex, m1) \<and> ex \<noteq> Ok True \<and>
       store (storage app) h (d_reader_stream d (req_body req)) m1 = None)"
proof -
  have "store_artifact d app h b srv = None \<longleftrightarrow>
      (\<exists>ex m1. validate_hash (d_uni d) h = Ok () \<and> exists (storage app) h (machine srv) = (ex, m1) \<and>
        ex \<noteq> Ok True \<and> store (storage app) h (d_reader_stream d b) m1 = None)" for h b
  proof
    show "\<exists>ex m1. validate_hash (d_uni d) h = Ok () \<and> exists (storage app) h (machine srv) = (ex, m1) \<and>
        ex \<noteq> Ok True \<and> store (storage app) h (d_reader_stream d b) m1 = None"
      if "store_artifact d app h b srv = None"
      using that by (cases rule: store_artifact_None) blast
  qed (auto simp: store_artifact_def unwrap_or_False)
  then show ?thesis
    by (auto simp: create_router_None route_None may_write_iff [OF assms] cache_request_def)
qed

definition stalled_put :: request where
  "stalled_put = rw_put\<lparr>req_body := Chunk 0 zero_chunk Stalled\<rparr>"

lemma unanswered_requests_witness:
  "create_router reference_deps (test_app (mock_new Exists_No)) stalled_put test_server = None"
proof -
  have b: "bearer_token (reference_deps :: nat deps) stalled_put = Some RW_TOKEN"
    using rw_put_facts(3) by (simp add: stalled_put_def bearer_token_def)
  have "cache_request (reference_deps :: nat deps) stalled_put VALID_HASH" "req_method stalled_put = PUT"
    using rw_put_facts(1,2) by (simp_all add: stalled_put_def cache_request_def)
  moreover have "exists (mock_provider (mock_new Exists_No)) VALID_HASH (machine test_server) = (Ok False, machine test_server)"
    by (simp add: mock_eval)
  moreover have "store (mock_provider (mock_new Exists_No)) VALID_HASH
      (d_reader_stream reference_deps (req_body stalled_put)) (machine test_server) = None"
    by (simp add: mock_eval stalled_put_def reference_deps_simps)
  ultimately have "\<exists>h ex m1. cache_request (reference_deps :: nat deps) stalled_put h \<and>
       validate_hash (d_uni (reference_deps :: nat deps)) h = Ok () \<and>
       exists (mock_provider (mock_new Exists_No)) h (machine test_server) = (ex, m1) \<and> ex \<noteq> Ok True \<and>
       store (mock_provider (mock_new Exists_No)) h (d_reader_stream reference_deps (req_body stalled_put)) m1 = None"
    using hash_eval(1) by (intro exI [of _ VALID_HASH] exI [of _ "Ok False"] exI [of _ "machine test_server"]) simp
  then show ?thesis
    using unanswered_requests [OF reference_deps_specs(1), of "test_app (mock_new Exists_No)" stalled_put test_server] b
      \<open>req_method stalled_put = PUT\<close> by simp
qed

end
