(* ===== verification/Read_Properties.thy ===== *)
theory Read_Properties
  imports Body_Properties S3_Properties
begin

text \<open>
  The properties of the server about reading artifacts, about an artifact that is written
  and read back over S3, and about what surrounds every response.
\<close>

section \<open>Reading\<close>

text \<open>
  The abstract table of a GET or HEAD with a valid token: its status and body from the
  cache and the storage.
\<close>

definition get_answer :: "'s deps \<Rightarrow> 's app_state \<Rightarrow> string \<Rightarrow> 's server \<Rightarrow> status_code \<times> body option" where
  "get_answer d app h srv =
     (if validate_hash (d_uni d) h \<noteq> Ok () then (BAD_REQUEST, None)
      else case present (d_get_or_try_init d) h (exists (storage app) h) (probe srv) (machine srv) of
        (pr, p1, m1) \<Rightarrow>
          if pr \<noteq> Ok True then (NOT_FOUND, None)
          else case fst (retrieve (storage app) h m1) of
            Err _ \<Rightarrow> (NOT_FOUND, None)
          | Ok reader \<Rightarrow> (HTTP_OK, Some (d_reader_stream d reader)))"

definition response_answer :: "response \<Rightarrow> status_code \<times> body option" where
  "response_answer resp = (status resp, case resp_body resp of Artifact b \<Rightarrow> Some b | _ \<Rightarrow> None)"

lemma response_answer_error: "response_answer (fst (into_response e m)) = (fst (error_status_message e), None)"
  by (simp add: response_answer_def status_into_response into_response_body)

lemma closing_answer [simp]: "response_answer (closing resp) = response_answer resp"
  by (simp add: response_answer_def)

lemma get_route:
  assumes "cache_request d req h" "authenticated d (config app) req" "is_read (req_method req)"
  obtains resp srv1 where "route d app req srv = Some (resp, req_body req, srv1)"
    "response_answer resp = get_answer d app h srv"
proof -
  obtain r srv2 where r: "retrieve_artifact d app h srv = (r, srv2)"
    by (cases "retrieve_artifact d app h srv")
  have route: "route d app req srv = respond (Some (r, req_body req, srv2))"
    using route_allowed [OF assms(1) [unfolded cache_request_def] assms(2)] assms(3) r
    by (simp add: cache_methods_def is_read_def)
  show ?thesis
  proof (cases r)
    case (Inl e)
    have "response_answer (fst (into_response e (machine srv2))) = get_answer d app h srv"
      using r Inl
      by (cases rule: retrieve_artifact_cases) (auto simp: response_answer_error get_answer_def)
    then show ?thesis using that route Inl by (simp add: respond_def split: prod.splits)
  next
    case (Inr resp)
    have "response_answer resp = get_answer d app h srv"
      using r Inr
      by (cases rule: retrieve_artifact_cases) (auto simp: response_answer_def get_answer_def)
    then show ?thesis using that route Inr by (simp add: respond_def)
  qed
qed

text \<open>C26: the answers to a GET or HEAD. With a valid token it is answered, without reading the
  body: 400 for an invalid key, 404 when the existence check, through the cache, does not
  say "present" or the read fails, and otherwise 200 with the object's stream.\<close>

theorem get_answer_table:
  assumes "cache_request d req h" "authenticated d (config app) req"
    and "req_method req = GET \<or> req_method req = HEAD"
  shows "\<exists>resp srv'. create_router d app req srv = Some (resp, req_body req, srv') \<and>
    response_answer resp = get_answer d app h srv"
proof -
  have "is_read (req_method req)" using assms(3) by (simp add: is_read_def)
  then obtain resp srv1 where "route d app req srv = Some (resp, req_body req, srv1)"
    "response_answer resp = get_answer d app h srv"
    using get_route [OF assms(1,2)] by blast
  then show ?thesis by (simp add: create_router_eq)
qed

definition ro_get :: request where
  "ro_get = case_request (ok_case GET Ro HTTP_OK Required)"

lemma ro_get_facts:
  "cache_request (reference_deps :: 's deps) ro_get VALID_HASH" "req_method ro_get = GET"
  "bearer_token (reference_deps :: 's deps) ro_get = Some RO_TOKEN"
  "authenticated (reference_deps :: 's deps) test_config ro_get"
proof -
  show "cache_request (reference_deps :: 's deps) ro_get VALID_HASH" "req_method ro_get = GET"
    and b: "bearer_token (reference_deps :: 's deps) ro_get = Some RO_TOKEN"
    by (simp_all add: ro_get_def cache_request_def case_request_def case_eval reference_deps_simps
        path_eval bearer_eval)
  show "authenticated (reference_deps :: 's deps) test_config ro_get"
    using b by (simp add: authenticated_iff test_config_def)
qed

lemma test_config_simps [simp]:
  "config (test_app ms) = test_config" "service_access_token test_config = RW_TOKEN"
  "read_only_access_token test_config = Some RO_TOKEN"
  by (simp_all add: test_app_def test_config_def)

lemma get_answer_table_witness:
  "\<exists>resp srv'. create_router reference_deps (test_app (failing_retrieve (mock_new Exists_Yes))) ro_get test_server =
      Some (resp, req_body ro_get, srv') \<and> status resp = NOT_FOUND"
proof -
  let ?app = "test_app (failing_retrieve (mock_new Exists_Yes))"
  have "get_answer reference_deps ?app VALID_HASH test_server = (NOT_FOUND, None)"
    by (simp add: get_answer_def mock_eval reference_deps_simps hash_eval handler_eval failing_retrieve_def)
  then show ?thesis
    using get_answer_table [OF ro_get_facts(1), of ?app test_server] ro_get_facts(2,4)
    by (auto simp: response_answer_def)
qed

lemma get_after_put_facts:
  assumes "ct_eq_spec d" "cell_spec d" "cache_request d put h" "req_method put = PUT"
    and "create_router d app put srv = Some (resp, rest, srv1)" "status resp = HTTP_OK"
    and "cache_request d get h" "req_method get = GET" "authenticated d (config app) get"
    and "probe srv2 = probe srv1" "clock (machine srv1) \<le> clock (machine srv2)"
    and "clock (machine srv2) < clock (machine srv1) + from_secs 60"
  shows "\<exists>resp2 srv3. create_router d app get srv2 = Some (resp2, req_body get, srv3) \<and>
    response_answer resp2 =
      (case fst (retrieve (storage app) h (machine srv2)) of
         Ok reader \<Rightarrow> (HTTP_OK, Some (d_reader_stream d reader))
       | Err _ \<Rightarrow> (NOT_FOUND, None))"
proof -
  note put = put_200_facts [OF assms(1,3-6)]
  have "answer (probe srv2) h (clock (machine srv2)) = Some True"
    using put assms(10-12) by auto
  from present_hit [OF this, of "exists (storage app) h"]
  have "present (d_get_or_try_init d) h (exists (storage app) h) (probe srv2) (machine srv2) =
      (Ok True, probe srv2, machine srv2)"
    using once_cell_unique [OF assms(2) [unfolded cell_spec_def]] by simp
  then have "get_answer d app h srv2 =
      (case fst (retrieve (storage app) h (machine srv2)) of
         Ok reader \<Rightarrow> (HTTP_OK, Some (d_reader_stream d reader))
       | Err _ \<Rightarrow> (NOT_FOUND, None))"
    using put by (simp add: get_answer_def split: sum.split)
  moreover have "is_read (req_method get)" using assms(8) by (simp add: is_read_def)
  then obtain resp2 srv3 where "route d app get srv2 = Some (resp2, req_body get, srv3)"
    "response_answer resp2 = get_answer d app h srv2"
    using get_route [OF assms(7,9)] by blast
  ultimately show ?thesis by (simp add: create_router_eq)
qed

text \<open>A read after a write hits. After a PUT answered 200 and for 60 seconds, a GET of the
  key on the same instance, with nothing in between that touches the cache, asks the
  storage for the object straight away, without an existence check: 200 with its stream,
  or 404 if reading it fails.\<close>

theorem get_after_put:
  assumes "ct_eq_spec d" "cell_spec d" "cache_request d put h" "req_method put = PUT"
    and "create_router d app put srv = Some (resp, rest, srv1)" "status resp = HTTP_OK"
    and "cache_request d get h" "req_method get = GET" "authenticated d (config app) get"
    and "probe srv2 = probe srv1" "clock (machine srv1) \<le> clock (machine srv2)"
    and "clock (machine srv2) < clock (machine srv1) + from_secs 60"
  shows "\<exists>resp2 srv3. create_router d app get srv2 = Some (resp2, req_body get, srv3) \<and>
    response_answer resp2 =
      (case fst (retrieve (storage app) h (machine srv2)) of
         Ok reader \<Rightarrow> (HTTP_OK, Some (d_reader_stream d reader))
       | Err _ \<Rightarrow> (NOT_FOUND, None))"
  using assms by (rule get_after_put_facts)

lemma get_after_put_witness:
  "\<exists>srv1 resp2 srv3. create_router reference_deps (test_app (mock_new Exists_No)) ro_get srv1 =
      Some (resp2, req_body ro_get, srv3) \<and> status resp2 = HTTP_OK"
proof -
  obtain resp rest srv' where
    r: "create_router reference_deps (test_app (mock_new Exists_No)) rw_put test_server = Some (resp, rest, srv')"
    by (rule rw_put_answer)
  have "fst (retrieve (storage (test_app (mock_new Exists_No))) VALID_HASH (machine srv')) =
      Ok (Chunk 0 (ascii_bytes ''artifact'') Done)"
    by (simp add: mock_eval)
  then show ?thesis
    using get_after_put [OF reference_deps_specs(1,5) rw_put_facts(1,2) r put_answer_200 [OF r]
        ro_get_facts(1,2), of srv'] ro_get_facts(4)
    by (fastforce simp: response_answer_def from_secs_def)
qed

section \<open>Over S3\<close>

text \<open>C10: what was put is what is got. Over an S3 service that behaves as documented, when a PUT is
  answered 200 and a GET of the key that follows is answered 200, the GET serves a stream
  that carries the bytes of the PUT's body: all of them when it ends properly, and a
  prefix of them when the connection to S3 breaks off.\<close>

theorem put_get_roundtrip:
  assumes doc: "s3_documented c b objs ups" and app: "storage app = s3_storage c b"
    and specs: "ct_eq_spec d" "cell_spec d" "reader_stream_spec d"
    and put: "cache_request d put h" "req_method put = PUT"
      "create_router d app put srv = Some (resp, rest, srv1)" "status resp = HTTP_OK"
    and get: "cache_request d get h" "req_method get = GET"
      "create_router d app get srv1 = Some (resp2, rest2, srv2)" "status resp2 = HTTP_OK"
    and auth: "authenticated d (config app) get"
  shows "\<exists>stream. resp_body resp2 = Artifact stream \<and>
    prefix (body_bytes stream) (body_bytes (req_body put)) \<and>
    (complete stream \<longrightarrow> body_bytes stream = body_bytes (req_body put))"
proof -
  obtain m1 m2 where st: "s3_store c b h (d_reader_stream d (req_body put)) m1 = Some (Ok (), rest, m2)"
    "backend (machine srv1) = backend m2"
    using put_200_facts [OF specs(1) put] app by (auto simp: s3_storage_def)
  have stored: "objs (backend (machine srv1)) h = Some (body_bytes (req_body put))"
    using s3_store_objects [OF doc st(1)] st(2) specs(3) by (simp add: reader_stream_spec_def)
  obtain gr m3 where gr: "s3_retrieve c b h (machine srv1) = (gr, m3)"
    by (cases "s3_retrieve c b h (machine srv1)")
  have "\<exists>resp' srv3. create_router d app get srv1 = Some (resp', req_body get, srv3) \<and>
      response_answer resp' =
        (case fst (retrieve (storage app) h (machine srv1)) of
           Ok reader \<Rightarrow> (HTTP_OK, Some (d_reader_stream d reader)) | Err _ \<Rightarrow> (NOT_FOUND, None))"
    by (rule get_after_put_facts [OF specs(1,2) put get(1,2) auth refl order_refl]) (simp add: from_secs_def)
  then have ans: "response_answer resp2 =
      (case gr of Ok reader \<Rightarrow> (HTTP_OK, Some (d_reader_stream d reader)) | Err _ \<Rightarrow> (NOT_FOUND, None))"
    using get(3) app gr by (simp add: s3_storage_def)
  then obtain reader where reader: "gr = Ok reader" "response_answer resp2 = (HTTP_OK, Some (d_reader_stream d reader))"
    using get(4) by (cases gr) (auto simp: response_answer_def)
  have "prefix (body_bytes reader) (body_bytes (req_body put)) \<and>
      (complete reader \<longrightarrow> body_bytes reader = body_bytes (req_body put))"
    using s3_retrieve_objects [OF doc gr] reader(1) stored by auto
  moreover have "resp_body resp2 = Artifact (d_reader_stream d reader)"
    using reader(2) by (cases "resp_body resp2") (simp_all add: response_answer_def)
  ultimately show ?thesis using specs(3) by (simp add: reader_stream_spec_def)
qed

definition memory_app :: "bucket app_state" where
  "memory_app = \<lparr>storage = s3_storage memory_client ''b'', config = test_config\<rparr>"

definition memory_server :: "bucket server" where
  "memory_server = \<lparr>probe = fmempty, machine = started empty_bucket\<rparr>"

definition small_put :: request where
  "small_put = rw_put\<lparr>req_body := Chunk 1 [7, 8] (Chunk 2 [9] Done)\<rparr>"

lemma small_put_facts:
  "cache_request (reference_deps :: 's deps) small_put VALID_HASH" "req_method small_put = PUT"
  "bearer_token (reference_deps :: 's deps) small_put = Some RW_TOKEN"
  "body_bytes (req_body small_put) = [7, 8, 9]"
  by (simp_all add: small_put_def rw_put_def cache_request_def case_request_def case_eval
      reference_deps_simps path_eval bearer_eval)

lemma small_put_run:
  obtains resp rest srv1 where
    "create_router reference_deps memory_app small_put memory_server = Some (resp, rest, srv1)" "status resp = HTTP_OK"
    "stored (backend (machine srv1)) VALID_HASH = Some [7, 8, 9]"
proof -
  have "\<exists>p1. store_artifact reference_deps memory_app VALID_HASH (req_body small_put) memory_server =
      Some (Ok (text_response HTTP_OK ''''), Done,
        memory_server\<lparr>probe := p1,
          machine := \<lparr>clock = 3, log = [],
            calls = [HeadObject ''b'' VALID_HASH, PutObject ''b'' VALID_HASH [7, 8, 9]],
            backend = empty_bucket\<lparr>stored := [VALID_HASH \<mapsto> [7, 8, 9]]\<rparr>\<rparr>\<rparr>)"
    by (simp add: store_artifact_def hash_eval memory_app_def memory_server_def s3_storage_def s3_exists_def
        s3_eval reference_deps_simps small_put_def sdk_failure_def)
  then obtain p1 where st: "store_artifact reference_deps memory_app VALID_HASH (req_body small_put) memory_server =
      Some (Ok (text_response HTTP_OK ''''), Done,
        memory_server\<lparr>probe := p1,
          machine := \<lparr>clock = 3, log = [],
            calls = [HeadObject ''b'' VALID_HASH, PutObject ''b'' VALID_HASH [7, 8, 9]],
            backend = empty_bucket\<lparr>stored := [VALID_HASH \<mapsto> [7, 8, 9]]\<rparr>\<rparr>\<rparr>)" ..
  have "bearer_token (reference_deps :: bucket deps) small_put = Some (service_access_token (config memory_app))"
    using small_put_facts(3) by (simp add: memory_app_def)
  from put_allowed [OF reference_deps_specs(1) small_put_facts(1,2) this]
  have "route reference_deps memory_app small_put memory_server =
      respond (store_artifact reference_deps memory_app VALID_HASH (req_body small_put) memory_server)" .
  then show ?thesis using that st
    by (simp add: create_router_eq respond_def text_response_def)
qed

lemma put_get_roundtrip_witness:
  "\<exists>resp2 rest2 srv1 srv2 stream. create_router reference_deps memory_app ro_get srv1 = Some (resp2, rest2, srv2) \<and>
    status resp2 = HTTP_OK \<and> resp_body resp2 = Artifact stream \<and> prefix (body_bytes stream) [7, 8, 9]"
proof -
  obtain resp rest srv1 where
    p: "create_router reference_deps memory_app small_put memory_server = Some (resp, rest, srv1)" "status resp = HTTP_OK"
    "stored (backend (machine srv1)) VALID_HASH = Some [7, 8, 9]"
    by (rule small_put_run)
  have auth: "authenticated (reference_deps :: bucket deps) (config memory_app) ro_get"
    using ro_get_facts(4) by (simp add: memory_app_def)
  have "fst (retrieve (storage memory_app) VALID_HASH (machine srv1)) = Ok (Chunk 0 [7, 8, 9] Done)"
    using p(3) by (simp add: memory_app_def s3_storage_def s3_retrieve_def send_def memory_client_def)
  then obtain resp2 srv2 where
    g: "create_router reference_deps memory_app ro_get srv1 = Some (resp2, req_body ro_get, srv2)" "status resp2 = HTTP_OK"
    using get_after_put_facts [OF reference_deps_specs(1,5) small_put_facts(1,2) p(1,2) ro_get_facts(1,2) auth refl order_refl]
    by (fastforce simp: response_answer_def from_secs_def)
  have "storage memory_app = s3_storage memory_client ''b''" by (simp add: memory_app_def)
  from put_get_roundtrip [OF memory_documented this reference_deps_specs(1,5,4) small_put_facts(1,2) p(1,2)
      ro_get_facts(1,2) g auth]
  show ?thesis using g small_put_facts(4) by auto
qed

section \<open>Around every response\<close>

text \<open>Every response, whatever the request and its outcome, carries exactly one
  \<open>Connection\<close> header, and its value is \<open>close\<close>.\<close>

theorem connection_close_once:
  assumes "create_router d app req srv = Some (resp, rest, srv')"
  shows "[x \<leftarrow> resp_headers resp. fst x = ''connection''] = [(''connection'', ''close'')]"
  using assms
proof (cases rule: create_router_cases)
  case (1 resp1 srv1)
  then show ?thesis by (simp add: closing_def header_insert_unique)
qed

definition health_get :: request where
  "health_get = \<lparr>req_method = GET, req_path = ''/health'', req_headers = [], req_body = Done\<rparr>"

lemma health_answer:
  obtains resp srv' where
    "create_router reference_deps (test_app (mock_new Exists_No)) health_get test_server = Some (resp, Done, srv')"
  by (simp add: health_get_def create_router_eq route_def reference_deps_simps reference_match_path_def)

lemma connection_close_once_witness:
  "\<exists>resp srv'. create_router reference_deps (test_app (mock_new Exists_No)) health_get test_server = Some (resp, Done, srv') \<and>
    [x \<leftarrow> resp_headers resp. fst x = ''connection''] = [(''connection'', ''close'')]"
proof -
  obtain resp srv' where
    r: "create_router reference_deps (test_app (mock_new Exists_No)) health_get test_server = Some (resp, Done, srv')"
    by (rule health_answer)
  from connection_close_once [OF r] r show ?thesis by blast
qed

text \<open>Every answered request leaves its access-log line, last, with the method, the path, the
  status of the response as sent, and the milliseconds from the request's arrival to
  the response.\<close>

lemma access_log_line:
  assumes "create_router d app req srv = Some (resp, rest, srv')"
  shows "\<exists>earlier. log (machine srv') = earlier @
    [Request_Completed (method_name (req_method req)) (req_path req) (as_u16 (status resp))
       (as_millis (clock (machine srv') - clock (machine srv))) (content_length_of d resp)]"
  using assms
proof (cases rule: create_router_cases)
  case (1 resp1 srv1)
  have "content_length_of d resp = content_length_of d resp1"
    using 1(2) by (simp add: content_length_of_def)
  then show ?thesis using 1 by (simp add: access_event_def)
qed

lemma access_log_line_witness:
  "\<exists>resp srv' earlier ms len.
    create_router reference_deps (test_app (mock_new Exists_No)) health_get test_server = Some (resp, Done, srv') \<and>
    log (machine srv') = earlier @ [Request_Completed ''GET'' ''/health'' (as_u16 (status resp)) ms len]"
proof -
  obtain resp srv' where
    r: "create_router reference_deps (test_app (mock_new Exists_No)) health_get test_server = Some (resp, Done, srv')"
    by (rule health_answer)
  have "method_name (req_method health_get) = ''GET''" "req_path health_get = ''/health''"
    by (simp_all add: health_get_def)
  with access_log_line [OF r] r show ?thesis by metis
qed

text \<open>A PUT whose path parameter does not decode is answered 400 with its body unread, unlike
  every other refusal after authentication: the rejection is axum's own.\<close>

theorem undecodable_key_not_drained:
  assumes "ct_eq_spec d" "axum_response_spec d" "d_match_path d (req_path req) = Route_Cache None"
    and "req_method req = PUT" "bearer_token d req = Some (service_access_token (config app))"
  shows "\<exists>resp srv'. create_router d app req srv = Some (resp, req_body req, srv') \<and>
    status resp = BAD_REQUEST \<and> clock (machine srv') = clock (machine srv)"
proof -
  have "may_write d (config app) req" using assms(1,5) by (simp add: may_write_iff)
  then have "route d app req srv = Some (d_axum_response d BAD_REQUEST, req_body req, srv)"
    using route_allowed [OF assms(3) may_write_authenticated] assms(4) by (simp add: cache_methods_def)
  then show ?thesis using assms(2) by (simp add: create_router_eq axum_response_spec_def)
qed

lemma undecodable_key_not_drained_witness:
  "\<exists>resp srv'. create_router reference_deps (test_app (mock_new Exists_No))
      (rw_put\<lparr>req_path := ''/v1/cache/%FF''\<rparr>) test_server = Some (resp, counted_body BODY_CHUNKS, srv') \<and>
    status resp = BAD_REQUEST"
proof -
  let ?req = "rw_put\<lparr>req_path := ''/v1/cache/%FF''\<rparr>"
  have "d_match_path (reference_deps :: nat deps) (req_path ?req) = Route_Cache None"
    by (simp add: reference_deps_simps reference_match_path_def strip_prefix_def)
  moreover have "bearer_token (reference_deps :: nat deps) ?req = Some RW_TOKEN"
    using rw_put_facts(3) by (simp add: bearer_token_def)
  moreover have "req_method ?req = PUT" "req_body ?req = counted_body BODY_CHUNKS"
    by (simp_all add: rw_put_def case_request_def case_eval carries_body_def)
  ultimately show ?thesis
    using undecodable_key_not_drained [OF reference_deps_specs(1,3), of ?req "test_app (mock_new Exists_No)" test_server]
    by auto
qed

end
