(* ===== verification/Server_Concurrency.thy ===== *)
theory Server_Concurrency
  imports Server_Progress Server_Solo Read_Properties
begin

text \<open>
  The properties of the server under concurrency: for every schedule of any number of
  requests, of the self-probe, of time and of clients that hang up.
\<close>

section \<open>A read that arrives when the key is visible\<close>

lemma arrive_get:
  "get_request d app req h \<Longrightarrow> arrive d app t req s = begin_get d t req (now (probes s)) h s"
  by (auto simp: get_request_def arrive_def begin_auth_eq begin_cache_def is_read_def Let_def)

lemma arrive_reading_live:
  assumes get: "get_request d app req h" and inv: "flight_inv (probes s)"
    and live: "\<And>i. fmlookup (index (probes s)) h = Some i \<Longrightarrow>
      live (now (probes s)) (heap (probes s) ! i) \<Longrightarrow> clean s i"
  shows "reading failed (length (log (world s))) h u (arrive d app u req s)"
proof -
  obtain i p where p: "flight_slot h (probes s) = (i, p)" by (cases "flight_slot h (probes s)")
  let ?s = "set_stage u req (now (probes s)) (Awaiting h)
    (s\<lparr>probes := set_task u (Waiting h i (now (probes s))) p\<rparr>)"
  have arr: "arrive d app u req s = ?s"
    using get p by (simp add: arrive_get begin_get_def) (simp add: get_request_def)
  have "clean ?s i"
    using p
  proof (cases rule: flight_slot_cases)
    case shared
    then have "clean s i" using live by simp
    then show ?thesis using shared(3) unfolding clean_def by auto
  next
    case fresh
    have "tasks (probes s) t \<noteq> Probing k i e b" for t k e b
      using probing_slot [OF _ inv] fresh(2) by blast
    then show ?thesis using fresh(3) unfolding clean_def by (auto simp: fresh(2) heap_simps)
  qed
  then show ?thesis unfolding reading_def arr by simp
qed

lemma arrive_reading:
  assumes "get_request d app req h" "visible objs h s" "flight_inv (probes s)"
  shows "reading failed (length (log (world s))) h u (arrive d app u req s)"
  using assms(1,3) by (rule arrive_reading_live) (use assms(2) in \<open>simp add: visible_def\<close>)

context reporting_store
begin

lemma run_reading:
  assumes app: "storage app = provider" and spec: "axum_response_spec d"
  shows "server_run d app s acts s' \<Longrightarrow> linked s \<Longrightarrow> flight_inv (probes s) \<Longrightarrow>
    objects (backend (world s)) h \<noteq> None \<Longrightarrow> reading failure n h u s \<Longrightarrow> reading failure n h u s'"
proof (induction rule: server_run.induct)
  case (run_step s a s1 acts s2)
  have "flight_inv (probes s1)"
    using server_step_probes [OF run_step(1,4)] run_step(5) flight_step_inv by auto
  then show ?case
    using run_step(3) linked_step [OF run_step(1,4)] objects_kept [OF app run_step(1,6)]
      reading_step [OF app spec run_step(1,5,4,6,7)] by blast
qed

lemma read_after_ack:
  assumes app: "storage app = provider" and spec: "axum_response_spec d"
    and reach: "server_reachable d app m s"
    and ack: "jobs s t = Finished put resp rest" "put_request d app put h"
      "status resp = HTTP_OK \<or> status resp = CONFLICT"
    and get: "jobs s u = Unused" "get_request d app get h"
    and run: "server_run d app (arrive d app u get s) acts s'" "jobs s' u = Finished get' resp' rest'"
  shows "status resp' = HTTP_OK \<or> failed_since failure (length (log (world s))) h s'"
proof -
  have inv: "flight_inv (probes s)" using reachable_probes [OF reach] by (rule reachable_inv)
  have vis: "visible objects h s"
    using acknowledged_okD(1) [OF reachable_acknowledged [OF app spec reach] ack(1)] ack(2,3) by simp
  have step: "server_step d app s (Arrive u get) (arrive d app u get s)" using get(1) by (rule server_step.arrive)
  have reach1: "server_reachable d app m (arrive d app u get s)" using reach step by (rule server_reachable_step)
  have "reading failure (length (log (world s))) h u s'"
  proof (rule run_reading [OF app spec run(1)])
    show "linked (arrive d app u get s)" using reach1 by (rule reachable_linked)
    show "flight_inv (probes (arrive d app u get s))" using reachable_probes [OF reach1] by (rule reachable_inv)
    show "objects (backend (world (arrive d app u get s))) h \<noteq> None" using vis by (simp add: visible_def)
    show "reading failure (length (log (world s))) h u (arrive d app u get s)"
      using get(2) vis inv by (rule arrive_reading)
  qed
  then show ?thesis using run(2) by (simp add: reading_def)
qed

end

section \<open>Properties\<close>

text \<open>A write that was acknowledged is seen, under every interleaving. Over S3, once a PUT of a
  key has been answered 200 or 409, every GET of it that arrives afterwards, at any later
  time and whatever else is under way (probes that saw the key absent, racing writes,
  clients that hang up), is answered 200, unless S3 has failed a request for the key
  since, which the log then shows.\<close>

theorem acknowledged_write_is_read:
  assumes "s3_documented c b objs ups" "s3_failures_documented c b objs ups"
    and "storage app = s3_storage c b" "axum_response_spec d"
    and "server_reachable d app m s"
    and "jobs s t = Finished put resp rest" "put_request d app put h"
    and "status resp = HTTP_OK \<or> status resp = CONFLICT"
    and "get_request d app get h"
    and "server_run d app s (Arrive u get # acts) s'" "jobs s' u = Finished get' resp' rest'"
  shows "status resp' = HTTP_OK \<or>
    (\<exists>operation err. S3_Failed operation h err \<in> set (drop (length (log (world s))) (log (world s'))))"
proof -
  have "jobs s u = Unused" "server_run d app (arrive d app u get s) acts s'"
    using assms(10) by (auto simp: server_step_simps)
  then have "status resp' = HTTP_OK \<or> failed_since s3_failure (length (log (world s))) h s'"
    using reporting_store.read_after_ack [OF s3_reporting [OF assms(1,2)] assms(3-8) _ assms(9) _ assms(11)] by blast
  then show ?thesis by (auto simp: failed_since_def s3_failure_def)
qed

text \<open>Where served bytes come from, under every interleaving. Over S3, an object in the bucket
  has the content it had when the server started or the body of a PUT of its key that
  arrived with the service token; and an artifact that a GET is served is such a content of
  its key, or the beginning of one when the stream broke off.\<close>

theorem objects_and_artifacts_sourced:
  assumes "s3_documented c b objs ups" "s3_failures_documented c b objs ups"
    and "storage app = s3_storage c b" "axum_response_spec d" "reader_stream_spec d"
    and "server_reachable d app m s"
  shows "(\<forall>h bs. objs (backend (world s)) h = Some bs \<longrightarrow> may_hold d app (objs (backend m)) s h bs) \<and>
    (\<forall>t get resp rest stream. jobs s t = Finished get resp rest \<longrightarrow> status resp = HTTP_OK \<longrightarrow>
       resp_body resp = Artifact stream \<longrightarrow>
       (\<exists>h. get_request d app get h \<and> may_serve d app (objs (backend m)) s h stream))"
proof -
  have "object_store (s3_storage c b) objs"
    using s3_reporting [OF assms(1,2)] by (rule reporting_store.axioms)
  then have "sourced objs d app (objs (backend m)) s"
    using assms(3-6) by (rule object_store.reachable_sourced)
  then show ?thesis unfolding sourced_def by (metis job_serves.simps(2))
qed

text \<open>Every answer is earned, under every interleaving and for every storage. Each response
  carries \<open>Connection: close\<close> and its status matches its request: 200 only for a health
  check, a GET with a valid token and key (a binary artifact) or a PUT with the service token
  and a valid key; 401 only without a valid token and 403 only for writes, both with a
  non-empty \<open>text/plain\<close> body; 404, 405 and 409 only where they belong; never a 5xx.\<close>

theorem answers_earned:
  assumes "axum_response_spec d" "server_reachable d app m s" "jobs s t = Finished req resp rest"
  shows "answer_ok d app req resp"
  using jobs_okD [OF reachable_jobs_ok [OF assms(1,2)] assms(3)] by simp

text \<open>Nobody is stranded, under every interleaving. In every reachable state a request under
  way can take its next step itself; or it is draining a body, which ends by its deadline;
  or its upload hangs with its client; or it waits for the probe of another request, which
  can take its next step.\<close>

theorem requests_progress:
  assumes "server_reachable d app m s" "jobs s t = Active req t0 st"
  shows "(\<exists>a s'. actor a = Some t \<and> a \<noteq> Hang_Up t \<and> server_step d app s a s') \<or>
    (\<exists>r rest deadline. st = Draining r rest deadline \<and> now (probes s) < deadline) \<or>
    (\<exists>h data. st = Writing h data \<and> store (storage app) h (d_reader_stream d data) (machine_now s) = None) \<or>
    (\<exists>h u s'. st = Awaiting h \<and> u \<noteq> t \<and>
       (server_step d app s (Head_Effect u) s' \<or> server_step d app s (Probe_End u) s'))"
  using reachable_linked [OF assms(1)] reachable_inv [OF reachable_probes [OF assms(1)]] assms(2)
  by (rule progress_facts)

text \<open>The two models of the server agree. Whenever no request is under way, requests
  that are served one after the other by the concurrent server, each running alone with
  time passing as its storage calls and drains take it, get exactly the responses that the
  sequential router computes, and leave the cache, the log and the world it computes.\<close>

theorem alone_equals_sequential:
  assumes "storage_contract (storage app)" "cell_spec d"
    and "server_reachable d app m s" "quiet s"
    and "\<And>i. n \<le> i \<Longrightarrow> i < n + length reqs \<Longrightarrow> jobs s i = Unused"
    and "serve d app reqs (seq s) = Some (resps, srv')"
  shows "\<exists>acts s'. server_run d app s acts s' \<and> seq s' = srv' \<and> length resps = length reqs \<and>
    (\<forall>u. u < n \<or> n + length reqs \<le> u \<longrightarrow> jobs s' u = jobs s u) \<and>
    (\<forall>i < length reqs. \<exists>rest. jobs s' (n + i) = Finished (reqs ! i) (resps ! i) rest)"
  using storage_contract.session_run [OF assms(1) refl assms(2) _ assms(4-6)]
    reachable_linked [OF assms(3)] reachable_inv [OF reachable_probes [OF assms(3)]] by blast

section \<open>Witnesses\<close>

text \<open>
  A schedule in which a GET saw the key absent, a PUT of it is stored and answered, and a
  second GET arrives while the first one's probe has not come back.
\<close>

definition racing_schedule :: "action list" where
  "racing_schedule =
     [Arrive 2 ro_get, Probe_Start 2, Head_Effect 2,
      Arrive 0 small_put, Check_Effect 0, Check_End 0, Put_Effect 0, Put_End 0]"

definition late_schedule :: "action list" where
  "late_schedule = [Arrive 1 ro_get, Probe_End 2, Cell_Hit 1, Get_Effect 1, Get_End 1]"

lemma small_put_request: "put_request reference_deps memory_app small_put VALID_HASH"
proof -
  have "may_write reference_deps (config memory_app) small_put"
    using small_put_facts(3) by (simp add: may_write_iff memory_app_def)
  then show ?thesis using small_put_facts(1,2) by (simp add: put_request_def cache_request_def hash_eval)
qed

lemma ro_get_request: "get_request reference_deps memory_app ro_get VALID_HASH"
  using ro_get_facts by (simp add: get_request_def cache_request_def hash_eval memory_app_def is_read_def)

lemma memory_exists:
  "exists (storage memory_app) h m =
     (Ok (stored (backend m) h \<noteq> None), m\<lparr>calls := calls m @ [HeadObject ''b'' h]\<rparr>)"
  by (auto simp: memory_app_def s3_storage_def s3_exists_def send_def memory_client_def sdk_failure_def)

lemma memory_put:
  "store (storage memory_app) h (req_body small_put) m =
     Some (Ok (), Done, m\<lparr>clock := clock m + 3, calls := calls m @ [PutObject ''b'' h [7, 8, 9]],
       backend := (backend m)\<lparr>stored := (stored (backend m))(h \<mapsto> [7, 8, 9])\<rparr>\<rparr>)"
  by (simp add: memory_app_def s3_storage_def small_put_def s3_store_def fill_part_def fill_loop.simps
      put_whole_def send_def MULTIPART_PART_SIZE_def memory_client_def elapse_def)

lemma memory_get:
  "stored (backend m) h = Some bs \<Longrightarrow> retrieve (storage memory_app) h m =
     (Ok (Chunk 0 bs Done), m\<lparr>calls := calls m @ [GetObject ''b'' h]\<rparr>)"
  by (simp add: memory_app_def s3_storage_def s3_retrieve_def send_def memory_client_def)

lemmas schedule_eval = server_exec_all_iff arrive_put [OF small_put_request] arrive_get [OF ro_get_request]
  begin_get_def hash_eval cserver_init_def run_simps memory_exists memory_put memory_get after_check_def
  after_store_def after_present_def after_retrieve_def started_def empty_bucket_def set_stage_def set_job_def
  machine_now_def fcard_fempty finish_def closing_def access_event_def reference_deps_simps
  status_response_of_Err

abbreviation demo_start :: "bucket cserver" where
  "demo_start \<equiv> cserver_init (started empty_bucket)"

lemma demo_runs:
  "\<exists>s s' resp1 resp2 rest1 rest2.
     server_run reference_deps memory_app demo_start racing_schedule s \<and>
     jobs s 0 = Finished small_put (closing (text_response HTTP_OK '''')) Done \<and>
     server_run reference_deps memory_app s late_schedule s' \<and>
     jobs s' 1 = Finished ro_get resp1 rest1 \<and> status resp1 = HTTP_OK \<and>
     resp_body resp1 = Artifact (Chunk 0 [7, 8, 9] Done) \<and>
     jobs s' 2 = Finished ro_get resp2 rest2 \<and> status resp2 = NOT_FOUND"
  by (simp add: racing_schedule_def late_schedule_def schedule_eval)

lemma demo_reachable:
  "server_run reference_deps memory_app demo_start acts s \<Longrightarrow>
     server_reachable reference_deps memory_app (started empty_bucket) s"
  by (auto simp: server_reachable_def)

lemma memory_app_storage: "storage memory_app = s3_storage memory_client ''b''"
  by (simp add: memory_app_def)

lemma acknowledged_write_is_read_witness:
  "\<exists>s s' resp rest.
     server_run reference_deps memory_app demo_start racing_schedule s \<and>
     server_run reference_deps memory_app s late_schedule s' \<and> jobs s' 1 = Finished ro_get resp rest \<and>
     (status resp = HTTP_OK \<or> (\<exists>operation err.
        S3_Failed operation VALID_HASH err \<in> set (drop (length (log (world s))) (log (world s')))))"
proof -
  obtain s s' resp1 rest1 where
    r: "server_run reference_deps memory_app demo_start racing_schedule s"
      "jobs s 0 = Finished small_put (closing (text_response HTTP_OK '''')) Done"
      "server_run reference_deps memory_app s late_schedule s'" "jobs s' 1 = Finished ro_get resp1 rest1"
    using demo_runs by blast
  have "status (closing (text_response HTTP_OK '''')) = HTTP_OK" by (simp add: text_response_def)
  then show ?thesis
    using acknowledged_write_is_read [OF memory_documented memory_failures_documented memory_app_storage
        reference_deps_specs(3) demo_reachable [OF r(1)] r(2) small_put_request disjI1 ro_get_request
        r(3) [unfolded late_schedule_def] r(4)] r
    by blast
qed

lemma objects_and_artifacts_sourced_witness:
  "\<exists>s' resp rest. jobs s' 1 = Finished ro_get resp rest \<and>
     may_serve reference_deps memory_app (stored empty_bucket) s' VALID_HASH (Chunk 0 [7, 8, 9] Done)"
proof -
  obtain s s' resp1 rest1 where
    r: "server_run reference_deps memory_app demo_start racing_schedule s"
      "server_run reference_deps memory_app s late_schedule s'" "jobs s' 1 = Finished ro_get resp1 rest1"
      "status resp1 = HTTP_OK" "resp_body resp1 = Artifact (Chunk 0 [7, 8, 9] Done)"
    using demo_runs by blast
  have "server_reachable reference_deps memory_app (started empty_bucket) s'"
    using demo_reachable [OF r(1)] r(2) by (rule server_reachable_run)
  from objects_and_artifacts_sourced [OF memory_documented memory_failures_documented memory_app_storage
      reference_deps_specs(3,4) this] r(3-5)
  obtain h where "get_request reference_deps memory_app ro_get h"
    "may_serve reference_deps memory_app (stored (backend (started empty_bucket))) s' h (Chunk 0 [7, 8, 9] Done)"
    by blast
  moreover from this have "h = VALID_HASH" using ro_get_request by (simp add: get_request_def)
  moreover have "backend (started empty_bucket) = empty_bucket" by (simp add: started_def)
  ultimately show ?thesis using r(3) by auto
qed

lemma answers_earned_witness:
  "\<exists>(s' :: bucket cserver) resp rest. jobs s' 2 = Finished ro_get resp rest \<and> status resp = NOT_FOUND \<and>
     answer_ok reference_deps memory_app ro_get resp"
proof -
  obtain s s' resp2 rest2 where
    r: "server_run reference_deps memory_app demo_start racing_schedule s"
      "server_run reference_deps memory_app s late_schedule s'" "jobs s' 2 = Finished ro_get resp2 rest2"
      "status resp2 = NOT_FOUND"
    using demo_runs by blast
  have "server_reachable reference_deps memory_app (started empty_bucket) s'"
    using demo_reachable [OF r(1)] r(2) by (rule server_reachable_run)
  from answers_earned [OF reference_deps_specs(3) this r(3)] r(3,4) show ?thesis by blast
qed

text \<open>The first reader holds the probe, a second one of the same key waits for it.\<close>

lemma requests_progress_witness:
  "\<exists>s u s'. jobs s 1 = Active ro_get 0 (Awaiting VALID_HASH) \<and> u \<noteq> 1 \<and>
     (server_step reference_deps memory_app s (Head_Effect u) s' \<or>
      server_step reference_deps memory_app s (Probe_End u) s')"
proof -
  let ?acts = "[Arrive 2 ro_get, Arrive 1 ro_get, Probe_Start 2]"
  obtain s where s: "server_run reference_deps memory_app demo_start ?acts s"
    "jobs s 1 = Active ro_get 0 (Awaiting VALID_HASH)"
    "tasks (probes s) 1 = Waiting VALID_HASH 0 0" "present_cell (heap (probes s) ! 0) = None"
    "permit (heap (probes s) ! 0) = Some 2"
    by (simp add: schedule_eval)
  have "\<not> server_step reference_deps memory_app s a s'" if "actor a = Some 1" "a \<noteq> Hang_Up 1" for a s'
    using that s(2-5) by (cases a) (auto simp: server_exec_iff)
  then show ?thesis
    using requests_progress [OF demo_reachable [OF s(1)] s(2)] s(2) by blast
qed


text \<open>A PUT and a GET of it, one after the other on a fresh server.\<close>

lemma alone_equals_sequential_witness:
  "\<exists>resps srv' acts s' rest. serve reference_deps memory_app [small_put, ro_get] (seq demo_start) = Some (resps, srv') \<and>
     server_run reference_deps memory_app demo_start acts s' \<and> seq s' = srv' \<and> jobs s' 1 = Finished ro_get (resps ! 1) rest"
proof -
  have c: "storage_contract (storage memory_app)"
    unfolding memory_app_storage by (rule s3.storage_contract_axioms)
  have "\<forall>req \<in> set [small_put, ro_get]. terminates (req_body req)"
    by (simp add: small_put_def ro_get_def case_request_def case_eval carries_body_def)
  then obtain resps srv' where r: "serve reference_deps memory_app [small_put, ro_get] (seq demo_start) = Some (resps, srv')"
    using storage_contract.serve_returns [OF c refl reference_deps_specs(4)] by blast
  have "server_reachable reference_deps memory_app (started empty_bucket) demo_start"
    by (rule demo_reachable [where acts = "[]"]) simp
  moreover have "quiet demo_start" "jobs demo_start i = Unused" for i
    by (simp_all add: quiet_def cserver_init_def)
  ultimately obtain acts s' where "server_run reference_deps memory_app demo_start acts s'" "seq s' = srv'"
    "\<forall>i < length [small_put, ro_get]. \<exists>rest. jobs s' (0 + i) = Finished ([small_put, ro_get] ! i) (resps ! i) rest"
    using alone_equals_sequential [OF c reference_deps_specs(5) _ _ _ r, where n = 0] by blast
  moreover from this(3) obtain rest where "jobs s' 1 = Finished ro_get (resps ! 1) rest" by auto
  ultimately show ?thesis using r by blast
qed

end
