(* ===== verification/Cluster_Visibility.thy ===== *)
theory Cluster_Visibility
  imports Cluster_Facts Server_Concurrency
begin

text \<open>
  When the instances see each other's writes. Once an object is in the bucket, the only slots
  of a member's cache that can still say "absent" are older than the write; they stop being
  handed to requests at the end of their lifetime.
\<close>

section \<open>Slots from before a write\<close>

text \<open>\<open>calm\<close>: no answer "absent" of S3 was on its way to the member when the object was there.\<close>

definition stale_until :: "bool \<Rightarrow> instant \<Rightarrow> gslot \<Rightarrow> bool" where
  "stale_until calm T x \<longleftrightarrow> created x \<le> T \<and> (calm \<longrightarrow> present_cell x = Some False)"

lemma lasting_stale: "lasting (stale_until calm T)"
  by (simp add: lasting_def stale_until_def)

definition absent_on_its_way :: "string \<Rightarrow> 's cserver \<Rightarrow> bool" where
  "absent_on_its_way h s \<longleftrightarrow> (\<exists>t req t0. jobs s t = Active req t0 (Headed h (Ok False)))"

lemma shown_start:
  assumes "flight_inv (probes s)" "linked s" "objs (backend (world s)) h \<noteq> None"
    and "calm \<longrightarrow> \<not> absent_on_its_way h s"
  shows "shown objs (stale_until calm (now (probes s))) h s"
  unfolding shown_def
proof (intro conjI allI impI)
  fix i assume i: "fmlookup (index (probes s)) h = Some i"
  note slot = flight_invD(1) [OF assms(1) i]
  have age: "created (heap (probes s) ! i) \<le> now (probes s)"
    using flight_invD(3) [OF assms(1), of i] slot by (auto simp: slot_ok_def)
  show "clean s i \<or> stale_until calm (now (probes s)) (heap (probes s) ! i)"
  proof (cases "present_cell (heap (probes s) ! i) = Some False \<or> \<not> calm")
    case True
    then show ?thesis using age by (auto simp: stale_until_def)
  next
    case False
    have "tasks (probes s) t \<noteq> Probing k i e b" if "jobs s t = Active req t0 (Headed h' (Ok False))"
      for t req t0 h' k e b
    proof
      assume p: "tasks (probes s) t = Probing k i e b"
      then have "slot_key (heap (probes s) ! i) = k" using permit_uninit [OF assms(1) p] by simp
      moreover have "h' = k" using linkedD [OF assms(2) that] p by simp
      ultimately have "absent_on_its_way h s" using that slot by (auto simp: absent_on_its_way_def)
      then show False using False assms(4) by simp
    qed
    then show ?thesis using False by (auto simp: clean_def)
  qed
qed (rule assms(3))

lemma stale_expired:
  assumes "shown objs (stale_until calm T) h s" "T + delay \<le> now (probes s)"
    and "UNRESOLVED_TTL \<le> delay \<or> calm \<and> NEGATIVE_TTL \<le> delay"
    and "fmlookup (index (probes s)) h = Some i" "live (now (probes s)) (heap (probes s) ! i)"
  shows "clean s i"
proof (rule ccontr)
  let ?x = "heap (probes s) ! i"
  assume "\<not> clean s i"
  then have x: "created ?x \<le> T" "calm \<longrightarrow> present_cell ?x = Some False"
    using assms(1,4) by (auto simp: shown_def stale_until_def)
  have "ttl (present_cell ?x) \<le> delay"
    using assms(3)
  proof
    assume "UNRESOLVED_TTL \<le> delay"
    moreover have "ttl v \<le> UNRESOLVED_TTL" for v
      by (simp add: ttl_def POSITIVE_TTL_def NEGATIVE_TTL_def UNRESOLVED_TTL_def from_secs_def
          split: option.split bool.split)
    ultimately show ?thesis by (meson order_trans)
  qed (use x in simp)
  then show False using assms(2,5) x(1) by (simp add: live_ttl)
qed

section \<open>Steps\<close>

lemma moves_shown:
  assumes "upload_moves objs h stream s s'" "shown objs stale k s"
  shows "shown objs stale k s'"
  using assms(2) moves_clean [OF assms(1)] upload_movesD(1) [OF assms(1)] upload_movesD(3) [OF assms(1), of k]
  unfolding shown_def by auto

lemma shown_see:
  "shown objs stale h (base f) \<Longrightarrow> objs k h \<noteq> None \<Longrightarrow> shown objs stale h (base (see_bucket k f))"
  by (auto simp: shown_def clean_def)

lemma reading_see: "reading failed n h u (base (see_bucket k f)) \<longleftrightarrow> reading failed n h u (base f)"
proof -
  have "clean (base (see_bucket k f)) = clean (base f)" by (intro ext) (simp add: clean_def)
  then show ?thesis by (simp add: reading_def failed_since_def)
qed

context s3_uploads
begin

lemma full_step_shown:
  assumes app: "storage app = s3_storage client bucket" and spec: "axum_response_spec d"
    and inv: "member_inv d app objs ups issued f" and step: "full_step d app client bucket f a f'"
    and sh: "lasting stale" "shown objs stale h (base f)"
  shows "shown objs stale h (base f')"
  using app inv step
proof (cases rule: full_step_base)
  case (server a')
  then show ?thesis using shown_step [OF app spec server(3) member_invD(2,1) [OF inv] sh] by simp
next
  case (upload t k stream)
  then show ?thesis using moves_shown [OF upload(2) sh(2)] by simp
next
  case same
  then show ?thesis using sh by simp
qed

text \<open>For one member, a step of the cluster is its own or another one's that it finds in the bucket.\<close>

lemma cluster_step_at:
  assumes app: "storage app = s3_storage client bucket"
    and inv: "cluster_inv d app objs ups issued initial C" and step: "cluster_step d app client bucket C a C'"
    and j: "j < length C"
  obtains (own) a' where "full_step d app client bucket (C ! j) a' (C' ! j)"
  | (other) k where "C' ! j = see_bucket k (C ! j)"
      "\<And>h. objs (bucket_of (C ! j)) h \<noteq> None \<Longrightarrow> objs k h \<noteq> None"
  using step
proof (cases rule: cluster_step.cases)
  case (all_wait delay)
  then show ?thesis using own member_wait_step j by (metis nth_map)
next
  case (at_member i a' f)
  show ?thesis
  proof (cases "j = i")
    case True
    then show ?thesis using own at_member by simp
  next
    case False
    show ?thesis
    proof (rule other)
      show "C' ! j = see_bucket (bucket_of f) (C ! j)" using at_member(2) j False by simp
      show "objs (bucket_of f) h \<noteq> None" if "objs (bucket_of (C ! j)) h \<noteq> None" for h
        using full_step_kept [OF app cluster_invD(1) [OF inv at_member(3)] at_member(5)] that
          cluster_invD(3) [OF inv at_member(3) j] by simp
    qed
  qed
qed

lemma cluster_step_shown:
  assumes app: "storage app = s3_storage client bucket" and spec: "axum_response_spec d"
    and inv: "cluster_inv d app objs ups issued initial C" and step: "cluster_step d app client bucket C a C'"
    and j: "j < length C" and sh: "lasting stale" "shown objs stale h (base (C ! j))"
  shows "shown objs stale h (base (C' ! j))"
  using app inv step j
proof (cases rule: cluster_step_at)
  case (own a')
  then show ?thesis using full_step_shown [OF app spec cluster_invD(1) [OF inv j] own sh] by simp
next
  case (other k)
  then show ?thesis using shown_see [OF sh(2)] sh(2) by (simp add: shown_def bucket_of_def)
qed

lemma cluster_step_reading:
  assumes app: "storage app = s3_storage client bucket" and spec: "axum_response_spec d"
    and inv: "cluster_inv d app objs ups issued initial C" and step: "cluster_step d app client bucket C a C'"
    and j: "j < length C" and there: "objs (bucket_of (C ! j)) h \<noteq> None"
    and rd: "reading s3_failure n h u (base (C ! j))"
  shows "objs (bucket_of (C' ! j)) h \<noteq> None \<and> reading s3_failure n h u (base (C' ! j))"
  using app inv step j
proof (cases rule: cluster_step_at)
  case (own a')
  then show ?thesis
    using full_step_reading [OF app spec cluster_invD(1) [OF inv j] own _ rd] there by (simp add: bucket_of_def)
next
  case (other k)
  then show ?thesis using other(2) there rd by (simp add: reading_see)
qed

lemma cluster_run_shown:
  assumes "storage app = s3_storage client bucket" "axum_response_spec d" "reader_stream_spec d"
    and "cluster_run d app client bucket C acts C'" "cluster_inv d app objs ups issued initial C" "j < length C"
    and "lasting stale" "shown objs stale h (base (C ! j))"
  shows "cluster_inv d app objs ups issued initial C' \<and> shown objs stale h (base (C' ! j))"
proof -
  let ?P = "\<lambda>C. cluster_inv d app objs ups issued initial C \<and> j < length C \<and> shown objs stale h (base (C ! j))"
  have "?P C'"
    using assms(4) by (rule cluster_run_inv [where P = ?P])
      (use assms(5-8) cluster_step_inv [OF assms(1-3)] cluster_step_shown [OF assms(1,2)] cluster_step_length
        in \<open>metis+\<close>)
  then show ?thesis by blast
qed

lemma cluster_run_reading:
  assumes "storage app = s3_storage client bucket" "axum_response_spec d" "reader_stream_spec d"
    and "cluster_run d app client bucket C acts C'" "cluster_inv d app objs ups issued initial C" "j < length C"
    and "objs (bucket_of (C ! j)) h \<noteq> None" "reading s3_failure n h u (base (C ! j))"
  shows "reading s3_failure n h u (base (C' ! j))"
proof -
  let ?P = "\<lambda>C. cluster_inv d app objs ups issued initial C \<and> j < length C \<and>
    objs (bucket_of (C ! j)) h \<noteq> None \<and> reading s3_failure n h u (base (C ! j))"
  have "?P C'"
    using assms(4) by (rule cluster_run_inv [where P = ?P])
      (use assms(5-8) cluster_step_inv [OF assms(1-3)] cluster_step_reading [OF assms(1,2)] cluster_step_length
        in \<open>metis+\<close>)
  then show ?thesis by blast
qed

end

end
