(* ===== verification/Full_Embedding.thy ===== *)
theory Full_Embedding
  imports Full_Facts Server_Solo
begin

text \<open>
  Every run of \<open>Server_Flight\<close>, where an upload is one step, is a run of the whole server in
  which the steps of that upload happen to follow one another. So what is shown to be
  reachable there, requests served one after the other in particular, is reachable here.
  The two states differ only in the clock that the last storage call left in the world,
  which no step reads (\<open>tick\<close>).
\<close>

section \<open>The clock of the world\<close>

definition tick :: "instant \<Rightarrow> 's cserver \<Rightarrow> 's cserver" where
  "tick k s = s\<lparr>world := (world s)\<lparr>clock := k\<rparr>\<rparr>"

lemma tick_simps [simp]:
  "probes (tick k s) = probes s" "jobs (tick k s) = jobs s" "world (tick k s) = (world s)\<lparr>clock := k\<rparr>"
  "machine_now (tick k s) = machine_now s" "tick j (tick k s) = tick j s"
  "(tick k s)\<lparr>probes := p\<rparr> = tick k (s\<lparr>probes := p\<rparr>)" "(tick k s)\<lparr>world := m\<rparr> = s\<lparr>world := m\<rparr>"
  "set_job t j' (tick k s) = tick k (set_job t j' s)" "set_stage t req t0 st (tick k s) = tick k (set_stage t req t0 st s)"
  "finish d t req t0 r rest (tick k s) = finish d t req t0 r rest s"
  by (simp_all add: tick_def machine_now_def set_job_def set_stage_def finish_def split: sum.split prod.split)

lemma tick_start_drain [simp]: "start_drain t req t0 r b (tick k s) = tick k (start_drain t req t0 r b s)"
  by (simp add: start_drain_def split: prod.split)

lemma world_clock: "s\<lparr>world := m\<lparr>clock := k\<rparr>\<rparr> = tick k (s\<lparr>world := m\<rparr>)"
  by (simp add: tick_def)

lemma tick_self: "tick (clock (world s)) s = s"
  by (simp add: tick_def)

text \<open>Two states that agree but for that clock.\<close>

definition alike :: "'s cserver \<Rightarrow> 's cserver \<Rightarrow> bool" where
  "alike s s' \<longleftrightarrow> (\<exists>k. s' = tick k s)"

lemma alike_refl [simp]: "alike s s"
  unfolding alike_def using tick_self by metis

lemma alike_tick [simp]: "alike s (tick k s)" "alike (tick k s) s"
  unfolding alike_def by (auto intro: exI [of _ k]) (metis tick_self tick_simps(5))

lemma alike_trans: "alike s s1 \<Longrightarrow> alike s1 s2 \<Longrightarrow> alike s s2"
  unfolding alike_def by auto

lemma alike_sym: "alike s s1 \<Longrightarrow> alike s1 s"
  by (metis alike_def alike_tick(2))

lemma alikeD:
  assumes "alike s s'"
  shows "jobs s' = jobs s" "probes s' = probes s" "machine_now s' = machine_now s"
  using assms by (auto simp: alike_def)

lemma alike_after:
  "alike (after_present d t req t0 h r s) (after_present d t req t0 h r (tick k s))"
  "alike (after_retrieve d t req t0 r' s) (after_retrieve d t req t0 r' (tick k s))"
  "alike (after_check t req t0 h b r s) (after_check t req t0 h b r (tick k s))"
  by (simp_all add: after_present_def after_retrieve_def after_check_def split: sum.split)

lemma alike_declined:
  "alike (start_drain t req t0 x b (s\<lparr>world := emit ev (world s)\<rparr>))
     (start_drain t req t0 x b (s\<lparr>world := emit ev ((world s)\<lparr>clock := k\<rparr>)\<rparr>))"
proof -
  have eq: "s\<lparr>world := emit ev ((world s)\<lparr>clock := k\<rparr>)\<rparr> = tick k (s\<lparr>world := emit ev (world s)\<rparr>)"
    by (simp add: tick_def emit_def)
  show ?thesis unfolding eq by simp
qed

lemma alike_after_store: "alike (after_store d t req t0 h w rest s) (after_store d t req t0 h w rest (tick k s))"
  using alike_declined by (auto simp: after_store_def split: sum.split)

lemma alike_arrive: "alike (arrive d app t req s) (arrive d app t req (tick k s))"
  by (simp add: arrive_def begin_auth_def begin_cache_def begin_get_def begin_put_def Let_def
      split: route_match.split option.split sum.split prod.split)

text \<open>A step from the one state is the same step from the other.\<close>

lemma tick_step:
  "server_step d app s a s' \<Longrightarrow> \<exists>s2. server_step d app (tick k s) a s2 \<and> alike s' s2"
proof (induction rule: server_step.induct)
  case (pass s delay)
  show ?case
    by (rule exI, rule conjI, rule server_step.pass) simp
next
  case (arrive s t req)
  then show ?case using server_step.arrive [of "tick k s" t d app req] alike_arrive by fastforce
next
  case (cell_hit s t req t0 h i e v)
  then show ?case using server_step.cell_hit [of "tick k s" t req t0 h i e v d app] alike_after(1) by fastforce
next
  case (probe_start s t req t0 h i e)
  then show ?case using server_step.probe_start [of "tick k s" t req t0 h i e d app] by fastforce
next
  case (head_effect s t req t0 h i e b r m)
  then show ?case using server_step.head_effect [of "tick k s" t req t0 h i e b app r m d] by fastforce
next
  case (probe_end s t req t0 h v i e b)
  then show ?case using server_step.probe_end [of "tick k s" t req t0 h v i e b d app] alike_after(1) by fastforce
next
  case (probe_fail s t req t0 h err i e b)
  then show ?case using server_step.probe_fail [of "tick k s" t req t0 h err i e b d app] alike_after(1) by fastforce
next
  case (get_effect s t req t0 h r' m)
  then show ?case using server_step.get_effect [of "tick k s" t req t0 h app r' m d] by fastforce
next
  case (get_end s t req t0 h r')
  then show ?case using server_step.get_end [of "tick k s" t req t0 h r' d app] alike_after(2) by fastforce
next
  case (check_effect s t req t0 h data r m)
  then show ?case using server_step.check_effect [of "tick k s" t req t0 h data app r m d] by fastforce
next
  case (check_end s t req t0 h data r)
  then show ?case using server_step.check_end [of "tick k s" t req t0 h data r d app] alike_after(3) by fastforce
next
  case (put_effect s t req t0 h data st rest m)
  then show ?case using server_step.put_effect [of "tick k s" t req t0 h data app d st rest m] by fastforce
next
  case (put_end s t req t0 h st rest)
  then show ?case using server_step.put_end [of "tick k s" t req t0 h st rest d app] alike_after_store by fastforce
next
  case (drain_end s t req t0 res rest deadline)
  then show ?case using server_step.drain_end [of "tick k s" t req t0 res rest deadline d app] by fastforce
next
  case (hang_up s t req t0 sg)
  then show ?case using server_step.hang_up [of "tick k s" t req t0 sg d app] by fastforce
next
  case (self_check s)
  then show ?case using server_step.self_check [of d app "tick k s"] by fastforce
qed

lemma alike_step:
  assumes "server_step d app s a s'" "alike s s1"
  obtains s2 where "server_step d app s1 a s2" "alike s' s2"
  using tick_step [OF assms(1)] assms(2) unfolding alike_def by blast

section \<open>An upload step by step\<close>

lemma send_clock:
  assumes "send req call m = (r, m')"
  shows "\<exists>j. send req call (m\<lparr>clock := k\<rparr>) = (r, m'\<lparr>clock := j\<rparr>)"
  using assms by (cases m) (auto simp: send_def split: prod.splits)

lemma fill_loop_clock:
  "fill_loop n h buf b x m = Some (r, rest, x', m') \<Longrightarrow>
     \<exists>j. fill_loop n h buf b x (m\<lparr>clock := k\<rparr>) = Some (r, rest, x', m'\<lparr>clock := j\<rparr>)"
proof (induction b arbitrary: buf x m k)
  case (Chunk d bs b)
  show ?case
  proof (cases "length buf < n")
    case True
    have "fill_loop n h (buf @ bs) b (x + length bs) (elapse d m) = Some (r, rest, x', m')"
      using Chunk.prems True by (simp add: fill_loop_step)
    from Chunk.IH [OF this, of "k + d"] show ?thesis using True by (simp add: fill_loop_step elapse_def)
  next
    case False
    then show ?thesis using Chunk.prems by (auto simp: fill_loop_full)
  qed
next
  case (Broken d)
  then show ?case
    by (cases m; cases "length buf < n") (auto simp: fill_loop_step fill_loop_full emit_def elapse_def)
next
  case Done
  then show ?case by (cases "length buf < n") (auto simp: fill_loop_step fill_loop_full)
next
  case Stalled
  then show ?case by (cases "length buf < n") (auto simp: fill_loop_step fill_loop_full)
qed

lemma fill_part_clock:
  "fill_part b n h x m = Some (r, rest, x', m') \<Longrightarrow>
     \<exists>j. fill_part b n h x (m\<lparr>clock := k\<rparr>) = Some (r, rest, x', m'\<lparr>clock := j\<rparr>)"
  by (simp add: fill_part_def fill_loop_clock)

lemma emit_clock_swap: "emit ev (m\<lparr>clock := k\<rparr>) = (emit ev m)\<lparr>clock := k\<rparr>"
  by (simp add: emit_def)

lemma store_advance_clock:
  assumes "store_advance c b h st m = Some (st', m')"
  shows "\<exists>j. store_advance c b h st (m\<lparr>clock := k\<rparr>) = Some (st', m'\<lparr>clock := j\<rparr>)"
proof (cases st)
  case (Filling data)
  then obtain r rest x m1 where f: "fill_part data MULTIPART_PART_SIZE h 0 m = Some (r, rest, x, m1)"
    using assms by (auto split: option.splits)
  show ?thesis using fill_part_clock [OF f, of k] f assms Filling by (auto split: sum.splits prod.splits)
next
  case (Refilling u data x cs pn)
  then obtain r rest x' m1 where f: "fill_part data MULTIPART_PART_SIZE h x m = Some (r, rest, x', m1)"
    using assms by (auto split: option.splits)
  show ?thesis using fill_part_clock [OF f, of k] f assms Refilling by (auto split: sum.splits prod.splits)
next
  case (Putting buf rest)
  obtain r m1 where s: "send (PutObject b h buf) (put_object c b h buf) m = (r, m1)" by fastforce
  show ?thesis using send_clock [OF s, of k] s assms Putting
    by (cases r) (auto simp: put_whole_def log_s3_error_def emit_clock_swap)
next
  case (Creating buf rest x)
  obtain r m1 where s: "send (CreateMultipartUpload b h) (create_multipart_upload c b h) m = (r, m1)" by fastforce
  show ?thesis using send_clock [OF s, of k] s assms Creating
    by (auto simp: log_s3_error_def emit_clock_swap split: sum.splits option.splits)
next
  case (Uploading u buf eof data x cs pn)
  show ?thesis
  proof (cases "buf = []")
    case True
    then show ?thesis using assms Uploading by (auto simp: upload_turn_def split: if_splits)
  next
    case False
    obtain r m1 where s: "send (UploadPart b h u pn (of_nat (length buf)) buf)
        (upload_part c b h u pn (of_nat (length buf)) buf) m = (r, m1)" by fastforce
    show ?thesis using send_clock [OF s, of k] s assms Uploading False
      by (auto simp: upload_turn_def upload_one_def log_s3_error_def emit_clock_swap split: sum.splits option.splits if_splits)
  qed
next
  case (Aborting u e rest)
  obtain r m1 where s: "send (AbortMultipartUpload b h u) (abort_multipart_upload c b h u) m = (r, m1)" by fastforce
  show ?thesis using send_clock [OF s, of k] s assms Aborting
    by (cases r) (auto simp: abort_upload_def log_s3_error_def emit_clock_swap)
next
  case (Completing u cs rest)
  obtain r m1 where s: "send (CompleteMultipartUpload b h u cs) (complete_multipart_upload c b h u cs) m = (r, m1)"
    by fastforce
  show ?thesis using send_clock [OF s, of k] s assms Completing
    by (cases r) (auto simp: complete_upload_def log_s3_error_def emit_clock_swap)
next
  case (Returned r rest u)
  then show ?thesis using assms by simp
qed

text \<open>The steps of one task that is served alone: its own ones, and time.\<close>

fun full_own :: "nat \<Rightarrow> full_action \<Rightarrow> bool" where
  "full_own t (Plain a) \<longleftrightarrow> own_step t a"
| "full_own t (Upload_Call u) \<longleftrightarrow> u = t"
| "full_own t (Upload_Step u) \<longleftrightarrow> u = t"
| "full_own t (Upload_Late u) \<longleftrightarrow> False"

text \<open>The steps of one upload, from its first await to its return, with nothing in between.\<close>

lemma upload_run:
  assumes "store_steps c b h st m n st2 m2"
  shows "st2 = Returned r rest u \<Longrightarrow> \<not> returned st \<Longrightarrow> jobs (base f) t = Active req t0 (Writing h' data) \<Longrightarrow>
    uploads f t = Running h stream st \<Longrightarrow> machine_now (base f) = m\<lparr>clock := now (probes (base f))\<rparr> \<Longrightarrow>
    \<exists>acts f'. full_run d app c b f acts f' \<and> list_all (full_own t) acts \<and>
      alike (set_stage t req t0 (Written h r rest) ((base f)\<lparr>world := m2\<rparr>)) (base f') \<and>
      uploads f' = (uploads f)(t := Running h stream (Returned r rest u))"
  using assms
proof (induction arbitrary: f rule: store_steps.induct)
  case (steps_cons st m st1 m1 n st2 m2)
  obtain j where adv: "store_advance c b h st (machine_now (base f)) = Some (st1, m1\<lparr>clock := j\<rparr>)"
    using store_advance_clock [OF steps_cons(1)] steps_cons.prems(5) by metis
  let ?f1 = "f\<lparr>base := upload_to t req t0 h st1 (m1\<lparr>clock := j\<rparr>) (base f), uploads := (uploads f)(t := Running h stream st1)\<rparr>"
  have step: "full_step d app c b f (Upload_Step t) ?f1"
    using steps_cons.prems(3,4) adv by (rule full_step.upload_step)
  show ?case
  proof (cases "returned st1")
    case True
    then obtain r1 rest1 u1 where st1: "st1 = Returned r1 rest1 u1" by (cases st1) simp_all
    have last: "Returned r1 rest1 u1 = st2 \<and> m1 = m2"
      using steps_cons(2) unfolding st1 by (cases rule: store_steps.cases) simp_all
    have "alike (set_stage t req t0 (Written h r rest) ((base f)\<lparr>world := m2\<rparr>)) (base ?f1)"
      using steps_cons.prems(1) st1 last by (auto simp: upload_to_def world_clock)
    then show ?thesis
      using step steps_cons.prems(1) st1 last
      by (intro exI [of _ "[Upload_Step t]"] exI [of _ ?f1]) simp
  next
    case False
    have base: "upload_to t req t0 h st1 (m1\<lparr>clock := j\<rparr>) (base f) = (base f)\<lparr>world := m1\<lparr>clock := j\<rparr>\<rparr>"
      using False by (cases st1) (simp_all add: upload_to_def)
    have f1: "jobs (base ?f1) t = Active req t0 (Writing h' data)" "uploads ?f1 t = Running h stream st1"
      "machine_now (base ?f1) = m1\<lparr>clock := now (probes (base ?f1))\<rparr>"
      using steps_cons.prems(3) by (simp_all add: base machine_now_def)
    obtain acts f' where run: "full_run d app c b ?f1 acts f'" "list_all (full_own t) acts"
      "alike (set_stage t req t0 (Written h r rest) ((base ?f1)\<lparr>world := m2\<rparr>)) (base f')"
      "uploads f' = (uploads ?f1)(t := Running h stream (Returned r rest u))"
      using steps_cons.IH [OF steps_cons.prems(1) False f1] by blast
    have "full_run d app c b f (Upload_Step t # acts) f'" using step run(1) by (rule full_next)
    moreover have "list_all (full_own t) (Upload_Step t # acts)" using run(2) by simp
    moreover have "(base ?f1)\<lparr>world := m2\<rparr> = (base f)\<lparr>world := m2\<rparr>" by (simp add: base)
    moreover have "uploads f' = (uploads f)(t := Running h stream (Returned r rest u))" using run(4) by simp
    ultimately show ?thesis using run(3) by metis
  qed
qed simp

section \<open>The embedding\<close>

text \<open>A request that has not come to its upload has none.\<close>

fun early :: "job \<Rightarrow> bool" where
  "early Unused = True"
| "early (Active req t0 (Checking h data)) = True"
| "early (Active req t0 (Checked h data r)) = True"
| "early (Active req t0 (Writing h data)) = True"
| "early j = False"

definition fresh :: "'s fserver \<Rightarrow> bool" where
  "fresh f \<longleftrightarrow> (\<forall>t. early (jobs (base f) t) \<longrightarrow> uploads f t = Not_Called)"

lemma early_step: "server_step d app s a s' \<Longrightarrow> early (jobs s' u) \<Longrightarrow> early (jobs s u)"
proof (induction rule: server_step.induct)
  case (arrive s t req)
  then show ?case using jobs_arrive_other [of u t d app req s] by (cases "u = t") simp_all
next
  case (check_end s t req t0 h data r)
  then show ?case by (cases "u = t") (auto simp: after_check_def start_drain_def split: prod.splits if_splits)
next
  case (put_end s t req t0 h st rest)
  then show ?case by (cases "u = t") (auto simp: after_store_def start_drain_def split: sum.splits prod.splits if_splits)
qed (auto simp: jobs_after split: if_splits)

lemma drops_fresh: "ups t = Not_Called \<Longrightarrow> drops a ups t = Not_Called"
  by (cases a) auto

lemma fresh_plain:
  assumes "fresh f" "server_step d app (base f) a s"
  shows "fresh (f\<lparr>base := s, uploads := drops a (uploads f)\<rparr>)"
  using assms early_step [OF assms(2)] drops_fresh by (simp add: fresh_def)

lemma server_run_full:
  assumes app: "storage app = s3_storage c b"
  shows "server_run d app s acts s' \<Longrightarrow> alike s (base f) \<Longrightarrow> fresh f \<Longrightarrow>
    \<exists>facts f'. full_run d app c b f facts f' \<and> alike s' (base f') \<and> fresh f' \<and>
      (\<forall>t. list_all (own_step t) acts \<longrightarrow> list_all (full_own t) facts)"
proof (induction arbitrary: f rule: server_run.induct)
  case (run_done s)
  then show ?case by (intro exI [of _ "[]"] exI [of _ f]) simp
next
  case (run_step s a s1 acts s2)
  obtain s1' where step: "server_step d app (base f) a s1'" and al: "alike s1 s1'"
    using run_step(1,4) by (rule alike_step)
  have "\<exists>facts f1. full_run d app c b f facts f1 \<and> alike s1 (base f1) \<and> fresh f1 \<and>
      (\<forall>t. own_step t a \<longrightarrow> list_all (full_own t) facts)"
  proof (cases "whole_upload a")
    case False
    from full_step.plain [OF step False] have
      "full_run d app c b f [Plain a] (f\<lparr>base := s1', uploads := drops a (uploads f)\<rparr>)" by simp
    then show ?thesis using fresh_plain [OF run_step(5) step] al
      by (intro exI [of _ "[Plain a]"] exI conjI) simp_all
  next
    case True
    then obtain t where a: "a = Put_Effect t" by (cases a) simp_all
    from step [unfolded a] show ?thesis
    proof (cases rule: server_step.cases)
      case (put_effect req t0 h data st rest m)
      let ?stream = "d_reader_stream d data"
      let ?f = "f\<lparr>uploads := (uploads f)(t := Running h ?stream (Filling ?stream))\<rparr>"
      have call: "full_step d app c b f (Upload_Call t) ?f"
        using put_effect(2) run_step(5) by (intro full_step.upload_call) (simp_all add: fresh_def)
      obtain n u where "store_steps c b h (Filling ?stream) (machine_now (base f)) n (Returned st rest u) m"
        using put_effect(3) app by (auto simp: s3_storage_def store_steps_eq)
      then obtain facts f1 where run: "full_run d app c b ?f facts f1" "list_all (full_own t) facts"
        "alike (set_stage t req t0 (Written h st rest) ((base ?f)\<lparr>world := m\<rparr>)) (base f1)"
        "uploads f1 = (uploads ?f)(t := Running h ?stream (Returned st rest u))"
        using upload_run [OF _ refl, where f = ?f and t = t] put_effect(2) by (fastforce simp: machine_now_def)
      have "alike s1' (base f1)" using run(3) put_effect(1) by simp
      moreover from this have "fresh f1"
        using run_step(5) early_step [OF step] put_effect(1) run(4) alikeD(1) by (fastforce simp: fresh_def)
      moreover have "list_all (full_own u) (Upload_Call t # facts)" if "own_step u a" for u
        using that run(2) a by simp
      ultimately show ?thesis using full_next [OF call run(1)] alike_trans [OF al] by blast
    qed
  qed
  then obtain facts f1 where one: "full_run d app c b f facts f1" "alike s1 (base f1)" "fresh f1"
    "\<forall>t. own_step t a \<longrightarrow> list_all (full_own t) facts" by blast
  obtain facts2 f2 where two: "full_run d app c b f1 facts2 f2" "alike s2 (base f2)" "fresh f2"
    "\<forall>t. list_all (own_step t) acts \<longrightarrow> list_all (full_own t) facts2"
    using run_step(3) [OF one(2,3)] by blast
  have "list_all (full_own t) (facts @ facts2)" if "list_all (own_step t) (a # acts)" for t
    using that one(4) two(4) by simp
  then show ?case using full_run_append [OF one(1) two(1)] two(2,3) by blast
qed

section \<open>States between requests\<close>

text \<open>The upload of a request begins when its handler has come to it, and ends before it goes on.\<close>

fun upload_waits :: "job \<Rightarrow> store_job \<Rightarrow> bool" where
  "upload_waits (Active req t0 (Writing h data)) up =
     (up = Not_Called \<or> (\<exists>h' stream st. up = Running h' stream st \<and> \<not> returned st))"
| "upload_waits j up = (early j \<longrightarrow> up = Not_Called)"

lemma upload_waits_none [simp]: "upload_waits j Not_Called"
  by (cases "(j, Not_Called)" rule: upload_waits.cases) simp_all

text \<open>What holds of every reachable state, whatever S3 answers.\<close>

definition full_basic :: "'s fserver \<Rightarrow> bool" where
  "full_basic f \<longleftrightarrow> (linked (base f) \<and> flight_inv (probes (base f))) \<and>
     (\<forall>t. upload_waits (jobs (base f) t) (uploads f t))"

lemma job_waits_step:
  "server_step d app s a s' \<Longrightarrow> upload_waits (jobs s u) up \<Longrightarrow>
     upload_waits (jobs s' u) (drops a (\<lambda>_. up) u)"
proof (induction rule: server_step.induct)
  case (arrive s t req)
  then show ?case using jobs_arrive_other [of u t d app req s] by (cases "u = t") simp_all
next
  case (check_end s t req t0 h data r)
  then show ?case by (cases "u = t") (auto simp: after_check_def start_drain_def split: prod.splits)
next
  case (put_end s t req t0 h st rest)
  then show ?case by (cases "u = t") (auto simp: after_store_def start_drain_def split: sum.splits prod.splits)
qed (auto simp: jobs_after)

lemma drops_at: "drops a ups t = drops a (\<lambda>_. ups t) t"
  by (cases a) simp_all

lemma full_basic_step:
  assumes "full_step d app c b f a f'" "full_basic f"
  shows "full_basic f'"
  using assms(1)
proof (cases rule: full_step.cases)
  case (plain a' s)
  have "upload_waits (jobs s t) (drops a' (uploads f) t)" for t
    using job_waits_step [OF plain(3), of t "uploads f t"] assms(2)
    unfolding drops_at [of a' "uploads f" t] by (simp add: full_basic_def)
  then show ?thesis
    using assms(2) server_run_inv [of d app "base f" "[a']" s] plain(2,3) by (simp add: full_basic_def)
next
  case (upload_call t req t0 h data)
  then show ?thesis using assms(2) by (simp add: full_basic_def)
next
  case (upload_step t req t0 h data h' stream st st' m)
  have "linked (upload_to t req t0 h' st' m (base f))"
    using assms(2) linkedD [OF _ upload_step(3)] linked_set_stage [of "base f" "(base f)\<lparr>world := m\<rparr>" req t0 _ t]
    by (auto simp: full_basic_def upload_to_def linked_def split: store_stage.split)
  moreover have "flight_inv (probes (upload_to t req t0 h' st' m (base f)))"
    using assms(2) by (simp add: full_basic_def upload_to_def split: store_stage.split)
  moreover have "upload_waits (jobs (upload_to t req t0 h' st' m (base f)) u) (((uploads f)(t := Running h' stream st')) u)" for u
    using assms(2) upload_step(3) by (cases "u = t"; cases st') (simp_all add: full_basic_def upload_to_def)
  ultimately show ?thesis using upload_step(2) by (simp add: full_basic_def)
next
  case (upload_late t h stream st st' m)
  have "upload_waits (jobs (base f) t) (Dropped h stream st)" using assms(2) upload_late(3) by (simp add: full_basic_def) metis
  then have "upload_waits (jobs (base f) t) (Buried h stream st)"
    by (cases "(jobs (base f) t, Buried h stream st)" rule: upload_waits.cases) simp_all
  then show ?thesis using assms(2) upload_late(2) by (auto simp: full_basic_def linked_def)
qed

lemma full_reachable_basic:
  assumes "full_reachable d app c b m f"
  shows "full_basic f"
proof -
  obtain acts where run: "full_run d app c b (fserver_init m) acts f"
    using assms unfolding full_reachable_def by blast
  have "full_basic (fserver_init m)"
    using linked_init [of m] by (simp add: full_basic_def fserver_init_def) (simp add: cserver_init_def flight_inv_init)
  with run show ?thesis using full_basic_step by (rule full_run_inv [where P = full_basic])
qed

lemma quiet_fresh: "full_basic f \<Longrightarrow> quiet (base f) \<Longrightarrow> fresh f"
  unfolding fresh_def full_basic_def quiet_def by (metis early.elims(2) upload_waits.simps(2))

end
