(* ===== verification/Full_Solo.thy ===== *)
theory Full_Solo
  imports Full_Embedding
begin

text \<open>
  A request that is served alone: between its arrival and its answer the whole server takes
  only its own steps, and time passes as it likes. What it is answered, and what it does to
  the bucket, does not depend on how the time passes: two such runs that both end in an
  answer end alike.
\<close>

section \<open>What a task depends on\<close>

text \<open>Its stage without instants, the cell it waits for, its upload, and the world without its clock.\<close>

fun untimed :: "job \<Rightarrow> job" where
  "untimed (Active req t0 (Draining r rest deadline)) = Active req 0 (Draining r rest 0)"
| "untimed (Active req t0 st) = Active req 0 st"
| "untimed j = j"

definition asked :: "'s cserver \<Rightarrow> nat \<Rightarrow> bool option option" where
  "asked s t =
     (case (jobs s t, tasks (probes s) t) of
        (Active req t0 (Awaiting h), Waiting k i e) \<Rightarrow> Some (present_cell (heap (probes s) ! i))
      | _ \<Rightarrow> None)"

text \<open>The last line of the log of an answered request is its access line, with a duration.\<close>

definition lasting_world :: "'s cserver \<Rightarrow> nat \<Rightarrow> 's machine" where
  "lasting_world s t =
     (case jobs s t of
        Finished req resp rest \<Rightarrow> (world s)\<lparr>clock := 0, log := butlast (log (world s))\<rparr>
      | _ \<Rightarrow> (world s)\<lparr>clock := 0\<rparr>)"

definition solo_view :: "nat \<Rightarrow> 's fserver \<Rightarrow> job \<times> bool option option \<times> store_job \<times> 's machine" where
  "solo_view t f = (untimed (jobs (base f) t), asked (base f) t, uploads f t, lasting_world (base f) t)"

text \<open>The one step that a task can take.\<close>

fun own_action :: "nat \<Rightarrow> job \<times> bool option option \<times> store_job \<times> 's machine \<Rightarrow> full_action" where
  "own_action t (Active req t0 (Awaiting h), Some (Some v), up, m) = Plain (Cell_Hit t)"
| "own_action t (Active req t0 (Awaiting h), Some None, up, m) = Plain (Probe_Start t)"
| "own_action t (Active req t0 (Awaiting h), None, up, m) = Plain (Head_Effect t)"
| "own_action t (Active req t0 (Headed h r), q, up, m) = Plain (Probe_End t)"
| "own_action t (Active req t0 (Reading h), q, up, m) = Plain (Get_Effect t)"
| "own_action t (Active req t0 (Was_Read h r), q, up, m) = Plain (Get_End t)"
| "own_action t (Active req t0 (Checking h data), q, up, m) = Plain (Check_Effect t)"
| "own_action t (Active req t0 (Checked h data ex), q, up, m) = Plain (Check_End t)"
| "own_action t (Active req t0 (Writing h data), q, Not_Called, m) = Upload_Call t"
| "own_action t (Active req t0 (Writing h data), q, up, m) = Upload_Step t"
| "own_action t (Active req t0 (Written h w rest), q, up, m) = Plain (Put_End t)"
| "own_action t (Active req t0 (Draining r rest deadline), q, up, m) = Plain (Drain_End t)"
| "own_action t (j, q, up, m) = Plain (Hang_Up t)"

fun is_pass :: "full_action \<Rightarrow> bool" where
  "is_pass (Plain (Pass delay)) \<longleftrightarrow> True"
| "is_pass a \<longleftrightarrow> False"

fun is_active :: "job \<Rightarrow> bool" where
  "is_active (Active req t0 st) \<longleftrightarrow> True"
| "is_active j \<longleftrightarrow> False"

lemma asked_frame: "asked (s\<lparr>probes := (probes s)\<lparr>now := n\<rparr>\<rparr>) t = asked s t"
  by (simp add: asked_def split: job.split stage.split task.split)

lemma lasting_world_frame: "lasting_world (s\<lparr>probes := p\<rparr>) t = lasting_world s t"
  by (simp add: lasting_world_def split: job.split)

lemma pass_view:
  assumes "full_step d app c b f a f1" "is_pass a"
  shows "solo_view t f1 = solo_view t f"
proof -
  obtain delay where a: "a = Plain (Pass delay)" using assms(2) by (elim is_pass.elims) auto
  have "f1 = f\<lparr>base := (base f)\<lparr>probes := (probes (base f))\<lparr>now := now (probes (base f)) + delay\<rparr>\<rparr>\<rparr>"
    using assms(1) unfolding a by (cases rule: full_step.cases) (auto simp: server_step_simps)
  then show ?thesis by (simp add: solo_view_def asked_frame lasting_world_frame)
qed

lemma own_step_action:
  assumes "full_step d app c b f a f1" "full_own t a" "\<not> is_pass a"
  shows "a = own_action t (solo_view t f)" "is_active (jobs (base f) t)"
proof (atomize (full), use assms(1) in \<open>cases rule: full_step.cases\<close>)
  case (plain a' s)
  from plain(3) show "a = own_action t (solo_view t f) \<and> is_active (jobs (base f) t)"
    by (cases rule: server_step.cases) (use assms(2,3) plain(1,4) in \<open>auto simp: solo_view_def asked_def\<close>)
qed (use assms(2) in \<open>simp_all add: solo_view_def asked_def\<close>)

lemma own_step_others:
  assumes "full_step d app c b f a f1" "full_own t a" "u \<noteq> t"
  shows "jobs (base f1) u = jobs (base f) u"
  using assms(1)
proof (cases rule: full_step.cases)
  case (plain a' s)
  from plain(3) show ?thesis
    by (cases rule: server_step.cases) (use assms(2,3) plain(1,2) in \<open>auto simp: jobs_after\<close>)
qed (use assms(2,3) in \<open>auto simp: upload_to_def split: store_stage.split\<close>)

section \<open>The same step from the same view\<close>

lemma exists_clock:
  assumes "s3_exists c b h m = (r, m')"
  shows "\<exists>j. s3_exists c b h (m\<lparr>clock := k\<rparr>) = (r, m'\<lparr>clock := j\<rparr>)"
proof -
  obtain hr m1 where s: "send (HeadObject b h) (head_object c b h) m = (hr, m1)" by fastforce
  show ?thesis using send_clock [OF s, of k] s assms
    by (cases hr) (auto simp: s3_exists_def log_s3_error_def emit_clock_swap split: if_splits)
qed

lemma retrieve_clock:
  assumes "s3_retrieve c b h m = (r, m')"
  shows "\<exists>j. s3_retrieve c b h (m\<lparr>clock := k\<rparr>) = (r, m'\<lparr>clock := j\<rparr>)"
proof -
  obtain gr m1 where s: "send (GetObject b h) (get_object c b h) m = (gr, m1)" by fastforce
  show ?thesis using send_clock [OF s, of k] s assms
    by (cases gr) (auto simp: s3_retrieve_def log_s3_error_def emit_clock_swap split: if_splits)
qed

text \<open>The view of a request that is about to be answered, or that goes on.\<close>

lemma logged_clock: "logged r (m\<lparr>clock := k\<rparr>) = (logged r m)\<lparr>clock := k\<rparr>"
proof -
  have "error_log e (m\<lparr>clock := k\<rparr>) = (error_log e m)\<lparr>clock := k\<rparr>" for e
    by (cases e) (simp_all add: emit_def)
  then show ?thesis by (simp add: logged_def split: sum.split)
qed

lemma world_finish:
  "world (finish d t req t0 r rest s) =
     emit (access_event d req (response_of r) (now (probes s) - t0)) (logged r (machine_now s))"
  by (cases r) (simp_all add: finish_def saturating_duration_since_def)

lemma view_finish:
  "solo_view t (f\<lparr>base := finish d t req t0 r rest s\<rparr>) =
     (Finished req (closing (response_of r)) rest, None, uploads f t, logged r ((world s)\<lparr>clock := 0\<rparr>))"
proof -
  have "logged r (machine_now s)\<lparr>clock := 0\<rparr> = logged r ((world s)\<lparr>clock := 0\<rparr>)"
    unfolding machine_now_def logged_clock [symmetric] by simp
  then show ?thesis
    by (simp add: solo_view_def asked_def lasting_world_def jobs_after world_finish emit_def)
qed

lemma view_stage:
  "(\<nexists>h. st = Awaiting h) \<Longrightarrow> solo_view t (f\<lparr>base := set_stage t req t0 st s\<rparr>) =
     (untimed (Active req 0 st), None, uploads f t, (world s)\<lparr>clock := 0\<rparr>)"
  by (cases st) (simp_all add: solo_view_def asked_def lasting_world_def set_stage_def set_job_def)

lemma view_drain:
  "solo_view t (f\<lparr>base := start_drain t req t0 r body s\<rparr>) =
     (Active req 0 (Draining r (snd (drain_stream DRAIN_TIMEOUT body)) 0), None, uploads f t, (world s)\<lparr>clock := 0\<rparr>)"
  by (simp add: start_drain_def view_stage split: prod.split)

text \<open>What a handler does with a result shows the same in two states that show the same.\<close>

lemma view_after:
  assumes "(world s)\<lparr>clock := 0\<rparr> = (world s')\<lparr>clock := 0\<rparr>" "uploads f t = uploads g t"
  shows "solo_view t (f\<lparr>base := after_present d t req t0 h r s\<rparr>) = solo_view t (g\<lparr>base := after_present d t req t0' h r s'\<rparr>)"
    and "solo_view t (f\<lparr>base := after_retrieve d t req t0 r' s\<rparr>) = solo_view t (g\<lparr>base := after_retrieve d t req t0' r' s'\<rparr>)"
    and "solo_view t (f\<lparr>base := after_check t req t0 h data r s\<rparr>) = solo_view t (g\<lparr>base := after_check t req t0' h data r s'\<rparr>)"
    and "solo_view t (f\<lparr>base := after_store d t req t0 h w rest s\<rparr>) = solo_view t (g\<lparr>base := after_store d t req t0' h w rest s'\<rparr>)"
  using assms emit_clock_swap [where ev = "Store_Declined h e" and m = "world s" and k = 0 for e]
    emit_clock_swap [where ev = "Store_Declined h e" and m = "world s'" and k = 0 for e]
  by (simp_all add: after_present_def after_retrieve_def after_check_def after_store_def view_finish view_stage
      view_drain split: sum.split)

lemma untimed_Active:
  "untimed (Active req t0 st) = untimed (Active req' t0' st') \<Longrightarrow>
     req' = req \<and> (st' = st \<or> (\<exists>r rest i j. st = Draining r rest i \<and> st' = Draining r rest j))"
  by (cases st; cases st') simp_all

lemma same_step:
  assumes app: "storage app = s3_storage c b"
    and step: "full_step d app c b f a f1" "full_step d app c b g a g1"
    and own: "full_own t a" "\<not> is_pass a" and view: "solo_view t f = solo_view t g"
  shows "solo_view t f1 = solo_view t g1"
proof -
  have j: "untimed (jobs (base f) t) = untimed (jobs (base g) t)" and up: "uploads f t = uploads g t"
    and lw: "lasting_world (base f) t = lasting_world (base g) t" and q: "asked (base f) t = asked (base g) t"
    using view by (simp_all add: solo_view_def)
  have st: "st' = st \<and> req' = req \<or> (\<exists>r rest i j. st = Draining r rest i \<and> st' = Draining r rest j \<and> req' = req)"
    if "jobs (base f) t = Active req t0 st" "jobs (base g) t = Active req' t0' st'" for req t0 st req' t0' st'
    using untimed_Active [of req t0 st req' t0' st'] j that by auto
  have W: "(world (base f))\<lparr>clock := 0\<rparr> = (world (base g))\<lparr>clock := 0\<rparr>"
    using lw own_step_action(2) [OF step(1) own] own_step_action(2) [OF step(2) own]
    by (auto simp: lasting_world_def elim!: is_active.elims)
  then have "world (base g) = (world (base f))\<lparr>clock := clock (world (base g))\<rparr>" by (cases "world (base f)"; cases "world (base g)") simp
  then have "machine_now (base g) = (machine_now (base f))\<lparr>clock := now (probes (base g))\<rparr>"
    unfolding machine_now_def by (cases "world (base f)"; cases "world (base g)") simp
  then obtain k where mn: "machine_now (base g) = (machine_now (base f))\<lparr>clock := k\<rparr>" ..
  have drop: "drops a' ups = ups" if "a = Plain a'" for a' ups using own(1) that by (cases a') simp_all
  from step(1) show ?thesis
  proof (cases rule: full_step.cases)
    case (plain a' s)
    obtain s' where g1: "g1 = g\<lparr>base := s'\<rparr>" and step': "server_step d app (base g) a' s'"
      using step(2) drop unfolding plain(1) by (cases rule: full_step.cases) auto
    have f1: "f1 = f\<lparr>base := s\<rparr>" using plain(1,2) drop by simp
    note after = view_after [OF _ up]
    from plain(3) show ?thesis
    proof (cases rule: server_step.cases)
      case (cell_hit u req t0 h i e v)
      obtain req' t0' h' i' e' v' where g: "jobs (base g) t = Active req' t0' (Awaiting h')"
        "present_cell (heap (probes (base g)) ! i') = Some v'" "tasks (probes (base g)) t = Waiting h' i' e'"
        "s' = after_present d t req' t0' h' (Ok v') ((base g)\<lparr>probes :=
           set_task t (task.Answered h' e' (Ok v') (resolved_at (heap (probes (base g)) ! i'))) (probes (base g))\<rparr>)"
        using step' own cell_hit(1) plain(1) by (auto simp: server_step_simps)
      have u: "u = t" using own plain(1) cell_hit(1) by simp
      have "req' = req" "h' = h" using st [OF cell_hit(3) [unfolded u] g(1)] by auto
      moreover have "v' = v" using q g(1-3) cell_hit(3-5) u by (simp add: asked_def)
      ultimately show ?thesis unfolding f1 g1 cell_hit(2) g(4) u by (auto intro!: after(1) simp: W)
    next
      case (probe_start u req t0 h i e)
      then show ?thesis using step' own plain(1) j W up
        by (auto simp: f1 g1 server_step_simps solo_view_def asked_def lasting_world_def)
    next
      case (head_effect u req t0 h i e b' r m)
      then show ?thesis using step' own plain(1) j up app exists_clock [of c b h "machine_now (base f)" r m k]
        by (auto simp: f1 g1 server_step_simps view_stage s3_storage_def mn)
    next
      case (probe_end u req t0 h v i e b')
      then show ?thesis using step' own plain(1) j W by (auto simp: f1 g1 server_step_simps intro!: after(1))
    next
      case (probe_fail u req t0 h err i e b')
      then show ?thesis using step' own plain(1) j W by (auto simp: f1 g1 server_step_simps intro!: after(1))
    next
      case (get_effect u req t0 h r' m)
      then show ?thesis using step' own plain(1) j up app retrieve_clock [of c b h "machine_now (base f)" r' m k]
        by (auto simp: f1 g1 server_step_simps view_stage s3_storage_def mn)
    next
      case (get_end u req t0 h r')
      then show ?thesis using step' own plain(1) j W by (auto simp: f1 g1 server_step_simps intro!: after(2))
    next
      case (check_effect u req t0 h data r m)
      then show ?thesis using step' own plain(1) j up app exists_clock [of c b h "machine_now (base f)" r m k]
        by (auto simp: f1 g1 server_step_simps view_stage s3_storage_def mn)
    next
      case (check_end u req t0 h data r)
      then show ?thesis using step' own plain(1) j W by (auto simp: f1 g1 server_step_simps intro!: after(3))
    next
      case (put_end u req t0 h w rest)
      then show ?thesis using step' own plain(1) j W by (auto simp: f1 g1 server_step_simps intro!: after(4))
    next
      case (drain_end u req t0 res rest deadline)
      then show ?thesis using step' own plain(1) j W up by (auto simp: f1 g1 server_step_simps view_finish)
    qed (use own plain in auto)
  next
    case (upload_call u req t0 h data)
    obtain req' t0' h' data' where g1: "jobs (base g) t = Active req' t0' (Writing h' data')"
      "g1 = g\<lparr>uploads := (uploads g)(t := Running h' (d_reader_stream d data') (Filling (d_reader_stream d data')))\<rparr>"
      using step(2) own unfolding upload_call(1) by (cases rule: full_step.cases) auto
    have "u = t" using own upload_call(1) by simp
    then show ?thesis using upload_call(2,3) g1 st W by (fastforce simp: solo_view_def asked_def lasting_world_def)
  next
    case (upload_step u req t0 h data h' stream sg sg' m)
    obtain req' t0' hg datag hg' streamg sgg sgg' mg where g1: "jobs (base g) t = Active req' t0' (Writing hg datag)"
      "uploads g t = Running hg' streamg sgg" "store_advance c b hg' sgg (machine_now (base g)) = Some (sgg', mg)"
      "g1 = g\<lparr>base := upload_to t req' t0' hg' sgg' mg (base g), uploads := (uploads g)(t := Running hg' streamg sgg')\<rparr>"
      using step(2) own unfolding upload_step(1) by (cases rule: full_step.cases) auto
    have u: "u = t" using own upload_step(1) by simp
    obtain i where adv: "store_advance c b h' sg ((machine_now (base f))\<lparr>clock := k\<rparr>) = Some (sg', m\<lparr>clock := i\<rparr>)"
      using store_advance_clock [OF upload_step(5), of k] ..
    have same: "req' = req" "hg = h" "datag = data" "hg' = h'" "streamg = stream" "sgg' = sg'" "mg = m\<lparr>clock := i\<rparr>"
      using st [OF upload_step(3) [unfolded u] g1(1)] upload_step(4) g1(2,3) up u adv mn by auto
    show ?thesis
      using upload_step(2,3) g1(1,4) unfolding u same
      by (cases sg') (simp_all add: upload_to_def solo_view_def asked_def lasting_world_def)
  qed (use own in simp)
qed

section \<open>Runs of a request that is served alone\<close>

definition answered :: "nat \<Rightarrow> 's fserver \<Rightarrow> bool" where
  "answered t f \<longleftrightarrow> (\<exists>req resp rest. jobs (base f) t = Finished req resp rest)"

lemma answered_view: "solo_view t f = solo_view t g \<Longrightarrow> answered t f \<Longrightarrow> answered t g"
  by (cases "jobs (base f) t"; cases "untimed (jobs (base g) t)" rule: untimed.cases)
    (auto simp: solo_view_def answered_def elim!: untimed.elims)

lemma answered_inactive: "answered t f \<Longrightarrow> \<not> is_active (jobs (base f) t)"
  by (auto simp: answered_def)

text \<open>After its answer only time passes; before it, time passes until the task takes its next step.\<close>

lemma answered_run:
  "full_run d app c b f acts f' \<Longrightarrow> list_all (full_own t) acts \<Longrightarrow> answered t f \<Longrightarrow> solo_view t f' = solo_view t f"
proof (induction rule: full_run.induct)
  case (full_next f a f1 acts f2)
  then have "is_pass a" using own_step_action(2) answered_inactive by fastforce
  then have v: "solo_view t f1 = solo_view t f" using pass_view full_next(1) by blast
  then have "answered t f1" using answered_view [of t f f1] full_next.prems(2) by simp
  then show ?case using full_next.IH full_next.prems(1) v by simp
qed simp

lemma next_own_step:
  "full_run d app c b f acts f' \<Longrightarrow> list_all (full_own t) acts \<Longrightarrow> answered t f' \<Longrightarrow> \<not> answered t f \<Longrightarrow>
     \<exists>f0 a f1 acts'. solo_view t f0 = solo_view t f \<and> full_step d app c b f0 a f1 \<and> full_own t a \<and> \<not> is_pass a \<and>
       full_run d app c b f1 acts' f' \<and> list_all (full_own t) acts'"
proof (induction rule: full_run.induct)
  case (full_next f a f1 acts f2)
  show ?case
  proof (cases "is_pass a")
    case True
    then have v: "solo_view t f1 = solo_view t f" using pass_view full_next(1) by blast
    then have "\<not> answered t f1" using answered_view full_next(6) by blast
    then show ?thesis using full_next.IH full_next.prems v by simp
  next
    case False
    then show ?thesis using full_next(1,2) full_next.prems(1) by (intro exI [of _ f]) auto
  qed
qed simp

lemma solo_runs_agree:
  assumes "storage app = s3_storage c b"
  shows "full_run d app c b f acts f' \<Longrightarrow> list_all (full_own t) acts \<Longrightarrow> answered t f' \<Longrightarrow>
    full_run d app c b g acts' g' \<Longrightarrow> list_all (full_own t) acts' \<Longrightarrow> answered t g' \<Longrightarrow>
    solo_view t f = solo_view t g \<Longrightarrow> solo_view t f' = solo_view t g'"
proof (induction arbitrary: g acts' rule: full_run.induct)
  case (full_done f)
  then have "answered t g" using answered_view by blast
  then show ?case using answered_run full_done by metis
next
  case (full_next f a f1 acts f2)
  show ?case
  proof (cases "is_pass a")
    case True
    then show ?thesis using full_next pass_view [OF full_next(1)] by simp
  next
    case False
    have own: "full_own t a" using full_next.prems(1) by simp
    have "\<not> answered t g"
      using own_step_action(2) [OF full_next(1) own False] answered_inactive answered_view full_next.prems(6) by metis
    then obtain g0 a' g1 acts'' where g: "solo_view t g0 = solo_view t g" "full_step d app c b g0 a' g1"
      "full_own t a'" "\<not> is_pass a'" "full_run d app c b g1 acts'' g'" "list_all (full_own t) acts''"
      using next_own_step [OF full_next.prems(3,4,5)] by blast
    have "a' = a"
      using own_step_action(1) [OF full_next(1) own False] own_step_action(1) [OF g(2-4)] g(1) full_next.prems(6) by simp
    then have "solo_view t f1 = solo_view t g1"
      using same_step [OF assms full_next(1) g(2) [unfolded \<open>a' = a\<close>] own False] g(1) full_next.prems(6) by simp
    then show ?thesis using full_next.IH [OF _ full_next.prems(2) g(5,6) full_next.prems(5)] full_next.prems(1) by simp
  qed
qed

lemma own_run_others:
  "full_run d app c b f acts f' \<Longrightarrow> list_all (full_own t) acts \<Longrightarrow> u \<noteq> t \<Longrightarrow> jobs (base f') u = jobs (base f) u"
  by (induction rule: full_run.induct) (auto simp: own_step_others)

text \<open>The run in which time passes only as the calls and drains of the request take it.\<close>

lemma solo_run_exists:
  assumes "storage app = s3_storage c b" "cell_spec d" "full_basic f" "quiet (base f)" "jobs (base f) t = Unused"
    and "create_router d app req (seq (base f)) = Some (resp, rest, srv')"
  shows "\<exists>acts f'. full_run d app c b f (Plain (Arrive t req) # acts) f' \<and> list_all (full_own t) acts \<and>
    jobs (base f') = (jobs (base f))(t := Finished req resp rest) \<and> seq (base f') = srv'"
proof -
  have contract: "storage_contract (storage app)"
    unfolding assms(1) by (rule s3.storage_contract_axioms)
  have inv: "linked (base f) \<and> flight_inv (probes (base f))" using assms(3) by (simp add: full_basic_def)
  obtain acts s1 s' where arr: "server_step d app (base f) (Arrive t req) s1" and run: "server_run d app s1 acts s'"
    and own: "list_all (own_step t) acts"
    and s': "jobs s' = (jobs (base f))(t := Finished req resp rest)" "seq s' = srv'"
    using storage_contract.alone_run [OF contract refl assms(2) inv assms(4-6)] by auto
  let ?f1 = "f\<lparr>base := s1\<rparr>"
  have step: "full_step d app c b f (Plain (Arrive t req)) ?f1" using full_step.plain [OF arr] by simp
  have "fresh ?f1" using fresh_plain [OF quiet_fresh [OF assms(3,4)] arr] by simp
  then obtain facts f' where f': "full_run d app c b ?f1 facts f'" "alike s' (base f')" "list_all (full_own t) facts"
    using server_run_full [OF assms(1) run, of ?f1] own by auto
  have "seq (base f') = seq s'" using alikeD [OF f'(2)] by (simp add: seq_def)
  then show ?thesis using full_next [OF step f'(1)] f'(3) s' alikeD(1) [OF f'(2)] by metis
qed

end
