(* ===== verification/Upload_Properties.thy ===== *)
theory Upload_Properties
  imports Store_Refinement
begin

text \<open>
  The properties of interleaved uploads, with the service in memory as an instance, on which
  a multipart upload and a small one of the same key run beside each other.
\<close>

section \<open>Steps\<close>

text \<open>C16: the steps of an upload are \<open>S3Storage::store\<close>. Run alone from its first await, the
  stages reach a result exactly when \<open>store\<close> returns it, in the same final state, and they
  need at most four steps per chunk of the body and six more: a body that ends is stored
  or refused after a bounded number of requests.\<close>

theorem store_steps_are_store:
  "(s3_store c b h data m = Some (r, rest, m')) =
     (\<exists>n u. n \<le> 4 * size data + 6 \<and> store_steps c b h (Filling data) m n (Returned r rest u) m')"
proof -
  have "n \<le> 4 * size data + 6" if "store_steps c b h (Filling data) m n (Returned r rest u) m'" for n u
    using store_steps_bound [OF that] by simp
  then show ?thesis unfolding store_steps_eq by blast
qed

section \<open>The service in memory\<close>

definition memory_issued :: "bucket \<Rightarrow> string set" where
  "memory_issued s = {u. \<exists>n < next_upload s. u = replicate n (CHR ''u'')}"

lemma memory_separate: "uploads_separate memory_client b opened memory_issued"
  unfolding uploads_separate_def
proof (intro conjI)
  have new: "replicate n (CHR ''u'') \<noteq> replicate k (CHR ''u'')" if "k < n" for n k :: nat
    using that by (metis length_replicate less_irrefl)
  show "create_separate memory_client b opened memory_issued"
    using new by (auto simp: create_separate_def memory_client_def memory_issued_def Let_def less_Suc_eq)
  show "part_separate memory_client b opened memory_issued"
    by (auto simp: part_separate_def memory_client_def memory_upload_part_def memory_issued_def
        split: option.splits if_splits)
  show "close_separate memory_client b opened memory_issued"
    by (auto simp: close_separate_def memory_client_def memory_complete_def memory_issued_def
        split: option.splits if_splits)
  show "object_separate memory_client b opened memory_issued"
    by (auto simp: object_separate_def memory_client_def memory_issued_def split: option.splits if_splits)
qed

interpretation memory: s3_uploads memory_client b stored opened memory_issued for b
  by unfold_locales (rule memory_separate)

text \<open>A multipart upload of the key with another upload of it in between.\<close>

definition two_uploads :: "pool_action list" where
  "two_uploads =
     [Call 0 ''k'' (Chunk 3 full_part Done), Call 1 ''k'' (Chunk 1 [7, 8] Done), Advance 0, Advance 0,
      Advance 1, Advance 0, Advance 1, Advance 0, Advance 0, Delay 5]"

lemmas pool_eval = fill_part_def fill_loop_step fill_loop_full part_size_pos upload_turn_def upload_one_def
  complete_upload_def put_whole_def send_def memory_client_def memory_upload_part_def memory_complete_def
  started_def empty_bucket_def log_s3_error_def emit_def elapse_def Let_def pool_init_def set_store_def
  set_world_def listed_bytes_def two_uploads_def

lemma small_part: "2 < MULTIPART_PART_SIZE" "Suc (Suc 0) < MULTIPART_PART_SIZE"
  by (simp_all add: MULTIPART_PART_SIZE_def)

lemma two_uploads_run:
  "\<exists>p. pool_run memory_client ''b'' two_uploads (pool_init (started empty_bucket)) = Some p \<and>
     stores p 0 = Running ''k'' (Chunk 3 full_part Done) (Completing [] [(1, ''etag'')] Done) \<and>
     stores p 1 = Running ''k'' (Chunk 1 [7, 8] Done) (Returned (Ok ()) Done None) \<and>
     stored (backend (pool_world p)) ''k'' = Some [7, 8] \<and>
     opened (backend (pool_world p)) [] = Some (''k'', [1 \<mapsto> (full_part, ''etag'')])"
  by (simp add: pool_eval small_part)

section \<open>Properties\<close>

text \<open>Uploads are atomic. Every step of any number of interleaved calls of \<open>store\<close>, and of
  the reads beside them, is a step of the atomic specification: a call writes its object
  in one step, whole, when it is answered; one that fails wrote the whole object or
  nothing, and a client abort nothing; one that is dropped writes at most once more. No
  order of parts, completions and aborts mixes the bytes of two uploads.\<close>

theorem stores_refine_atomic:
  assumes "s3_documented c b objs ups" "s3_failures_documented c b objs ups" "uploads_separate c b ups issued"
    and "pool_reachable c b m p" "pool_exec c b a p = Some p'"
  shows "atomic_step (pool_abs objs p) (pool_abs objs p')"
proof -
  have S: "s3_uploads c b objs ups issued"
    using assms(1-3) by (simp add: s3_uploads_def s3_uploads_axioms_def s3_service_def)
  show ?thesis
    by (rule s3_uploads.pool_step_atomic [OF S s3_uploads.pool_reachable_inv [OF S assms(4)] assms(5)])
qed

lemma stores_refine_atomic_witness:
  "\<exists>p p'. pool_exec memory_client ''b'' (Advance 0) p = Some p' \<and>
     stored (backend (pool_world p)) ''k'' = Some [7, 8] \<and>
     stored (backend (pool_world p')) ''k'' = Some full_part \<and>
     atomic_step (pool_abs stored p) (pool_abs stored p')"
proof -
  obtain p where p: "pool_run memory_client ''b'' two_uploads (pool_init (started empty_bucket)) = Some p"
    "stores p 0 = Running ''k'' (Chunk 3 full_part Done) (Completing [] [(1, ''etag'')] Done)"
    "stored (backend (pool_world p)) ''k'' = Some [7, 8]"
    "opened (backend (pool_world p)) [] = Some (''k'', [1 \<mapsto> (full_part, ''etag'')])"
    using two_uploads_run by blast
  have reach: "pool_reachable memory_client ''b'' (started empty_bucket) p"
    using pool_run_reachable [OF pool_start p(1)] .
  obtain p' where p': "pool_exec memory_client ''b'' (Advance 0) p = Some p'"
    "stored (backend (pool_world p')) ''k'' = Some full_part"
    using p(2,4) by (simp add: complete_upload_def send_def memory_client_def memory_complete_def listed_bytes_def)
  then show ?thesis
    using p(3) stores_refine_atomic [OF memory_documented memory_failures_documented memory_separate reach p'(1)]
    by blast
qed

text \<open>C9: a read never sees part of an upload. Whatever uploads are under way, were answered or
  dropped, a read that ends returns the whole body of one upload of its key, or the
  object that was there before when no upload of the key has been acknowledged.\<close>

theorem reads_see_whole_uploads:
  assumes "s3_documented c b objs ups" "s3_failures_documented c b objs ups" "uploads_separate c b ups issued"
    and "pool_reachable c b m p" "s3_retrieve c b h (pool_world p) = (Ok stream, m')" "complete stream"
  shows "written (\<lambda>t. job_status (stores p t)) h (body_bytes stream) \<or>
    objs (backend m) h = Some (body_bytes stream) \<and> \<not> acknowledged (\<lambda>t. job_status (stores p t)) h"
proof -
  have S: "s3_uploads c b objs ups issued"
    using assms(1-3) by (simp add: s3_uploads_def s3_uploads_axioms_def s3_service_def)
  have "objs (backend (pool_world p)) h = Some (body_bytes stream)"
    using s3_retrieve_objects [OF assms(1,5)] assms(6) by auto
  then show ?thesis
    using s3_uploads.pool_whole [OF S assms(4)] by (simp add: whole_objects_def pool_abs_def)
qed

lemma reads_see_whole_uploads_witness:
  "\<exists>(p :: bucket pool) m'. s3_retrieve memory_client ''b'' ''k'' (pool_world p) = (Ok (Chunk 0 [7, 8] Done), m') \<and>
     opened (backend (pool_world p)) [] \<noteq> None \<and>
     (written (\<lambda>t. job_status (stores p t)) ''k'' (body_bytes (Chunk 0 [7, 8] Done)) \<or>
      stored (backend (started empty_bucket)) ''k'' = Some (body_bytes (Chunk 0 [7, 8] Done)) \<and>
      \<not> acknowledged (\<lambda>t. job_status (stores p t)) ''k'')"
proof -
  obtain p where p: "pool_run memory_client ''b'' two_uploads (pool_init (started empty_bucket)) = Some p"
    "stored (backend (pool_world p)) ''k'' = Some [7, 8]" "opened (backend (pool_world p)) [] \<noteq> None"
    using two_uploads_run by (metis option.distinct(1))
  have reach: "pool_reachable memory_client ''b'' (started empty_bucket) p"
    using pool_run_reachable [OF pool_start p(1)] .
  obtain m' where r: "s3_retrieve memory_client ''b'' ''k'' (pool_world p) = (Ok (Chunk 0 [7, 8] Done), m')"
    using p(2) by (simp add: s3_retrieve_def send_def memory_client_def)
  have ended: "complete (Chunk 0 [7, 8] Done)" by simp
  show ?thesis
    using p(3) r reads_see_whole_uploads [OF memory_documented memory_failures_documented memory_separate reach r ended]
    by blast
qed

text \<open>Every upload is accounted for. When a call of \<open>store\<close> that opened a multipart upload has
  returned, the upload is closed, completed or aborted, or the log has the error line of
  the completion or the abort that failed, with the key.\<close>

theorem uploads_accounted:
  assumes "s3_documented c b objs ups" "s3_failures_documented c b objs ups" "uploads_separate c b ups issued"
    and "pool_reachable c b m p" "stores p t = Running h data (Returned r rest (Some u))"
  shows "ups (backend (pool_world p)) u = None \<or>
    (\<exists>e. S3_Failed ''multipart-abort'' h e \<in> set (log (pool_world p)) \<or>
         S3_Failed ''multipart-complete'' h e \<in> set (log (pool_world p)))"
proof -
  have S: "s3_uploads c b objs ups issued"
    using assms(1-3) by (simp add: s3_uploads_def s3_uploads_axioms_def s3_service_def)
  have "job_holds (ups (backend (pool_world p))) (log (pool_world p)) (stores p t)"
    using s3_uploads.pool_reachable_inv [OF S assms(4)] by (simp add: pool_inv_def)
  then show ?thesis using assms(5) by simp
qed

definition broken_upload :: "pool_action list" where
  "broken_upload =
     [Call 0 ''k'' (Chunk 3 full_part (Broken 1)), Advance 0, Advance 0, Advance 0, Advance 0, Advance 0]"

lemma broken_upload_run:
  "\<exists>p. pool_run memory_client ''b'' broken_upload (pool_init (started empty_bucket)) = Some p \<and>
     stores p 0 = Running ''k'' (Chunk 3 full_part (Broken 1)) (Returned (Err ClientAbort) Done (Some []))"
  by (simp add: pool_eval small_part broken_upload_def abort_upload_def)

lemma uploads_accounted_witness:
  "\<exists>p :: bucket pool. stores p 0 = Running ''k'' (Chunk 3 full_part (Broken 1)) (Returned (Err ClientAbort) Done (Some [])) \<and>
     (opened (backend (pool_world p)) [] = None \<or>
      (\<exists>e. S3_Failed ''multipart-abort'' ''k'' e \<in> set (log (pool_world p)) \<or>
           S3_Failed ''multipart-complete'' ''k'' e \<in> set (log (pool_world p))))"
proof -
  obtain p where p: "pool_run memory_client ''b'' broken_upload (pool_init (started empty_bucket)) = Some p"
    "stores p 0 = Running ''k'' (Chunk 3 full_part (Broken 1)) (Returned (Err ClientAbort) Done (Some []))"
    using broken_upload_run by blast
  have reach: "pool_reachable memory_client ''b'' (started empty_bucket) p"
    using pool_run_reachable [OF pool_start p(1)] .
  show ?thesis
    using p(2) uploads_accounted [OF memory_documented memory_failures_documented memory_separate reach p(2)] by blast
qed

text \<open>A call dropped inside a multipart upload leaves it open: nothing closes it any more.\<close>

lemma dropped_upload_stays_open:
  "\<exists>p. pool_run memory_client ''b''
       [Call 0 ''k'' (Chunk 3 full_part Done), Advance 0, Advance 0, Drop_Store 0]
       (pool_init (started empty_bucket)) = Some p \<and>
     opened (backend (pool_world p)) [] = Some (''k'', Map.empty) \<and> log (pool_world p) = []"
  by (simp add: pool_eval small_part)

end
