(* ===== verification/Full_Properties.thy ===== *)
theory Full_Properties
  imports Full_Solo Server_Concurrency Upload_Properties
begin

text \<open>
  The properties of the whole server with interleaved uploads, and the runs on which they
  are evaluated.
\<close>

text \<open>C4: a write that was acknowledged is seen, under every interleaving of requests and uploads.
  Over S3, once a PUT of a key has been answered 200 or 409, every GET of it that arrives
  afterwards, at any later time and whatever else is under way (probes that saw the key
  absent, racing multipart uploads, clients that hang up, requests to S3 that arrive late),
  is answered 200, unless S3 has failed a request for the key since, which the log shows.\<close>

theorem full_acknowledged_write_is_read:
  assumes "s3_documented c b objs ups" "s3_failures_documented c b objs ups" "uploads_separate c b ups issued"
    and "storage app = s3_storage c b" "axum_response_spec d" "reader_stream_spec d"
    and "full_reachable d app c b m f"
    and "jobs (base f) t = Finished put resp rest" "put_request d app put h"
    and "status resp = HTTP_OK \<or> status resp = CONFLICT"
    and "get_request d app get h"
    and "full_run d app c b f (Plain (Arrive u get) # acts) f'" "jobs (base f') u = Finished get' resp' rest'"
  shows "status resp' = HTTP_OK \<or>
    (\<exists>operation err.
       S3_Failed operation h err \<in> set (drop (length (log (world (base f)))) (log (world (base f')))))"
proof -
  have S: "s3_uploads c b objs ups issued"
    using assms(1-3) by (simp add: s3_uploads_def s3_uploads_axioms_def s3_service_def)
  let ?s = "arrive d app u get (base f)"
  obtain f1 where step: "full_step d app c b f (Plain (Arrive u get)) f1" and run: "full_run d app c b f1 acts f'"
    using assms(12) by auto
  have f1: "base f1 = ?s"
    using step by (cases rule: full_step.cases) (auto simp: server_step_simps)
  note inv = full_invD(1) [OF s3_uploads.full_reachable_inv [OF S assms(4-7)]]
  note inv1 = s3_uploads.full_step_member [OF S assms(4,5) inv step]
  have vis: "visible objs h (base f)"
    using acknowledged_okD(1) [OF member_invD(6) [OF inv] assms(8)] assms(9,10) by simp
  have "reading s3_failure (length (log (world (base f)))) h u (base f1)"
    unfolding f1 using assms(11) vis member_invD(2) [OF inv] by (rule arrive_reading)
  moreover have "objs (backend (world (base f1))) h \<noteq> None" using vis f1 by (simp add: visible_def)
  ultimately have "reading s3_failure (length (log (world (base f)))) h u (base f')"
    using s3_uploads.full_run_reading [OF S assms(4,5) run inv1] by blast
  then show ?thesis using assms(13) by (auto simp: reading_def failed_since_def s3_failure_def)
qed

text \<open>C6: where served bytes come from, under every interleaving of requests and uploads. Over S3,
  an object in the bucket has the content it had when the server started or is the whole
  body of one PUT of its key that arrived with the service token, never a mixture or a part
  of it; and an artifact that a GET is served is such a content of its key, or the
  beginning of one when the stream broke off.\<close>

theorem full_objects_and_artifacts_sourced:
  assumes "s3_documented c b objs ups" "s3_failures_documented c b objs ups" "uploads_separate c b ups issued"
    and "storage app = s3_storage c b" "axum_response_spec d" "reader_stream_spec d"
    and "full_reachable d app c b m f"
  shows "(\<forall>h bs. objs (backend (world (base f))) h = Some bs \<longrightarrow>
      may_hold d app (objs (backend m)) (base f) h bs) \<and>
    (\<forall>t get resp rest stream. jobs (base f) t = Finished get resp rest \<longrightarrow> status resp = HTTP_OK \<longrightarrow>
       resp_body resp = Artifact stream \<longrightarrow>
       (\<exists>h. get_request d app get h \<and> may_serve d app (objs (backend m)) (base f) h stream))"
proof -
  have S: "s3_uploads c b objs ups issued"
    using assms(1-3) by (simp add: s3_uploads_def s3_uploads_axioms_def s3_service_def)
  have "sourced objs d app (objs (backend m)) (base f)"
    by (rule full_invD(2) [OF s3_uploads.full_reachable_inv [OF S assms(4-7)]])
  then show ?thesis unfolding sourced_def by (metis job_serves.simps(2))
qed

text \<open>C8: uploads are atomic. Every step of the server (of a handler, of the cache, of the self-probe
  or of one of any number of uploads that go through \<open>store\<close> request by request) is, for the
  bucket and the uploads, a step of the atomic specification: an upload writes its object in
  one step, whole, when \<open>store\<close> returns; one that fails wrote the whole object or nothing,
  and a client abort nothing; one whose client hung up writes at most once more. No order of
  parts, completions and aborts mixes the bytes of two uploads.\<close>

theorem server_uploads_atomic:
  assumes "s3_documented c b objs ups" "s3_failures_documented c b objs ups" "uploads_separate c b ups issued"
    and "storage app = s3_storage c b" "axum_response_spec d" "reader_stream_spec d"
    and "full_reachable d app c b m f" "full_step d app c b f a f'"
  shows "atomic_step (pool_abs objs (upload_pool f)) (pool_abs objs (upload_pool f'))"
proof -
  have S: "s3_uploads c b objs ups issued"
    using assms(1-3) by (simp add: s3_uploads_def s3_uploads_axioms_def s3_service_def)
  note inv = full_invD(1) [OF s3_uploads.full_reachable_inv [OF S assms(4-7)]]
  show ?thesis by (rule s3_uploads.full_step_atomic [OF S assms(4) member_invD(4) [OF inv] assms(8)])
qed

text \<open>C15: every upload of the server is accounted for. When the \<open>store\<close> of a PUT that opened a
  multipart upload has returned, the upload is closed, completed or aborted, or the log has
  the error line of the completion or the abort that failed, with the key; and an upload
  was only ever opened for a PUT with the service token, under its key.\<close>

theorem full_uploads_accounted:
  assumes "s3_documented c b objs ups" "s3_failures_documented c b objs ups" "uploads_separate c b ups issued"
    and "storage app = s3_storage c b" "axum_response_spec d" "reader_stream_spec d"
    and "full_reachable d app c b m f"
    and "uploads f t = Running h stream (Returned r rest (Some u))"
  shows "(ups (backend (world (base f))) u = None \<or>
      (\<exists>e. S3_Failed ''multipart-abort'' h e \<in> set (log (world (base f))) \<or>
           S3_Failed ''multipart-complete'' h e \<in> set (log (world (base f))))) \<and>
    (\<exists>put. job_request (jobs (base f) t) = Some put \<and> put_request d app put h)"
proof -
  have S: "s3_uploads c b objs ups issued"
    using assms(1-3) by (simp add: s3_uploads_def s3_uploads_axioms_def s3_service_def)
  note inv = full_invD(1) [OF s3_uploads.full_reachable_inv [OF S assms(4-7)]]
  have "job_holds (ups (backend (world (base f)))) (log (world (base f))) (uploads f t)"
    using member_invD(4) [OF inv] by (simp add: pool_inv_def)
  moreover have "store_call (uploads f t) = Some (h, stream)" using assms(8) by simp
  then have "\<exists>put. job_request (jobs (base f) t) = Some put \<and> put_request d app put h"
    using authorisedD [OF member_invD(5) [OF inv]] by metis
  ultimately show ?thesis using assms(8) by simp
qed

text \<open>C18: the models of the server agree. Take any state in which no request is under way, and a
  request that the sequential router answers in it. Every run of the whole server in which
  that request arrives, only its own steps are taken (its upload request by request) and time
  passes in any way, and which answers it, gives it exactly the response that the router
  computes, leaves the same rest of its body unread, has sent S3 the same requests, leaves
  the bucket in the same state and the same log but for the duration in the access line, and
  leaves the other requests as they were. There is such a run, one in which time passes only
  as its calls and drains take it, and it leaves exactly the cache, log and world that the
  router computes.\<close>

theorem full_equals_sequential:
  assumes "storage app = s3_storage c b" "cell_spec d"
    and "full_reachable d app c b m f" "quiet (base f)" "jobs (base f) t = Unused"
    and "create_router d app req (seq (base f)) = Some (resp, rest, srv')"
  shows "(\<forall>acts f' req' resp' rest'.
      full_run d app c b f (Plain (Arrive t req) # acts) f' \<longrightarrow> list_all (full_own t) acts \<longrightarrow>
      jobs (base f') t = Finished req' resp' rest' \<longrightarrow>
      jobs (base f') = (jobs (base f))(t := Finished req resp rest) \<and>
      calls (world (base f')) = calls (machine srv') \<and> backend (world (base f')) = backend (machine srv') \<and>
      butlast (log (world (base f'))) = butlast (log (machine srv'))) \<and>
    (\<exists>acts f'. full_run d app c b f (Plain (Arrive t req) # acts) f' \<and> list_all (full_own t) acts \<and>
      jobs (base f') = (jobs (base f))(t := Finished req resp rest) \<and> seq (base f') = srv')"
proof
  obtain acts0 f0 where solo: "full_run d app c b f (Plain (Arrive t req) # acts0) f0" "list_all (full_own t) acts0"
    "jobs (base f0) = (jobs (base f))(t := Finished req resp rest)" "seq (base f0) = srv'"
    using solo_run_exists [OF assms(1,2) full_reachable_basic [OF assms(3)] assms(4-6)] by blast
  then show "\<exists>acts f'. full_run d app c b f (Plain (Arrive t req) # acts) f' \<and> list_all (full_own t) acts \<and>
      jobs (base f') = (jobs (base f))(t := Finished req resp rest) \<and> seq (base f') = srv'"
    by blast
  have "jobs (base f') = (jobs (base f))(t := Finished req resp rest) \<and>
      calls (world (base f')) = calls (machine srv') \<and> backend (world (base f')) = backend (machine srv') \<and>
      butlast (log (world (base f'))) = butlast (log (machine srv'))"
    if run: "full_run d app c b f (Plain (Arrive t req) # acts) f'" "list_all (full_own t) acts"
      and fin: "jobs (base f') t = Finished req' resp' rest'" for acts f' req' resp' rest'
  proof -
    obtain g where g: "full_step d app c b f (Plain (Arrive t req)) g" "full_run d app c b g acts f'"
      using run(1) by auto
    have g0: "full_run d app c b g acts0 f0"
      using solo(1) full_exec_complete [OF g(1)] by (auto dest: full_exec_complete)
    have "solo_view t f' = solo_view t f0"
      by (rule solo_runs_agree [OF assms(1) g(2) run(2) _ g0 solo(2)]) (simp_all add: answered_def fin solo(3))
    then have same: "jobs (base f') t = Finished req resp rest"
      "(world (base f'))\<lparr>clock := 0, log := butlast (log (world (base f')))\<rparr> =
         (world (base f0))\<lparr>clock := 0, log := butlast (log (world (base f0)))\<rparr>"
      using fin solo(3) by (simp_all add: solo_view_def lasting_world_def)
    have "jobs (base f') u = jobs (base f0) u" if "u \<noteq> t" for u
      using own_run_others [OF g(2) run(2) that] own_run_others [OF g0 solo(2) that] by simp
    then have "jobs (base f') = jobs (base f0)" using same(1) solo(3) by (metis ext fun_upd_same)
    moreover have "machine srv' = machine_now (base f0)" using solo(4) by (auto simp: seq_def)
    ultimately show ?thesis using solo(3) same(2) by (cases "world (base f')"; cases "world (base f0)") (simp add: machine_now_def)
  qed
  then show "\<forall>acts f' req' resp' rest'.
      full_run d app c b f (Plain (Arrive t req) # acts) f' \<longrightarrow> list_all (full_own t) acts \<longrightarrow>
      jobs (base f') t = Finished req' resp' rest' \<longrightarrow>
      jobs (base f') = (jobs (base f))(t := Finished req resp rest) \<and>
      calls (world (base f')) = calls (machine srv') \<and> backend (world (base f')) = backend (machine srv') \<and>
      butlast (log (world (base f'))) = butlast (log (machine srv'))"
    by blast
qed

text \<open>A session that the sequential router serves is one that the whole server can serve.\<close>

theorem full_serves_session:
  assumes "storage app = s3_storage c b" "cell_spec d"
    and "full_reachable d app c b m f" "quiet (base f)"
    and "\<And>i. n \<le> i \<Longrightarrow> i < n + length reqs \<Longrightarrow> jobs (base f) i = Unused"
    and "serve d app reqs (seq (base f)) = Some (resps, srv')"
  shows "\<exists>acts f'. full_run d app c b f acts f' \<and> seq (base f') = srv' \<and> length resps = length reqs \<and>
    (\<forall>u. u < n \<or> n + length reqs \<le> u \<longrightarrow> jobs (base f') u = jobs (base f) u) \<and>
    (\<forall>i < length reqs. \<exists>rest. jobs (base f') (n + i) = Finished (reqs ! i) (resps ! i) rest)"
proof -
  have contract: "storage_contract (storage app)"
    unfolding assms(1) by (rule s3.storage_contract_axioms)
  note basic = full_reachable_basic [OF assms(3)]
  obtain acts s' where s': "server_run d app (base f) acts s'" "seq s' = srv'" "length resps = length reqs"
    "\<forall>u. u < n \<or> n + length reqs \<le> u \<longrightarrow> jobs s' u = jobs (base f) u"
    "\<forall>i < length reqs. \<exists>rest. jobs s' (n + i) = Finished (reqs ! i) (resps ! i) rest"
    using storage_contract.session_run [OF contract refl assms(2) _ assms(4-6)] basic
    unfolding full_basic_def by blast
  obtain facts f' where f': "full_run d app c b f facts f'" "alike s' (base f')"
    using server_run_full [OF assms(1) s'(1) alike_refl quiet_fresh [OF basic assms(4)]] by blast
  have "seq (base f') = seq s'" using alikeD [OF f'(2)] by (simp add: seq_def)
  then show ?thesis using f'(1) s' alikeD(1) [OF f'(2)] by metis
qed

section \<open>Witnesses\<close>

text \<open>The racing schedule of \<open>Server_Concurrency\<close> with its upload in steps.\<close>

definition full_racing :: "full_action list" where
  "full_racing =
     [Plain (Arrive 2 ro_get), Plain (Probe_Start 2), Plain (Head_Effect 2), Plain (Arrive 0 small_put),
      Plain (Check_Effect 0), Plain (Check_End 0), Upload_Call 0, Upload_Step 0, Upload_Step 0, Plain (Put_End 0)]"

definition full_late :: "full_action list" where
  "full_late =
     [Plain (Arrive 1 ro_get), Plain (Probe_End 2), Plain (Cell_Hit 1), Plain (Get_Effect 1), Plain (Get_End 1)]"

lemma small_put_filled:
  "fill_part (req_body small_put) MULTIPART_PART_SIZE h 0 m =
     Some (Ok ([7, 8, 9], True), Done, 3, elapse 2 (elapse 1 m))"
  by (simp add: small_put_def fill_part_def fill_loop.simps MULTIPART_PART_SIZE_def)

lemma memory_put_whole:
  "put_whole memory_client ''b'' h bs m =
     (Ok (), m\<lparr>calls := calls m @ [PutObject ''b'' h bs],
       backend := (backend m)\<lparr>stored := (stored (backend m))(h \<mapsto> bs)\<rparr>\<rparr>)"
  by (simp add: put_whole_def send_def memory_client_def)

lemma full_runs:
  "\<exists>f f' resp1 resp2 rest1 rest2.
     full_exec_all reference_deps memory_app memory_client ''b'' full_racing (fserver_init (started empty_bucket)) = Some f \<and>
     jobs (base f) 0 = Finished small_put (closing (text_response HTTP_OK '''')) Done \<and>
     full_exec_all reference_deps memory_app memory_client ''b'' full_late f = Some f' \<and>
     jobs (base f') 1 = Finished ro_get resp1 rest1 \<and> status resp1 = HTTP_OK \<and>
     resp_body resp1 = Artifact (Chunk 0 [7, 8, 9] Done) \<and>
     jobs (base f') 2 = Finished ro_get resp2 rest2 \<and> status resp2 = NOT_FOUND"
  by (simp add: full_racing_def full_late_def fserver_init_def schedule_eval upload_to_def small_put_filled
      memory_put_whole elapse_def)

lemma full_demo_reachable:
  "full_exec_all reference_deps memory_app memory_client ''b'' acts (fserver_init (started empty_bucket)) = Some f \<Longrightarrow>
     full_reachable reference_deps memory_app memory_client ''b'' (started empty_bucket) f"
  unfolding full_reachable_def using full_exec_all_sound by blast

lemma full_acknowledged_write_is_read_witness:
  "\<exists>f f' resp rest.
     full_run reference_deps memory_app memory_client ''b'' f full_late f' \<and>
     jobs (base f) 0 = Finished small_put (closing (text_response HTTP_OK '''')) Done \<and>
     jobs (base f') 1 = Finished ro_get resp rest \<and>
     (status resp = HTTP_OK \<or> (\<exists>operation err.
        S3_Failed operation VALID_HASH err \<in> set (drop (length (log (world (base f)))) (log (world (base f'))))))"
proof -
  obtain f f' resp1 rest1 where
    r: "full_exec_all reference_deps memory_app memory_client ''b'' full_racing (fserver_init (started empty_bucket)) = Some f"
      "jobs (base f) 0 = Finished small_put (closing (text_response HTTP_OK '''')) Done"
      "full_exec_all reference_deps memory_app memory_client ''b'' full_late f = Some f'"
      "jobs (base f') 1 = Finished ro_get resp1 rest1"
    using full_runs by blast
  have run: "full_run reference_deps memory_app memory_client ''b'' f full_late f'"
    by (rule full_exec_all_sound [OF r(3)])
  have "status (closing (text_response HTTP_OK '''')) = HTTP_OK" by (simp add: text_response_def)
  then show ?thesis
    using full_acknowledged_write_is_read [OF memory_documented memory_failures_documented memory_separate
        memory_app_storage reference_deps_specs(3,4) full_demo_reachable [OF r(1)] r(2) small_put_request disjI1
        ro_get_request run [unfolded full_late_def] r(4)] r(2,4) run
    by blast
qed

lemma full_objects_and_artifacts_sourced_witness:
  "\<exists>(f :: bucket fserver) resp rest. jobs (base f) 1 = Finished ro_get resp rest \<and>
     may_serve reference_deps memory_app (stored empty_bucket) (base f) VALID_HASH (Chunk 0 [7, 8, 9] Done)"
proof -
  obtain f f' resp1 rest1 where
    r: "full_exec_all reference_deps memory_app memory_client ''b'' full_racing (fserver_init (started empty_bucket)) = Some f"
      "full_exec_all reference_deps memory_app memory_client ''b'' full_late f = Some f'"
      "jobs (base f') 1 = Finished ro_get resp1 rest1" "status resp1 = HTTP_OK"
      "resp_body resp1 = Artifact (Chunk 0 [7, 8, 9] Done)"
    using full_runs by blast
  have reach: "full_reachable reference_deps memory_app memory_client ''b'' (started empty_bucket) f'"
    using full_demo_reachable [OF r(1)] full_exec_all_sound [OF r(2)] by (rule full_reachable_run)
  from full_objects_and_artifacts_sourced [OF memory_documented memory_failures_documented memory_separate
      memory_app_storage reference_deps_specs(3,4) reach] r(3-5)
  obtain h where "get_request reference_deps memory_app ro_get h"
    "may_serve reference_deps memory_app (stored (backend (started empty_bucket))) (base f') h (Chunk 0 [7, 8, 9] Done)"
    by blast
  moreover from this have "h = VALID_HASH" using ro_get_request by (simp add: get_request_def)
  moreover have "backend (started empty_bucket) = empty_bucket" by (simp add: started_def)
  ultimately show ?thesis using r(3) by auto
qed

text \<open>A PUT whose body fills a part, up to the completion of its upload.\<close>

definition big_put :: request where
  "big_put = rw_put\<lparr>req_body := Chunk 3 full_part Done\<rparr>"

lemma big_put_request: "put_request reference_deps memory_app big_put VALID_HASH"
  using small_put_request by (simp add: put_request_def cache_request_def big_put_def small_put_def may_write_def
      bearer_token_def)

definition big_upload :: "full_action list" where
  "big_upload =
     [Plain (Arrive 0 big_put), Plain (Check_Effect 0), Plain (Check_End 0), Upload_Call 0, Upload_Step 0,
      Upload_Step 0, Upload_Step 0, Upload_Step 0, Upload_Step 0]"

lemma big_upload_run:
  "\<exists>f f'. full_exec_all reference_deps memory_app memory_client ''b'' big_upload (fserver_init (started empty_bucket)) = Some f \<and>
     stored (backend (world (base f))) VALID_HASH = None \<and>
     full_exec reference_deps memory_app memory_client ''b'' (Upload_Step 0) f = Some f' \<and>
     stored (backend (world (base f'))) VALID_HASH = Some full_part \<and>
     uploads f' 0 = Running VALID_HASH (Chunk 3 full_part Done) (Returned (Ok ()) Done (Some []))"
proof -
  have body: "req_body big_put = Chunk 3 full_part Done" by (simp add: big_put_def)
  show ?thesis
    by (simp add: big_upload_def fserver_init_def schedule_eval arrive_put [OF big_put_request] body upload_to_def
        fill_part_def fill_loop_step fill_loop_full part_size_pos upload_turn_def upload_one_def complete_upload_def
        send_def memory_client_def memory_upload_part_def memory_complete_def listed_bytes_def elapse_def Let_def)
qed

lemma server_uploads_atomic_witness:
  "\<exists>(f :: bucket fserver) (f' :: bucket fserver). stored (backend (world (base f))) VALID_HASH = None \<and>
     stored (backend (world (base f'))) VALID_HASH = Some full_part \<and>
     atomic_step (pool_abs stored (upload_pool f)) (pool_abs stored (upload_pool f'))"
proof -
  obtain f f' where
    r: "full_exec_all reference_deps memory_app memory_client ''b'' big_upload (fserver_init (started empty_bucket)) = Some f"
      "stored (backend (world (base f))) VALID_HASH = None"
      "full_exec reference_deps memory_app memory_client ''b'' (Upload_Step 0) f = Some f'"
      "stored (backend (world (base f'))) VALID_HASH = Some full_part"
    using big_upload_run by blast
  show ?thesis
    using server_uploads_atomic [OF memory_documented memory_failures_documented memory_separate memory_app_storage
        reference_deps_specs(3,4) full_demo_reachable [OF r(1)] full_exec_sound [OF r(3)]] r(2,4) by blast
qed

lemma full_uploads_accounted_witness:
  "\<exists>f :: bucket fserver. uploads f 0 = Running VALID_HASH (Chunk 3 full_part Done) (Returned (Ok ()) Done (Some [])) \<and>
     (opened (backend (world (base f))) [] = None \<or>
      (\<exists>e. S3_Failed ''multipart-abort'' VALID_HASH e \<in> set (log (world (base f))) \<or>
           S3_Failed ''multipart-complete'' VALID_HASH e \<in> set (log (world (base f)))))"
proof -
  obtain f f' where
    r: "full_exec_all reference_deps memory_app memory_client ''b'' big_upload (fserver_init (started empty_bucket)) = Some f"
      "full_exec reference_deps memory_app memory_client ''b'' (Upload_Step 0) f = Some f'"
      "uploads f' 0 = Running VALID_HASH (Chunk 3 full_part Done) (Returned (Ok ()) Done (Some []))"
    using big_upload_run by blast
  have step: "full_run reference_deps memory_app memory_client ''b'' f [Upload_Step 0] f'"
    using full_exec_sound [OF r(2)] by simp
  have reach: "full_reachable reference_deps memory_app memory_client ''b'' (started empty_bucket) f'"
    using full_demo_reachable [OF r(1)] step by (rule full_reachable_run)
  show ?thesis
    using full_uploads_accounted [OF memory_documented memory_failures_documented memory_separate memory_app_storage
        reference_deps_specs(3,4) reach r(3)] r(3) by blast
qed

text \<open>A GET of an absent key on a fresh server, with a second before its probe and a minute after it.\<close>

definition slow_get :: "full_action list" where
  "slow_get = [Plain (Probe_Start 1), Plain (Pass (from_secs 1)), Plain (Head_Effect 1),
     Plain (Pass (from_secs 60)), Plain (Probe_End 1)]"

lemma full_equals_sequential_witness:
  "\<exists>resp rest srv' (f' :: bucket fserver).
     create_router reference_deps memory_app ro_get (seq demo_start) = Some (resp, rest, srv') \<and>
     full_run reference_deps memory_app memory_client ''b'' (fserver_init (started empty_bucket))
       (Plain (Arrive 1 ro_get) # slow_get) f' \<and>
     jobs (base f') 1 = Finished ro_get resp rest \<and> calls (world (base f')) = calls (machine srv')"
proof -
  let ?f = "fserver_init (started empty_bucket)"
  have c: "storage_contract (storage memory_app)"
    unfolding memory_app_storage by (rule s3.storage_contract_axioms)
  have "terminates (req_body ro_get)" by (simp add: ro_get_def case_request_def case_eval carries_body_def)
  then obtain resp rest srv' where
    r: "create_router reference_deps memory_app ro_get (seq demo_start) = Some (resp, rest, srv')"
    using storage_contract.create_router_returns [OF c refl reference_deps_specs(4)] by blast
  have base: "base ?f = demo_start" by (simp add: fserver_init_def)
  have reach: "full_reachable reference_deps memory_app memory_client ''b'' (started empty_bucket) ?f"
    by (rule full_demo_reachable [where acts = "[]"]) simp
  have q: "quiet (base ?f)" "jobs (base ?f) 1 = Unused"
    unfolding base by (simp_all add: quiet_def cserver_init_def)
  obtain f' resp1 rest1 where
    run: "full_exec_all reference_deps memory_app memory_client ''b'' (Plain (Arrive 1 ro_get) # slow_get) ?f = Some f'"
      "jobs (base f') 1 = Finished ro_get resp1 rest1"
    by (simp add: slow_get_def fserver_init_def schedule_eval from_secs_def)
  have "list_all (full_own 1) slow_get" by (simp add: slow_get_def)
  with full_equals_sequential [OF memory_app_storage reference_deps_specs(5) reach q r [folded base]]
    full_exec_all_sound [OF run(1)] run(2)
  have "jobs (base f') = (jobs (base ?f))(1 := Finished ro_get resp rest)" "calls (world (base f')) = calls (machine srv')"
    by blast+
  then show ?thesis using r full_exec_all_sound [OF run(1)] by (metis fun_upd_same)
qed

end
