(* ===== verification/Cluster_Properties.thy ===== *)
theory Cluster_Properties
  imports Cluster_Visibility Full_Properties
begin

text \<open>
  The properties of several instances of the server over one bucket, and the runs on which
  they are evaluated.
\<close>

text \<open>C5: writes are seen by every instance, within a bounded time. Over S3, once a PUT of a key
  has been answered 200 or 409 by one member, a GET of it that arrives at any member is
  answered 200, whatever else is under way at any of them, unless S3 has failed a request
  of the answering member for the key since, which its log shows: at the same member from
  then on, and at every other member after the lifetime of an absent result
  (\<open>NEGATIVE_TTL\<close>, 5 s), or, if an answer "absent" of S3 was on its way to that member when
  the PUT was answered, after the lifetime of an unresolved slot (\<open>UNRESOLVED_TTL\<close>, 60 s).\<close>

theorem cluster_write_is_read:
  assumes "s3_documented c b objs ups" "s3_failures_documented c b objs ups" "uploads_separate c b ups issued"
    and "storage app = s3_storage c b" "axum_response_spec d" "reader_stream_spec d"
    and "cluster_reachable d app c b n m C" "i < length C" "j < length C"
    and "jobs (base (C ! i)) t = Finished put resp rest" "put_request d app put h"
    and "status resp = HTTP_OK \<or> status resp = CONFLICT"
    and "cluster_run d app c b C acts C1"
    and "i = j \<or> now (probes (base (C ! j))) + delay \<le> now (probes (base (C1 ! j))) \<and>
      (UNRESOLVED_TTL \<le> delay \<or> \<not> absent_on_its_way h (base (C ! j)) \<and> NEGATIVE_TTL \<le> delay)"
    and "get_request d app get h"
    and "cluster_run d app c b C1 (At j (Plain (Arrive u get)) # acts') C'"
    and "jobs (base (C' ! j)) u = Finished get' resp' rest'"
  shows "status resp' = HTTP_OK \<or>
    (\<exists>operation err.
       S3_Failed operation h err \<in> set (drop (length (log (world (base (C1 ! j))))) (log (world (base (C' ! j))))))"
proof -
  have S: "s3_uploads c b objs ups issued"
    using assms(1-3) by (simp add: s3_uploads_def s3_uploads_axioms_def s3_service_def)
  note inv = s3_uploads.cluster_reachable_inv [OF S assms(4-7)]
  note member = cluster_invD(1) [OF inv assms(9)]
  have vis: "visible objs h (base (C ! i))"
    using acknowledged_okD(1) [OF member_invD(6) [OF cluster_invD(1) [OF inv assms(8)]] assms(10)] assms(11,12) by simp
  then have there: "objs (backend (world (base (C ! j)))) h \<noteq> None"
    using cluster_invD(3) [OF inv assms(8,9)] by (simp add: visible_def bucket_of_def)
  let ?calm = "\<not> absent_on_its_way h (base (C ! j))"
  let ?stale = "if i = j then \<lambda>_. False else stale_until ?calm (now (probes (base (C ! j))))"
  have "lasting ?stale" by (simp add: lasting_stale) (simp add: lasting_def)
  moreover have "shown objs ?stale h (base (C ! j))"
    using vis shown_start [where objs = objs and h = h and calm = ?calm, OF member_invD(2,1) [OF member] there]
    by (cases "i = j") (simp_all add: visible_shown)
  ultimately have C1: "cluster_inv d app objs ups issued (objs (backend m)) C1" "shown objs ?stale h (base (C1 ! j))"
    using s3_uploads.cluster_run_shown [OF S assms(4-6,13) inv assms(9)] by blast+
  have j: "j < length C1" using assms(9) cluster_run_length [OF assms(13)] by simp
  obtain f where f: "full_step d app c b (C1 ! j) (Plain (Arrive u get)) f"
    and run: "cluster_run d app c b (put_member j f C1) acts' C'"
    using assms(16) by (auto simp: cluster_step_simps)
  have base: "base f = arrive d app u get (base (C1 ! j))"
    using f by (cases rule: full_step.cases) (auto simp: server_step_simps)
  have "clean (base (C1 ! j)) i'" if "fmlookup (index (probes (base (C1 ! j)))) h = Some i'"
      "live (now (probes (base (C1 ! j)))) (heap (probes (base (C1 ! j))) ! i')" for i'
  proof (cases "i = j")
    case True
    then show ?thesis using C1(2) that(1) by (simp add: shown_def)
  next
    case False
    then show ?thesis using C1(2) stale_expired [OF _ _ _ that, of objs ?calm _ delay] assms(14) by simp
  qed
  then have "reading s3_failure (length (log (world (base (C1 ! j))))) h u (base f)"
    unfolding base by (rule arrive_reading_live [OF assms(15) member_invD(2) [OF cluster_invD(1) [OF C1(1) j]]])
  moreover have "objs (bucket_of f) h \<noteq> None"
    using C1(2) by (simp add: shown_def bucket_of_def base)
  moreover have "cluster_inv d app objs ups issued (objs (backend m)) (put_member j f C1)"
    using s3_uploads.cluster_step_inv [OF S assms(4-6) at_member [OF j _ f] C1(1)] by simp
  ultimately have "reading s3_failure (length (log (world (base (C1 ! j))))) h u (base (C' ! j))"
    using s3_uploads.cluster_run_reading [OF S assms(4-6) run] j by simp
  then show ?thesis using assms(17) by (auto simp: reading_def failed_since_def s3_failure_def)
qed

text \<open>C7: where served bytes come from, with any number of instances. Over S3, an object in the
  bucket has the content it had at the start or is the whole body of one PUT of its key
  that arrived with the service token at one of the members; and an artifact that any
  member serves is such a content of its key, or the beginning of one when the stream broke
  off.\<close>

theorem cluster_objects_and_artifacts_sourced:
  assumes "s3_documented c b objs ups" "s3_failures_documented c b objs ups" "uploads_separate c b ups issued"
    and "storage app = s3_storage c b" "axum_response_spec d" "reader_stream_spec d"
    and "cluster_reachable d app c b n m C" "i < length C"
  shows "(\<forall>h bs. objs (bucket_of (C ! i)) h = Some bs \<longrightarrow> cluster_may_hold d app (objs (backend m)) C h bs) \<and>
    (\<forall>t get resp rest stream. jobs (base (C ! i)) t = Finished get resp rest \<longrightarrow> status resp = HTTP_OK \<longrightarrow>
       resp_body resp = Artifact stream \<longrightarrow>
       (\<exists>h. get_request d app get h \<and> carried (cluster_may_hold d app (objs (backend m)) C) h stream))"
proof -
  have S: "s3_uploads c b objs ups issued"
    using assms(1-3) by (simp add: s3_uploads_def s3_uploads_axioms_def s3_service_def)
  note inv = s3_uploads.cluster_reachable_inv [OF S assms(4-7)]
  show ?thesis
    using cluster_invD(2) [OF inv assms(8)] unfolding member_sourced_def by (metis job_carries.simps(2))
qed

section \<open>Runs\<close>

text \<open>
  Member 1 is asked for a key and answers 404; member 0 stores it; after the lifetime of the
  absent result member 1 is asked again.
\<close>

definition cluster_store :: "cluster_action list" where
  "cluster_store =
     map (At 1 \<circ> Plain) [Arrive 2 ro_get, Probe_Start 2, Head_Effect 2, Probe_End 2] @
     map (At 0) [Plain (Arrive 0 small_put), Plain (Check_Effect 0), Plain (Check_End 0), Upload_Call 0,
       Upload_Step 0, Upload_Step 0, Plain (Put_End 0)]"

definition cluster_fetch :: "cluster_action list" where
  "cluster_fetch =
     At 1 (Plain (Arrive 1 ro_get)) # map (At 1 \<circ> Plain) [Probe_Start 1, Head_Effect 1, Probe_End 1, Get_Effect 1, Get_End 1]"

lemmas cluster_eval = schedule_eval fserver_init_def upload_to_def small_put_filled memory_put_whole elapse_def
  put_member_def see_bucket_def bucket_of_def member_wait_def cluster_init_def numeral_2_eq_2

abbreviation demo_cluster :: "bucket cluster" where
  "demo_cluster \<equiv> cluster_init 2 (started empty_bucket)"

lemma cluster_store_run:
  "\<exists>C C1 C' resp2 rest2 resp1 rest1.
     cluster_exec_all reference_deps memory_app memory_client ''b'' cluster_store demo_cluster = Some C \<and>
     length C = 2 \<and>
     jobs (base (C ! 0)) 0 = Finished small_put (closing (text_response HTTP_OK '''')) Done \<and>
     jobs (base (C ! 1)) 2 = Finished ro_get resp2 rest2 \<and> status resp2 = NOT_FOUND \<and>
     \<not> absent_on_its_way VALID_HASH (base (C ! 1)) \<and>
     cluster_exec_all reference_deps memory_app memory_client ''b'' [All_Wait NEGATIVE_TTL] C = Some C1 \<and>
     now (probes (base (C1 ! 1))) = now (probes (base (C ! 1))) + NEGATIVE_TTL \<and>
     cluster_exec_all reference_deps memory_app memory_client ''b'' cluster_fetch C1 = Some C' \<and> length C' = 2 \<and>
     jobs (base (C' ! 1)) 1 = Finished ro_get resp1 rest1 \<and> status resp1 = HTTP_OK \<and>
     resp_body resp1 = Artifact (Chunk 0 [7, 8, 9] Done)"
  by (simp add: cluster_store_def cluster_fetch_def cluster_eval absent_on_its_way_def)

text \<open>
  The bound of 60 s is needed. Member 1 has asked S3 about the key and the answer "absent" is
  still on its way (within the 30 s that an operation may take by default) when member 0
  stores the key and answers. Twenty seconds later, four lifetimes of an absent result, a
  new GET at member 1 joins that probe and is answered 404. S3 has failed nothing.
\<close>

definition cluster_pending :: "cluster_action list" where
  "cluster_pending =
     map (At 1 \<circ> Plain) [Arrive 2 ro_get, Probe_Start 2, Head_Effect 2] @
     map (At 0) [Plain (Arrive 0 small_put), Plain (Check_Effect 0), Plain (Check_End 0), Upload_Call 0,
       Upload_Step 0, Upload_Step 0, Plain (Put_End 0)]"

definition cluster_joining :: "cluster_action list" where
  "cluster_joining =
     All_Wait (from_secs 20) # map (At 1 \<circ> Plain) [Arrive 1 ro_get, Probe_End 2, Cell_Hit 1]"

lemma cluster_late_miss:
  "\<exists>C C' resp rest.
     cluster_exec_all reference_deps memory_app memory_client ''b'' cluster_pending demo_cluster = Some C \<and>
     jobs (base (C ! 0)) 0 = Finished small_put (closing (text_response HTTP_OK '''')) Done \<and>
     cluster_exec_all reference_deps memory_app memory_client ''b'' cluster_joining C = Some C' \<and>
     jobs (base (C' ! 1)) 1 = Finished ro_get resp rest \<and> status resp = NOT_FOUND \<and>
     (\<forall>operation h err. S3_Failed operation h err \<notin> set (log (world (base (C' ! 1)))))"
  by (simp add: cluster_pending_def cluster_joining_def cluster_eval)

section \<open>Witnesses\<close>

lemma demo_cluster_reachable:
  "cluster_exec_all reference_deps memory_app memory_client ''b'' acts demo_cluster = Some C \<Longrightarrow>
     cluster_reachable reference_deps memory_app memory_client ''b'' 2 (started empty_bucket) C"
  unfolding cluster_reachable_def using cluster_exec_all_sound by blast

lemma cluster_write_is_read_witness:
  "\<exists>(C :: bucket cluster) (C1 :: bucket cluster) (C' :: bucket cluster) resp2 rest2 resp rest.
     jobs (base (C ! 0)) 0 = Finished small_put (closing (text_response HTTP_OK '''')) Done \<and>
     jobs (base (C ! 1)) 2 = Finished ro_get resp2 rest2 \<and> status resp2 = NOT_FOUND \<and>
     cluster_run reference_deps memory_app memory_client ''b'' C [All_Wait NEGATIVE_TTL] C1 \<and>
     cluster_run reference_deps memory_app memory_client ''b'' C1 cluster_fetch C' \<and>
     jobs (base (C' ! 1)) 1 = Finished ro_get resp rest \<and>
     (status resp = HTTP_OK \<or> (\<exists>operation err. S3_Failed operation VALID_HASH err \<in>
        set (drop (length (log (world (base (C1 ! 1))))) (log (world (base (C' ! 1)))))))"
proof -
  obtain C C1 C' resp2 rest2 resp1 rest1 where
    r: "cluster_exec_all reference_deps memory_app memory_client ''b'' cluster_store demo_cluster = Some C"
      "length C = 2" "jobs (base (C ! 0)) 0 = Finished small_put (closing (text_response HTTP_OK '''')) Done"
      "jobs (base (C ! 1)) 2 = Finished ro_get resp2 rest2" "status resp2 = NOT_FOUND"
      "\<not> absent_on_its_way VALID_HASH (base (C ! 1))"
      "cluster_exec_all reference_deps memory_app memory_client ''b'' [All_Wait NEGATIVE_TTL] C = Some C1"
      "now (probes (base (C1 ! 1))) = now (probes (base (C ! 1))) + NEGATIVE_TTL"
      "cluster_exec_all reference_deps memory_app memory_client ''b'' cluster_fetch C1 = Some C'"
      "jobs (base (C' ! 1)) 1 = Finished ro_get resp1 rest1"
    using cluster_store_run by blast
  note runs = cluster_exec_all_sound [OF r(7)] cluster_exec_all_sound [OF r(9)]
  have "status (closing (text_response HTTP_OK '''')) = HTTP_OK" by (simp add: text_response_def)
  moreover have "(0 :: nat) < length C" "1 < length C" using r(2) by simp_all
  moreover have "now (probes (base (C ! 1))) + NEGATIVE_TTL \<le> now (probes (base (C1 ! 1))) \<and>
      (UNRESOLVED_TTL \<le> NEGATIVE_TTL \<or>
       \<not> absent_on_its_way VALID_HASH (base (C ! 1)) \<and> NEGATIVE_TTL \<le> NEGATIVE_TTL)"
    using r(6,8) by simp
  ultimately show ?thesis
    using cluster_write_is_read [OF memory_documented memory_failures_documented memory_separate
        memory_app_storage reference_deps_specs(3,4) demo_cluster_reachable [OF r(1)] _ _ r(3) small_put_request
        disjI1 runs(1) disjI2 ro_get_request runs(2) [unfolded cluster_fetch_def] r(10)] r runs
    by blast
qed

lemma cluster_objects_and_artifacts_sourced_witness:
  "\<exists>(C :: bucket cluster) resp rest. jobs (base (C ! 1)) 1 = Finished ro_get resp rest \<and>
     carried (cluster_may_hold reference_deps memory_app (stored empty_bucket) C) VALID_HASH (Chunk 0 [7, 8, 9] Done)"
proof -
  obtain C C1 C' resp1 rest1 where
    r: "cluster_exec_all reference_deps memory_app memory_client ''b'' cluster_store demo_cluster = Some C"
      "cluster_exec_all reference_deps memory_app memory_client ''b'' [All_Wait NEGATIVE_TTL] C = Some C1"
      "cluster_exec_all reference_deps memory_app memory_client ''b'' cluster_fetch C1 = Some C'" "length C' = 2"
      "jobs (base (C' ! 1)) 1 = Finished ro_get resp1 rest1" "status resp1 = HTTP_OK"
      "resp_body resp1 = Artifact (Chunk 0 [7, 8, 9] Done)"
    using cluster_store_run by blast
  have reach: "cluster_reachable reference_deps memory_app memory_client ''b'' 2 (started empty_bucket) C'"
    using cluster_reachable_run [OF cluster_reachable_run [OF demo_cluster_reachable [OF r(1)]
        cluster_exec_all_sound [OF r(2)]] cluster_exec_all_sound [OF r(3)]] .
  have "1 < length C'" using r(4) by simp
  from cluster_objects_and_artifacts_sourced [OF memory_documented memory_failures_documented memory_separate
      memory_app_storage reference_deps_specs(3,4) reach this] r(5-7)
  obtain h where "get_request reference_deps memory_app ro_get h"
    "carried (cluster_may_hold reference_deps memory_app (stored (backend (started empty_bucket))) C') h
       (Chunk 0 [7, 8, 9] Done)"
    by blast
  moreover from this have "h = VALID_HASH" using ro_get_request by (simp add: get_request_def)
  moreover have "backend (started empty_bucket) = empty_bucket" by (simp add: started_def)
  ultimately show ?thesis using r(5) by auto
qed

end
