(* ===== verification/Aws_Startup.thy ===== *)
theory Aws_Startup
  imports S3_Trace
begin

text \<open>
  \<open>S3Storage::new\<close> (\<open>src/infra/aws.rs\<close>): the region, the warning about \<open>S3_TIMEOUT\<close>, the
  configuration of the SDK client, and the startup probe that writes \<open>PROBE_KEY\<close>.

  The client the SDK builds from a configuration (\<open>Client::from_conf\<close>) is an argument. The
  configuration keeps the fields the code sets; the HTTPS connector and the behaviour
  version are left out.
\<close>

section \<open>The configuration of the client\<close>

datatype retry_mode = Standard | Adaptive

record s3_config =
  conf_region :: string
  conf_credentials_provider :: aws_storage_config
  conf_retry_mode :: retry_mode
  conf_max_attempts :: nat
  conf_operation_timeout :: duration
  conf_operation_attempt_timeout :: duration
  conf_connect_timeout :: duration
  conf_endpoint_url :: "string option"
  conf_force_path_style :: bool

definition s3_config_builder :: "string \<Rightarrow> aws_storage_config \<Rightarrow> s3_config" where
  "s3_config_builder reg cfg =
     \<lparr>conf_region = reg, conf_credentials_provider = cfg,
      conf_retry_mode = Standard, conf_max_attempts = 3,
      conf_operation_timeout = from_secs (unat (timeout_seconds cfg)),
      conf_operation_attempt_timeout = from_secs 10, conf_connect_timeout = from_secs 3,
      conf_endpoint_url = None, conf_force_path_style = False\<rparr>"

definition build_s3_config :: "string \<Rightarrow> aws_storage_config \<Rightarrow> s3_config" where
  "build_s3_config reg cfg =
     (case endpoint_url cfg of
        None \<Rightarrow> s3_config_builder reg cfg
      | Some url \<Rightarrow>
          (s3_config_builder reg cfg)\<lparr>conf_endpoint_url := Some url, conf_force_path_style := True\<rparr>)"

section \<open>Startup\<close>

definition string_bytes :: "string \<Rightarrow> bytes" where
  "string_bytes s = map (\<lambda>c. of_nat (of_char c)) s"

definition STARTUP_PROBE_BODY :: bytes where
  "STARTUP_PROBE_BODY = string_bytes ''nx-cache-server startup probe''"

definition timeout_warning :: "aws_storage_config \<Rightarrow> 's machine \<Rightarrow> 's machine" where
  "timeout_warning cfg m =
     (if from_secs (unat (timeout_seconds cfg)) > UNRESOLVED_TTL then
        emit (Timeout_Exceeds_Ttl (unat (timeout_seconds cfg)) (as_secs UNRESOLVED_TTL)) m
      else m)"

definition is_client_error :: "nat \<Rightarrow> bool" where
  "is_client_error code \<longleftrightarrow> 400 \<le> code \<and> code < 500"

definition definite_refusal :: "sdk_error \<Rightarrow> bool" where
  "definite_refusal e =
     (case raw_response_status e of None \<Rightarrow> False | Some code \<Rightarrow> is_client_error code)"

definition startup_probe :: "'s s3_client \<Rightarrow> string \<Rightarrow> 's machine \<Rightarrow> (storage_error + unit) \<times> 's machine" where
  "startup_probe client bucket m =
     (case send (PutObject bucket PROBE_KEY STARTUP_PROBE_BODY)
             (put_object client bucket PROBE_KEY STARTUP_PROBE_BODY) m of
        (Ok _, m1) \<Rightarrow> (Ok (), m1)
      | (Err e, m1) \<Rightarrow>
          (let m2 = log_s3_error ''startup-probe'' PROBE_KEY e m1 in
           if definite_refusal e then (Err OperationFailed, m2)
           else (Ok (), emit Unreachable_At_Startup m2)))"

definition s3_storage_new ::
  "(s3_config \<Rightarrow> 's s3_client) \<Rightarrow> region_sources \<Rightarrow> aws_storage_config \<Rightarrow> 's machine
    \<Rightarrow> (storage_error + 's storage_provider) \<times> 's machine" where
  "s3_storage_new from_conf src cfg m =
     (case provide_region src cfg of
        None \<Rightarrow> (Err OperationFailed, emit Region_Missing m)
      | Some reg \<Rightarrow>
          (let client = from_conf (build_s3_config reg cfg);
               (r, m1) = startup_probe client (bucket_name cfg) (timeout_warning cfg m)
           in case r of
                Err e \<Rightarrow> (Err e, m1)
              | Ok _ \<Rightarrow> (Ok (s3_storage client (bucket_name cfg)), m1)))"

section \<open>Facts\<close>

lemma timeout_warning_simps [simp]:
  "calls (timeout_warning cfg m) = calls m" "clock (timeout_warning cfg m) = clock m"
  "backend (timeout_warning cfg m) = backend m" "later m (timeout_warning cfg m)"
  by (simp_all add: timeout_warning_def)

lemma startup_probe_facts:
  assumes "startup_probe c b m = (r, m')"
  shows "later m m' \<and> calls m' = calls m @ [PutObject b PROBE_KEY STARTUP_PROBE_BODY] \<and>
    (r = Err OperationFailed \<longleftrightarrow>
      (\<exists>e. fst (put_object c b PROBE_KEY STARTUP_PROBE_BODY (backend m)) = Err e \<and> definite_refusal e)) \<and>
    (r = Ok () \<or> r = Err OperationFailed)"
proof -
  let ?send = "send (PutObject b PROBE_KEY STARTUP_PROBE_BODY) (put_object c b PROBE_KEY STARTUP_PROBE_BODY) m"
  obtain pr m1 where s: "?send = (pr, m1)" by (cases ?send)
  have pr: "fst (put_object c b PROBE_KEY STARTUP_PROBE_BODY (backend m)) = pr"
    using s by (auto simp: send_def split: prod.splits)
  note sent = send_later [OF s] send_calls [OF s]
  show ?thesis
  proof (cases pr)
    case (Inl e)
    then show ?thesis using assms s pr sent
      by (cases "definite_refusal e")
        (auto simp: startup_probe_def log_s3_error_def intro!: later_emitI)
  next
    case (Inr u)
    then show ?thesis using assms s pr sent by (auto simp: startup_probe_def)
  qed
qed

lemma s3_storage_new_later:
  assumes "s3_storage_new from_conf src cfg m = (r, m')"
  shows "later m m'"
proof (cases "provide_region src cfg")
  case None
  then show ?thesis using assms by (auto simp: s3_storage_new_def)
next
  case (Some reg)
  let ?probe = "startup_probe (from_conf (build_s3_config reg cfg)) (bucket_name cfg) (timeout_warning cfg m)"
  obtain pr m1 where p: "?probe = (pr, m1)" by (cases ?probe)
  have "m' = m1" using assms Some p by (cases pr) (simp_all add: s3_storage_new_def)
  moreover have "later (timeout_warning cfg m) m1" using startup_probe_facts [OF p] by blast
  ultimately show ?thesis using later_trans [of m "timeout_warning cfg m"] by simp
qed

end
