(* ===== verification/Main_Program.thy ===== *)
theory Main_Program
  imports Aws_Startup Server_Run
begin

text \<open>
  The AWS binary (\<open>src/bin/aws.rs\<close>): validation of the two configurations, startup of the
  storage, and the server; every failure ends the process with status 1 and a message on
  standard error.
\<close>

record aws_cli =
  cli_server :: server_config
  cli_storage :: aws_storage_config

text \<open>
  The process has exited with a status and a text on standard error, or is serving from a
  state, with the deadline of its next self-probe.
\<close>

datatype 's process = Exited nat string | Serving "'s app_state" "'s server" instant

definition eprintln :: "string \<Rightarrow> string" where
  "eprintln s = s @ newline"

definition init_failure_message :: "storage_error \<Rightarrow> string" where
  "init_failure_message e =
     eprintln '''' @ eprintln (''Failed to initialize S3 storage: '' @ storage_error_display e) @
     eprintln '''' @ eprintln ''Please check your AWS credentials and configuration.''"

definition server_failure_message :: "string \<Rightarrow> string" where
  "server_failure_message e = eprintln '''' @ eprintln (''Server error: '' @ e)"

text \<open>
  The region is looked up twice, by the validation and by \<open>S3Storage::new\<close>, and its sources
  may have changed in between: \<open>src1\<close> and \<open>src2\<close>. An I/O error is its message.
\<close>

definition main ::
  "(s3_config \<Rightarrow> 's s3_client) \<Rightarrow> (ip_addr \<Rightarrow> 16 word \<Rightarrow> string + unit) \<Rightarrow> region_sources \<Rightarrow> region_sources
    \<Rightarrow> aws_cli \<Rightarrow> 's machine \<Rightarrow> 's process \<times> 's machine" where
  "main from_conf bind src1 src2 cli m =
     (case validate_server (cli_server cli) of
        Err e \<Rightarrow> (Exited 1 (eprintln (config_error_display e)), m)
      | Ok _ \<Rightarrow>
          (case validate_storage src1 (cli_storage cli) of
             Err e \<Rightarrow> (Exited 1 (eprintln (config_error_display e)), m)
           | Ok _ \<Rightarrow>
               (case s3_storage_new from_conf src2 (cli_storage cli) m of
                  (Err e, m1) \<Rightarrow> (Exited 1 (init_failure_message e), m1)
                | (Ok storage_impl, m1) \<Rightarrow>
                    (case run_server bind storage_impl (cli_server cli) (emit Server_Starting m1) of
                       (Err e, m2) \<Rightarrow> (Exited 1 (server_failure_message e), m2)
                     | (Ok (app, srv, deadline), m2) \<Rightarrow> (Serving app srv deadline, m2)))))"

section \<open>The program's error type\<close>

text \<open>\<open>AppError\<close> (\<open>src/error.rs\<close>) and its messages.\<close>

datatype app_error = App_Storage storage_error | App_Config config_error | App_Server string

fun app_error_display :: "app_error \<Rightarrow> string" where
  "app_error_display (App_Storage e) = ''Storage error: '' @ storage_error_display e"
| "app_error_display (App_Config e) = ''Configuration error: '' @ config_error_display e"
| "app_error_display (App_Server msg) = ''Server error: '' @ msg"

section \<open>Facts\<close>

lemma main_serving:
  assumes "main from_conf bind src1 src2 cli m = (Serving app srv deadline, m')"
  obtains reg m1 where "validate_server (cli_server cli) = Ok ()" "validate_storage src1 (cli_storage cli) = Ok ()"
    "provide_region src2 (cli_storage cli) = Some reg"
    "s3_storage_new from_conf src2 (cli_storage cli) m = (Ok (storage app), m1)"
    "storage app = s3_storage (from_conf (build_s3_config reg (cli_storage cli))) (bucket_name (cli_storage cli))"
    "config app = cli_server cli" "probe srv = fmempty" "machine srv = m'"
    "m' = emit Server_Running (emit Server_Starting m1)" "deadline = clock m1"
    "bind (bind_address (cli_server cli)) (port (cli_server cli)) = Ok ()"
proof -
  have v: "validate_server (cli_server cli) = Ok ()" "validate_storage src1 (cli_storage cli) = Ok ()"
    using assms by (auto simp: main_def split: sum.splits)
  obtain r m1 where new: "s3_storage_new from_conf src2 (cli_storage cli) m = (r, m1)"
    by (cases "s3_storage_new from_conf src2 (cli_storage cli) m")
  obtain impl where impl: "r = Ok impl" using assms v new by (cases r) (auto simp: main_def)
  obtain rr m2 where rr: "run_server bind impl (cli_server cli) (emit Server_Starting m1) = (rr, m2)"
    by (cases "run_server bind impl (cli_server cli) (emit Server_Starting m1)")
  have "main from_conf bind src1 src2 cli m =
      (case rr of Err e \<Rightarrow> (Exited 1 (server_failure_message e), m2)
       | Ok (app, srv, deadline) \<Rightarrow> (Serving app srv deadline, m2))"
    by (simp add: main_def v new impl rr split: sum.split)
  then have run: "rr = Ok (app, srv, deadline)" "m2 = m'"
    using assms by (simp_all split: sum.splits prod.splits)
  obtain reg where reg: "provide_region src2 (cli_storage cli) = Some reg"
    using new impl by (auto simp: s3_storage_new_def split: option.splits)
  have "impl = s3_storage (from_conf (build_s3_config reg (cli_storage cli))) (bucket_name (cli_storage cli))"
    using new impl reg by (auto simp: s3_storage_new_def Let_def split: prod.splits sum.splits)
  moreover have "bind (bind_address (cli_server cli)) (port (cli_server cli)) = Ok ()"
    using rr run by (auto simp: run_server_def Let_def split: sum.splits)
  moreover have "app = \<lparr>storage = impl, config = cli_server cli\<rparr>" "probe srv = fmempty" "machine srv = m'"
    "m' = emit Server_Running (emit Server_Starting m1)" "deadline = clock m1"
    using rr run by (auto simp: run_server_def Let_def split: sum.splits)
  ultimately show ?thesis using that [OF v reg] new impl by simp
qed

end
