(* ===== verification/Key_Properties.thy ===== *)
theory Key_Properties
  imports Handler_Facts
begin

text \<open>
  The properties of cache keys, tokens and configurations: what \<open>validate_hash\<close> lets
  through, and what a validated configuration guarantees to the authentication.
\<close>

section \<open>Keys\<close>

text \<open>The control characters of Unicode (category Cc), none of which is alphanumeric.\<close>

definition control :: "nat \<Rightarrow> bool" where
  "control c \<longleftrightarrow> c < 32 \<or> 127 \<le> c \<and> c \<le> 159"

text \<open>C36: accepted keys are safe path components. A key that \<open>validate_hash\<close> accepts is not
  empty and has at most 128 bytes. Its bytes below 128 are ASCII letters, digits, hyphens and
  underscores, so none is a slash, dot, percent sign, space or control character; its other
  characters are ones that Unicode calls alphanumeric. As Unicode calls no control character
  alphanumeric, a key holds none, in ASCII or above.\<close>

theorem accepted_keys_safe:
  assumes "list_all is_scalar cs" "validate_hash uni (encode_utf8 cs) = Ok ()"
    and "\<And>c. control c \<Longrightarrow> \<not> uni c"
  shows "encode_utf8 cs \<noteq> [] \<and> length (encode_utf8 cs) \<le> 128 \<and>
    (\<forall>b \<in> set (encode_utf8 cs). b \<notin> {CHR ''/'', CHR ''.'', CHR ''%'', CHR '' ''} \<and>
       (128 \<le> (of_char b :: nat) \<or> ascii_alphanumeric (of_char b) \<or> b \<in> {CHR ''-'', CHR ''_''})) \<and>
    (\<forall>c \<in> set cs. \<not> control c \<and> (128 \<le> c \<longrightarrow> uni c))"
proof -
  have ok: "encode_utf8 cs \<noteq> []" "list_all (hash_char uni) cs" "length (encode_utf8 cs) \<le> 128"
    using assms by (simp_all add: validate_hash_Ok_iff chars_encode_utf8)
  have char: "hash_char uni c" if "c \<in> set cs" for c using ok(2) that by (simp add: list_all_iff)
  have "b \<notin> {CHR ''/'', CHR ''.'', CHR ''%'', CHR '' ''} \<and>
      (128 \<le> (of_char b :: nat) \<or> ascii_alphanumeric (of_char b) \<or> b \<in> {CHR ''-'', CHR ''_''})"
    if b: "b \<in> set (encode_utf8 cs)" for b
  proof (cases "(of_char b :: nat) < 128")
    case True
    then have "of_char b \<in> set cs" using encode_utf8_ascii_byte [OF b assms(1)] by simp
    then have "ascii_alphanumeric (of_char b) \<or> of_char b = (45::nat) \<or> of_char b = (95::nat)"
      using char [of "of_char b"] True by (simp add: hash_char_ascii)
    moreover have "of_char b = (of_char c :: nat) \<longleftrightarrow> b = c" for c by (rule of_char_eq_iff)
    from this [of "CHR ''-''"] this [of "CHR ''_''"]
    have "of_char b = (45::nat) \<Longrightarrow> b = CHR ''-''" "of_char b = (95::nat) \<Longrightarrow> b = CHR ''_''" by simp_all
    ultimately show ?thesis by (auto simp: ascii_alphanumeric_def)
  next
    case False
    then show ?thesis by auto
  qed
  moreover have "\<not> control c \<and> (128 \<le> c \<longrightarrow> uni c)" if "c \<in> set cs" for c
    using char [OF that] assms(3) [of c]
    by (auto simp: hash_char_def is_alphanumeric_def ascii_alphanumeric_def control_def split: if_splits)
  ultimately show ?thesis using ok by blast
qed

lemma accepted_keys_safe_witness:
  "list_all (\<lambda>b. b \<notin> {CHR ''/'', CHR ''.'', CHR ''%'', CHR '' ''}) (encode_utf8 [97, 45, 90]) \<and>
     list_all (\<lambda>c. \<not> control c) [97, 45, 90]"
proof -
  have "validate_hash (\<lambda>_. False) (encode_utf8 [97, 45, 90]) = Ok ()"
    using chars_encode_utf8 [of "[97, 45, 90]"]
    by (simp add: validate_hash_Ok_iff is_scalar_def hash_char_def is_alphanumeric_def
        ascii_alphanumeric_def encode_utf8_def encode_char_def encode_bytes_def)
  from accepted_keys_safe [OF _ this] show ?thesis by (simp add: is_scalar_def list_all_iff)
qed

text \<open>Keys are not limited to ASCII. Every character above ASCII that Unicode calls
  alphanumeric is accepted as a key.\<close>

theorem unicode_keys_accepted:
  assumes "is_scalar c" "128 \<le> c" "uni c"
  shows "validate_hash uni (encode_utf8 [c]) = Ok ()"
proof -
  have "chars (encode_utf8 [c]) = [c]" using assms(1) by (intro chars_encode_utf8) simp
  moreover have "encode_utf8 [c] \<noteq> []" "length (encode_utf8 [c]) \<le> 128"
    by (simp_all add: encode_utf8_def encode_char_def encode_bytes_def)
  moreover have "hash_char uni c" using assms(2,3) by (simp add: hash_char_def is_alphanumeric_def)
  ultimately show ?thesis by (simp add: validate_hash_Ok_iff)
qed

lemma unicode_keys_accepted_witness:
  "validate_hash (d_uni reference_deps) (encode_utf8 [233]) = Ok ()"
  by (rule unicode_keys_accepted) (simp_all add: is_scalar_def reference_deps_def)

text \<open>No client can reach the probe object. The key of the self-probe is rejected, so the
  handlers answer for it without the storage: their outcome is the same over every two
  storages.\<close>

lemma probe_key_invalid: "validate_hash uni PROBE_KEY = Err BadRequest"
proof -
  have "46 \<in> set (chars PROBE_KEY)" by (simp add: PROBE_KEY_def chars_1)
  moreover have "\<not> hash_char uni 46" using hash_char_ascii_reject [of uni 46] by auto
  ultimately show ?thesis by (auto simp: validate_hash_def list_all_iff)
qed

theorem probe_key_unreachable:
  "validate_hash uni PROBE_KEY = Err BadRequest \<and>
   store_artifact d app PROBE_KEY b srv = store_artifact d app' PROBE_KEY b srv \<and>
   retrieve_artifact d app PROBE_KEY srv = retrieve_artifact d app' PROBE_KEY srv"
  by (simp add: probe_key_invalid store_artifact_def retrieve_artifact_def)

text \<open>Decoding a path segment. \<open>chars\<close>, the characters Rust sees in a \<open>String\<close>, inverts UTF-8
  encoding on every sequence of Unicode scalar values.\<close>

lemma utf8_roundtrip:
  assumes "list_all is_scalar cs"
  shows "chars (encode_utf8 cs) = cs"
  using assms by (rule chars_encode_utf8)

lemma utf8_roundtrip_witness: "chars (encode_utf8 [97, 233, 0x20AC, 0x1F600]) = [97, 233, 0x20AC, 0x1F600]"
  by (rule utf8_roundtrip) (simp add: is_scalar_def)

section \<open>Tokens and configurations\<close>

text \<open>C37: a validated configuration separates its tokens in the middleware. With the service token
  every request goes on to the handler. With the read-only token exactly the reads do: any
  other method is refused as \<open>Forbidden\<close> without running the handler, sending a request to S3
  or touching the cache. With any other token, the empty one in particular, or with none, the
  request is refused as \<open>Unauthorized\<close> and nothing changes.\<close>

theorem validated_tokens_separate:
  assumes "ct_eq_spec d" "validate_server cfg = Ok ()"
  shows "(bearer_token d req = Some (service_access_token cfg) \<longrightarrow>
      auth_middleware d cfg nxt req srv = map_option (\<lambda>(resp, rest, srv'). (Ok resp, rest, srv')) (nxt req srv)) \<and>
    (bearer_token d req \<noteq> None \<and> bearer_token d req = read_only_access_token cfg \<longrightarrow>
      (if req_method req = GET \<or> req_method req = HEAD
       then auth_middleware d cfg nxt req srv = map_option (\<lambda>(resp, rest, srv'). (Ok resp, rest, srv')) (nxt req srv)
       else \<exists>rest m. auth_middleware d cfg nxt req srv = Some (Err Forbidden, rest, srv\<lparr>machine := m\<rparr>) \<and>
         calls m = calls (machine srv) \<and> backend m = backend (machine srv))) \<and>
    (bearer_token d req \<noteq> Some (service_access_token cfg) \<and>
      (bearer_token d req = None \<or> bearer_token d req = Some [] \<or> bearer_token d req \<noteq> read_only_access_token cfg) \<longrightarrow>
      auth_middleware d cfg nxt req srv = Some (Err Unauthorized, req_body req, srv)) \<and>
    service_access_token cfg \<noteq> []"
proof -
  have cfg: "service_access_token cfg \<noteq> []" "read_only_access_token cfg \<noteq> Some []"
    "read_only_access_token cfg \<noteq> Some (service_access_token cfg)"
    using assms(2) by (auto simp: validate_server_Ok_iff)
  have eq: "d_ct_eq d x y \<longleftrightarrow> x = y" for x y using assms(1) by (simp add: ct_eq_spec_def)
  obtain rest m where dr: "drain_body (req_body req) (machine srv) = (rest, m)"
    by (cases "drain_body (req_body req) (machine srv)")
  have "calls m = calls (machine srv)" "backend m = backend (machine srv)"
    using dr by (auto simp: drain_body_def drain_body_within_def split: prod.splits)
  then show ?thesis
    using cfg dr
    by (cases "bearer_token d req"; cases "nxt req srv"; cases "read_only_access_token cfg")
      (auto simp: auth_middleware_def is_read_write_def is_read_only_def is_read_def eq)
qed

definition sample_config :: server_config where
  "sample_config =
     \<lparr>port = 8080, bind_address = V4 0, service_access_token = ''rw'', read_only_access_token = Some ''ro''\<rparr>"

definition read_only_request :: request where
  "read_only_request =
     \<lparr>req_method = PUT, req_path = ''/v1/cache/a'', req_headers = [(''authorization'', ''Bearer ro'')],
      req_body = Done\<rparr>"

text \<open>The read-only token on a PUT, in front of a handler that would answer it.\<close>

definition idle_server :: "unit server" where
  "idle_server = \<lparr>probe = fmempty, machine = \<lparr>clock = 0, log = [], calls = [], backend = ()\<rparr>\<rparr>"

lemma validated_tokens_separate_witness:
  "\<exists>rest m. auth_middleware reference_deps sample_config (\<lambda>req srv. Some (health_check, Done, srv)) read_only_request
      idle_server = Some (Err Forbidden, rest, idle_server\<lparr>machine := m\<rparr>)"
proof -
  have cfg: "validate_server sample_config = Ok ()"
    by (simp add: validate_server_Ok_iff sample_config_def)
  have "bearer_token (reference_deps :: unit deps) read_only_request = Some ''ro''"
    "read_only_access_token sample_config = Some ''ro''" "req_method read_only_request = PUT"
    by (simp_all add: bearer_token_def read_only_request_def sample_config_def header_get_def reference_deps_def
        reference_to_str_def strip_prefix_def)
  then show ?thesis
    using validated_tokens_separate [OF reference_deps_specs(1) cfg, of read_only_request
        "\<lambda>req srv. Some (health_check, Done, srv)" idle_server]
    by auto
qed

text \<open>Tokens that collide are refused. A read-only token that is empty or equal to the
  service token, an empty service token, and port 0 each make the validation fail, with the
  field or the rule that failed.\<close>

lemma invalid_server_config:
  "(service_access_token cfg = [] \<longrightarrow> validate_server cfg = Err (MissingField ''SERVICE_ACCESS_TOKEN'')) \<and>
   (service_access_token cfg \<noteq> [] \<and>
      (read_only_access_token cfg = Some [] \<or> read_only_access_token cfg = Some (service_access_token cfg)
        \<or> port cfg = 0) \<longrightarrow> (\<exists>msg. validate_server cfg = Err (Invalid msg)))"
  by (auto simp: validate_server_def Let_def split: option.splits)

lemma invalid_server_config_witness:
  "\<exists>msg. validate_server (sample_config\<lparr>read_only_access_token := Some ''rw''\<rparr>) = Err (Invalid msg)"
  using invalid_server_config [of "sample_config\<lparr>read_only_access_token := Some ''rw''\<rparr>"]
  by (simp add: sample_config_def)

end
