(* ===== verification/Startup_Properties.thy ===== *)
theory Startup_Properties
  imports Main_Program S3_Properties Key_Properties
begin

text \<open>
  The properties of the storage configuration, of the startup and of the process: when the
  program refuses to start, what a serving process has checked, and what its self-probe
  does.
\<close>

section \<open>The storage configuration\<close>

text \<open>The storage configuration is accepted exactly when there is a bucket name, an endpoint,
  if given, has an http or https scheme, the access key and the secret key come together or
  not at all, and one of the four region sources answers; and then the static credentials
  are used if and only if they were given, the default chain otherwise.\<close>

lemma storage_config_accepted_iff:
  "(validate_storage src cfg = Ok () \<longleftrightarrow>
     bucket_name cfg \<noteq> [] \<and>
     (\<forall>u. endpoint_url cfg = Some u \<longrightarrow> starts_with ''http://'' u \<or> starts_with ''https://'' u) \<and>
     (access_key_id cfg = None \<longleftrightarrow> secret_access_key cfg = None) \<and>
     \<not> (region cfg = None \<and> env_region src = None \<and> profile_region src = None \<and> imds_region src = None)) \<and>
   (validate_storage src cfg = Ok () \<longrightarrow> provide_credentials chain cfg =
     (case (access_key_id cfg, secret_access_key cfg) of
        (Some k, Some s) \<Rightarrow> Ok \<lparr>cred_access_key_id = k, cred_secret_access_key = s,
           cred_session_token = session_token cfg, cred_provider_name = ''nx-cache-server''\<rparr>
      | _ \<Rightarrow> chain))"
proof -
  have "(\<exists>r. provide_region src cfg = Some r) \<longleftrightarrow>
      \<not> (region cfg = None \<and> env_region src = None \<and> profile_region src = None \<and> imds_region src = None)"
    using provide_region_None_iff [of src cfg] by (metis not_Some_eq)
  then show ?thesis by (simp add: validate_storage_Ok_iff provide_credentials_def)
qed

definition sample_storage :: aws_storage_config where
  "sample_storage =
     \<lparr>region = Some ''eu-west-1'', access_key_id = None, secret_access_key = None, session_token = None,
      bucket_name = ''b'', endpoint_url = None, timeout_seconds = 30\<rparr>"

definition no_sources :: region_sources where
  "no_sources = \<lparr>env_region = None, profile_region = None, imds_region = None\<rparr>"

lemma sample_storage_valid: "validate_storage no_sources sample_storage = Ok ()"
  by (simp add: validate_storage_Ok_iff sample_storage_def no_sources_def provide_region_def or_else_def)

lemma storage_config_accepted_iff_witness:
  "provide_credentials (Err ()) sample_storage = Err ()"
  using storage_config_accepted_iff [of no_sources sample_storage "Err ()"] sample_storage_valid
  by (simp add: sample_storage_def)

section \<open>Startup\<close>

text \<open>C38: only a definite refusal stops the boot. With a region, \<open>S3Storage::new\<close> sends one
  request, the write of the probe object, and fails exactly when the service refuses it
  with a 4xx status; when S3 is unreachable or answers 5xx the storage is created, over the
  client built from the configuration.\<close>

theorem startup_refused_iff:
  assumes "provide_region src cfg = Some reg" "s3_storage_new from_conf src cfg m = (r, m')"
    and "client = from_conf (build_s3_config reg cfg)"
  shows "calls m' = calls m @ [PutObject (bucket_name cfg) PROBE_KEY STARTUP_PROBE_BODY] \<and>
    (if \<exists>e. fst (put_object client (bucket_name cfg) PROBE_KEY STARTUP_PROBE_BODY (backend m)) = Err e \<and>
          definite_refusal e
     then r = Err OperationFailed
     else r = Ok (s3_storage client (bucket_name cfg)))"
proof -
  obtain pr m1 where p: "startup_probe client (bucket_name cfg) (timeout_warning cfg m) = (pr, m1)"
    by (cases "startup_probe client (bucket_name cfg) (timeout_warning cfg m)")
  have "r = (case pr of Err e \<Rightarrow> Err e | Ok _ \<Rightarrow> Ok (s3_storage client (bucket_name cfg)))" "m' = m1"
    using assms p by (cases pr; simp add: s3_storage_new_def)+
  then show ?thesis using startup_probe_facts [OF p] by auto
qed

lemma startup_refused_iff_witness:
  "\<exists>m'. s3_storage_new (\<lambda>_. refusing_client) no_sources sample_storage (started empty_bucket) =
     (Ok (s3_storage refusing_client ''b''), m')"
proof -
  obtain r m' where run: "s3_storage_new (\<lambda>_. refusing_client) no_sources sample_storage (started empty_bucket) = (r, m')"
    by (cases "s3_storage_new (\<lambda>_. refusing_client) no_sources sample_storage (started empty_bucket)")
  have reg: "provide_region no_sources sample_storage = Some ''eu-west-1''"
    by (simp add: provide_region_def sample_storage_def or_else_def)
  have "r = Ok (s3_storage refusing_client ''b'')"
    using startup_refused_iff [OF reg run refl]
    by (simp add: refusing_client_def sdk_failure_def definite_refusal_def is_client_error_def sample_storage_def)
  with run show ?thesis by blast
qed

text \<open>A serving process has passed every check. When \<open>main\<close> serves, both configurations were
  valid and the socket bound; it serves the S3 storage over the client built from its
  configuration, with the validated server configuration and an empty cache; the only
  request sent so far is the write of the probe object.\<close>

theorem main_serves_validated:
  assumes "main from_conf bind src1 src2 cli m = (Serving app srv deadline, m')"
  shows "validate_server (cli_server cli) = Ok () \<and> validate_storage src1 (cli_storage cli) = Ok () \<and>
    bind (bind_address (cli_server cli)) (port (cli_server cli)) = Ok () \<and>
    config app = cli_server cli \<and> probe srv = fmempty \<and> machine srv = m' \<and>
    (\<exists>reg. provide_region src2 (cli_storage cli) = Some reg \<and>
      storage app = s3_storage (from_conf (build_s3_config reg (cli_storage cli))) (bucket_name (cli_storage cli))) \<and>
    calls m' = calls m @ [PutObject (bucket_name (cli_storage cli)) PROBE_KEY STARTUP_PROBE_BODY]"
  using assms
proof (cases rule: main_serving)
  case (1 reg m1)
  have "calls m1 = calls m @ [PutObject (bucket_name (cli_storage cli)) PROBE_KEY STARTUP_PROBE_BODY]"
    using startup_probe_facts 1(3,4)
    by (fastforce simp: s3_storage_new_def Let_def split: prod.splits sum.splits)
  then show ?thesis using 1 by simp
qed

definition sample_cli :: aws_cli where
  "sample_cli = \<lparr>cli_server = sample_config, cli_storage = sample_storage\<rparr>"

lemma sample_main:
  "\<exists>app srv deadline m'. main (\<lambda>_. memory_client) (\<lambda>_ _. Ok ()) no_sources no_sources sample_cli (started empty_bucket) =
     (Serving app srv deadline, m')"
  using sample_storage_valid
  by (simp add: main_def sample_cli_def validate_server_def sample_config_def s3_storage_new_def startup_probe_def
      provide_region_def sample_storage_def or_else_def send_def memory_client_def run_server_def Let_def)

lemma main_serves_validated_witness:
  "\<exists>app srv deadline m'. main (\<lambda>_. memory_client) (\<lambda>_ _. Ok ()) no_sources no_sources sample_cli (started empty_bucket) =
     (Serving app srv deadline, m') \<and> config app = sample_config"
proof -
  obtain app srv deadline m' where
    r: "main (\<lambda>_. memory_client) (\<lambda>_ _. Ok ()) no_sources no_sources sample_cli (started empty_bucket) =
      (Serving app srv deadline, m')"
    using sample_main by blast
  from main_serves_validated [OF r] r show ?thesis by (auto simp: sample_cli_def)
qed

text \<open>Nothing is contacted on an invalid configuration. When either configuration is invalid,
  \<open>main\<close> exits with status 1 and the message of the configuration error, before any
  request, log line or passage of time.\<close>

lemma main_refuses_invalid:
  assumes "validate_server (cli_server cli) = Err e \<or>
    validate_server (cli_server cli) = Ok () \<and> validate_storage src1 (cli_storage cli) = Err e"
  shows "main from_conf bind src1 src2 cli m = (Exited 1 (eprintln (config_error_display e)), m)"
  using assms by (auto simp: main_def)

lemma main_refuses_invalid_witness:
  "main (\<lambda>_. memory_client) (\<lambda>_ _. Ok ()) no_sources no_sources
      (sample_cli\<lparr>cli_storage := sample_storage\<lparr>bucket_name := []\<rparr>\<rparr>) (started empty_bucket) =
    (Exited 1 (eprintln (config_error_display (MissingField ''S3_BUCKET_NAME''))), started empty_bucket)"
  by (rule main_refuses_invalid)
    (simp add: sample_cli_def validate_server_def sample_config_def validate_storage_def)

section \<open>The self-probe\<close>

text \<open>C39: the self-probe is harmless and regular. Over S3, its first \<open>n\<close> turns send exactly \<open>n\<close>
  HeadObject requests for the probe object and nothing else, whatever S3 answers; each
  leaves its line in the log, and the \<open>n\<close>-th is done no earlier than \<open>n - 1\<close> minutes after
  the first was due.\<close>

lemma self_probe_once_s3:
  "calls (self_probe_once (s3_storage c b) m) = calls m @ [HeadObject b PROBE_KEY] \<and>
   (\<exists>before ev. log (self_probe_once (s3_storage c b) m) = log m @ before @ [ev] \<and> (\<exists>ms up. ev = Self_Probe ms up) \<and>
     (\<forall>x \<in> set before. \<not> (\<exists>ms up. x = Self_Probe ms up)))"
proof -
  obtain r m1 where e: "s3_exists c b PROBE_KEY m = (r, m1)" by (cases "s3_exists c b PROBE_KEY m")
  have "calls m1 = calls m @ [HeadObject b PROBE_KEY]"
    using e by (auto simp: s3_exists_def log_s3_error_def send_def split: prod.splits sum.splits if_splits)
  moreover have "\<exists>before. log m1 = log m @ before \<and> (\<forall>x \<in> set before. \<not> (\<exists>ms up. x = Self_Probe ms up))"
    using e by (auto simp: s3_exists_def log_s3_error_def send_def split: prod.splits sum.splits if_splits)
  ultimately show ?thesis using e by (auto simp: self_probe_once_def s3_storage_def Let_def)
qed

definition is_self_probe :: "log_event \<Rightarrow> bool" where
  "is_self_probe ev = (case ev of Self_Probe _ _ \<Rightarrow> True | _ \<Rightarrow> False)"

lemma self_probe_loop_s3:
  "calls (snd (self_probe_loop (s3_storage c b) n (t, m))) = calls m @ replicate n (HeadObject b PROBE_KEY) \<and>
   length (filter is_self_probe (log (snd (self_probe_loop (s3_storage c b) n (t, m))))) =
     length (filter is_self_probe (log m)) + n"
proof (induction n arbitrary: t m)
  case (Suc n)
  let ?m1 = "self_probe_once (s3_storage c b) (wait_until t m)"
  have "calls ?m1 = calls m @ [HeadObject b PROBE_KEY]"
    using self_probe_once_s3 [of c b "wait_until t m"] by simp
  moreover obtain before ev where "log ?m1 = log m @ before @ [ev]" "\<exists>ms up. ev = Self_Probe ms up"
    "\<forall>x \<in> set before. \<not> (\<exists>ms up. x = Self_Probe ms up)"
    using self_probe_once_s3 [of c b "wait_until t m"] by auto
  then have "length (filter is_self_probe (log ?m1)) = Suc (length (filter is_self_probe (log m)))"
    by (auto simp: is_self_probe_def filter_empty_conv split: log_event.splits)
  ultimately show ?case
    using Suc.IH [of "t + SELF_PROBE_INTERVAL" ?m1] by (simp add: self_probe_turn_def)
qed simp

theorem self_probe_only_heads:
  assumes "0 < n"
  shows "calls (snd (self_probe_loop (s3_storage c b) n (t, m))) = calls m @ replicate n (HeadObject b PROBE_KEY) \<and>
    length (filter is_self_probe (log (snd (self_probe_loop (s3_storage c b) n (t, m))))) =
      length (filter is_self_probe (log m)) + n \<and>
    t + (n - 1) * from_secs 60 \<le> clock (snd (self_probe_loop (s3_storage c b) n (t, m)))"
  using self_probe_loop_s3 [of c b n t m] storage_contract.self_probe_loop_clock [OF s3.storage_contract_axioms assms, of t c b m]
  by (simp add: SELF_PROBE_INTERVAL_def)

lemma self_probe_only_heads_witness:
  "calls (snd (self_probe_loop (s3_storage memory_client ''b'') 3 (0, started empty_bucket))) =
     replicate 3 (HeadObject ''b'' PROBE_KEY)"
  using self_probe_only_heads [of 3 memory_client "''b''" 0 "started empty_bucket"] by (simp add: started_def)

end
