(* ===== verification/Deployment.thy ===== *)
theory Deployment
  imports Cluster_Properties Startup_Properties
begin

text \<open>
  From the command line to the bucket: instances of the server that \<open>main\<close> has let serve, over
  the bucket of their configuration. What the process has validated and done at its start is
  put together with what its running server keeps.
\<close>

section \<open>The bucket after the start\<close>

context s3_service
begin

lemma startup_probe_objects:
  assumes "startup_probe client bucket m = (Ok (), m')"
  shows "objs (backend m') = (objs (backend m))(PROBE_KEY \<mapsto> STARTUP_PROBE_BODY) \<or>
    objs (backend m') = objs (backend m) \<and> Unreachable_At_Startup \<in> set (log m')"
proof -
  let ?put = "put_object client bucket PROBE_KEY STARTUP_PROBE_BODY"
  obtain pr m1 where s: "send (PutObject bucket PROBE_KEY STARTUP_PROBE_BODY) ?put m = (pr, m1)" by fastforce
  obtain delay where put: "?put (backend m) = (pr, delay, backend m1)" using send_backend [OF s] by blast
  show ?thesis
  proof (cases pr)
    case (Inl e)
    have "m' = emit Unreachable_At_Startup (log_s3_error ''startup-probe'' PROBE_KEY e m1)"
      using assms s Inl by (auto simp: startup_probe_def Let_def split: if_splits)
    then have m': "backend m' = backend m1" "Unreachable_At_Startup \<in> set (log m')"
      by (simp_all add: emit_def log_s3_error_def)
    moreover have "?put (backend m) = (Err e, delay, backend m1)" using put Inl by simp
    from s3_failures_documentedD(1) [OF failures_documented this]
    have "objs (backend m1) = objs (backend m) \<or>
      objs (backend m1) = (objs (backend m))(PROBE_KEY \<mapsto> STARTUP_PROBE_BODY)" .
    ultimately show ?thesis by auto
  next
    case (Inr u)
    have "m' = m1" using assms s Inr by (simp add: startup_probe_def)
    moreover have "objs (backend m1) = (objs (backend m))(PROBE_KEY \<mapsto> STARTUP_PROBE_BODY)"
      using documented put Inr unfolding s3_documented_def put_documented_def by simp
    ultimately show ?thesis by simp
  qed
qed

end

text \<open>A PUT of a key with the given token and body.\<close>

definition written_by :: "'s deps \<Rightarrow> string \<Rightarrow> request \<Rightarrow> string \<Rightarrow> bytes \<Rightarrow> bool" where
  "written_by d token put h bs \<longleftrightarrow>
     req_method put = PUT \<and> d_match_path d (req_path put) = Route_Cache (Some h) \<and>
     bearer_token d put = Some token \<and> validate_hash (d_uni d) h = Ok () \<and> bs = body_bytes (req_body put)"

lemma put_written_by:
  assumes "ct_eq_spec d" "put_request d app put h"
  shows "written_by d (service_access_token (config app)) put h (body_bytes (req_body put))"
  using assms by (simp add: written_by_def put_request_def may_write_iff)

lemma probe_key_not_put: "\<not> put_request d app put PROBE_KEY"
  by (simp add: put_request_def probe_key_invalid)

section \<open>The deployment\<close>

context s3_uploads
begin

lemma cluster_run_kept:
  assumes "storage app = s3_storage client bucket" "axum_response_spec d" "reader_stream_spec d"
    and "cluster_run d app client bucket C acts C'" "cluster_inv d app objs ups issued initial C" "j < length C"
    and "objs (bucket_of (C ! j)) h \<noteq> None"
  shows "objs (bucket_of (C' ! j)) h \<noteq> None"
proof -
  let ?P = "\<lambda>C. cluster_inv d app objs ups issued initial C \<and> j < length C \<and> objs (bucket_of (C ! j)) h \<noteq> None"
  have kept: "objs (bucket_of (C1 ! j)) h \<noteq> None" if step: "cluster_step d app client bucket C a C1" and P: "?P C" for C a C1
    using assms(1) P [THEN conjunct1] step P [THEN conjunct2, THEN conjunct1]
  proof (cases rule: cluster_step_at)
    case (own a')
    have "member_inv d app objs ups issued (C ! j)" using P cluster_invD(1) by blast
    then show ?thesis using full_step_kept [OF assms(1) _ own] P by blast
  qed (use P in simp)
  have "?P C'"
    using assms(4) by (rule cluster_run_inv [where P = ?P])
      (use assms(5-7) cluster_step_inv [OF assms(1-3)] kept cluster_step_length in \<open>metis+\<close>)
  then show ?thesis by blast
qed

text \<open>The object of the self-probe stays what it was: no request can name it.\<close>

lemma cluster_probe_object:
  assumes app: "storage app = s3_storage client bucket" and specs: "axum_response_spec d" "reader_stream_spec d"
    and reach: "cluster_reachable d app client bucket n m C" and i: "i < length C"
  shows "objs (bucket_of (C ! i)) PROBE_KEY = objs (backend m) PROBE_KEY"
proof (cases "objs (bucket_of (C ! i)) PROBE_KEY")
  case None
  obtain acts where run: "cluster_run d app client bucket (cluster_init n m) acts C"
    using reach unfolding cluster_reachable_def by blast
  have "i < length (cluster_init n m)" using cluster_run_length [OF run] i by simp
  moreover from this have "bucket_of (cluster_init n m ! i) = backend m"
    by (simp add: cluster_init_def bucket_of_def fserver_init_def cserver_init_def)
  ultimately show ?thesis
    using cluster_run_kept [OF app specs run cluster_inv_init, of i PROBE_KEY] None by metis
next
  case (Some bs)
  have "cluster_may_hold d app (objs (backend m)) C PROBE_KEY bs"
    using cluster_invD(2) [OF cluster_reachable_inv [OF app specs reach] i] Some by (simp add: member_sourced_def)
  then show ?thesis using Some by (simp add: cluster_may_hold_def probe_key_not_put)
qed

end

text \<open>C2: from the command line to the bucket. When \<open>main\<close> serves, over a documented S3, then in
  every state that any number of instances of its configuration can reach from there, every
  object of the bucket was there before the start, or is the probe object of the startup,
  or is the whole body of a PUT of its key that carried exactly the configured service
  token, which is not empty and is not the read-only token; and the probe object, which the
  self-probe asks for, is as the startup left it: written, unless the log has the warning
  that S3 was unreachable.\<close>

theorem deployment_guards_bucket:
  assumes "main from_conf bind src1 src2 cli m = (Serving app srv deadline, m')"
    and "provide_region src2 (cli_storage cli) = Some reg"
    and "c = from_conf (build_s3_config reg (cli_storage cli))" "b = bucket_name (cli_storage cli)"
    and "s3_documented c b objs ups" "s3_failures_documented c b objs ups" "uploads_separate c b ups issued"
    and "ct_eq_spec d" "axum_response_spec d" "reader_stream_spec d"
    and "cluster_reachable d app c b n m' C" "i < length C"
  shows "(\<forall>h bs. objs (bucket_of (C ! i)) h = Some bs \<longrightarrow>
      objs (backend m) h = Some bs \<or> h = PROBE_KEY \<and> bs = STARTUP_PROBE_BODY \<or>
      (\<exists>k < length C. \<exists>t put. job_request (jobs (base (C ! k)) t) = Some put \<and>
         written_by d (service_access_token (cli_server cli)) put h bs)) \<and>
    service_access_token (cli_server cli) \<noteq> [] \<and>
    read_only_access_token (cli_server cli) \<noteq> Some (service_access_token (cli_server cli)) \<and>
    objs (bucket_of (C ! i)) PROBE_KEY = objs (backend m') PROBE_KEY \<and>
    (objs (bucket_of (C ! i)) PROBE_KEY = Some STARTUP_PROBE_BODY \<or> Unreachable_At_Startup \<in> set (log m'))"
proof -
  have S: "s3_uploads c b objs ups issued"
    using assms(5-7) by (simp add: s3_uploads_def s3_uploads_axioms_def s3_service_def)
  have V: "s3_service c b objs ups" using assms(5,6) by (simp add: s3_service_def)
  from assms(1) show ?thesis
  proof (cases rule: main_serving)
    case (1 reg' m1)
    have reg: "reg' = reg" using 1(3) assms(2) by simp
    have app: "storage app = s3_storage c b" using 1(5) assms(3,4) reg by simp
    have "startup_probe c b (timeout_warning (cli_storage cli) m) = (Ok (), m1)"
      using 1(3,4) assms(3,4) reg by (auto simp: s3_storage_new_def Let_def split: prod.splits sum.splits)
    from s3_service.startup_probe_objects [OF V this]
    have start: "objs (backend m') = (objs (backend m))(PROBE_KEY \<mapsto> STARTUP_PROBE_BODY) \<or>
        objs (backend m') = objs (backend m) \<and> Unreachable_At_Startup \<in> set (log m')"
      using 1(9) by (auto simp: emit_def)
    note probe = s3_uploads.cluster_probe_object [OF S app assms(9-12)]
    have "objs (backend m) h = Some bs \<or> h = PROBE_KEY \<and> bs = STARTUP_PROBE_BODY \<or>
      (\<exists>k < length C. \<exists>t put. job_request (jobs (base (C ! k)) t) = Some put \<and>
         written_by d (service_access_token (cli_server cli)) put h bs)"
      if there: "objs (bucket_of (C ! i)) h = Some bs" for h bs
    proof -
      have "cluster_may_hold d app (objs (backend m')) C h bs"
        using cluster_invD(2) [OF s3_uploads.cluster_reachable_inv [OF S app assms(9-11)] assms(12)] there
        by (simp add: member_sourced_def)
      then consider "objs (backend m') h = Some bs"
        | k t put where "k < length C" "job_request (jobs (base (C ! k)) t) = Some put" "put_request d app put h"
            "bs = body_bytes (req_body put)"
        unfolding cluster_may_hold_def by blast
      then show ?thesis
      proof cases
        case 1
        then show ?thesis using start by (auto split: if_splits)
      next
        case (2 k t put)
        then show ?thesis using put_written_by [OF assms(8) 2(3)] \<open>config app = cli_server cli\<close> by auto
      qed
    qed
    moreover have "service_access_token (cli_server cli) \<noteq> []"
      "read_only_access_token (cli_server cli) \<noteq> Some (service_access_token (cli_server cli))"
      using 1(1) by (simp_all add: validate_server_Ok_iff)
    ultimately show ?thesis using probe start by auto
  qed
qed

section \<open>A deployment that stores an artifact\<close>

definition demo_cli :: aws_cli where
  "demo_cli = \<lparr>cli_server = test_config, cli_storage = sample_storage\<rparr>"

abbreviation demo_main :: "bucket process \<times> bucket machine" where
  "demo_main \<equiv> main (\<lambda>_. memory_client) (\<lambda>_ _. Ok ()) no_sources no_sources demo_cli (started empty_bucket)"

lemma demo_main_serves:
  "\<exists>srv deadline m'. demo_main = (Serving memory_app srv deadline, m') \<and> stored (backend m') VALID_HASH = None"
proof -
  have key: "VALID_HASH \<noteq> PROBE_KEY" by (simp add: VALID_HASH_def PROBE_KEY_def)
  have server: "validate_server test_config = Ok ()"
    by (simp add: validate_server_Ok_iff test_config_def RW_TOKEN_def RO_TOKEN_def)
  have reg: "provide_region no_sources sample_storage = Some ''eu-west-1''"
    by (simp add: provide_region_def sample_storage_def or_else_def)
  have bucket: "bucket_name sample_storage = ''b''" by (simp add: sample_storage_def)
  show ?thesis
    using sample_storage_valid server reg bucket key
    by (simp add: main_def demo_cli_def s3_storage_new_def startup_probe_def send_def memory_client_def run_server_def
        Let_def memory_app_def started_def empty_bucket_def timeout_warning_def emit_def)
qed

lemma cluster_store_on:
  assumes "stored (backend m) VALID_HASH = None"
  shows "\<exists>C. cluster_exec_all reference_deps memory_app memory_client ''b'' cluster_store (cluster_init 2 m) = Some C \<and>
    length C = 2 \<and> stored (bucket_of (C ! 1)) VALID_HASH = Some [7, 8, 9]"
  using assms by (simp add: cluster_store_def cluster_eval)

lemma deployment_guards_bucket_witness:
  "\<exists>(C :: bucket cluster) k t put. stored (bucket_of (C ! 1)) VALID_HASH = Some [7, 8, 9] \<and>
     job_request (jobs (base (C ! k)) t) = Some put \<and>
     written_by (reference_deps :: bucket deps) RW_TOKEN put VALID_HASH [7, 8, 9]"
proof -
  obtain srv deadline m' where main: "demo_main = (Serving memory_app srv deadline, m')"
    and absent: "stored (backend m') VALID_HASH = None"
    using demo_main_serves by blast
  obtain C where C: "cluster_exec_all reference_deps memory_app memory_client ''b'' cluster_store (cluster_init 2 m') = Some C"
    "length C = 2" "stored (bucket_of (C ! 1)) VALID_HASH = Some [7, 8, 9]"
    using cluster_store_on [OF absent] by blast
  have reg: "provide_region no_sources (cli_storage demo_cli) = Some ''eu-west-1''"
    by (simp add: demo_cli_def provide_region_def sample_storage_def or_else_def)
  have bucket: "''b'' = bucket_name (cli_storage demo_cli)" by (simp add: demo_cli_def sample_storage_def)
  have reach: "cluster_reachable reference_deps memory_app memory_client ''b'' 2 m' C"
    unfolding cluster_reachable_def using cluster_exec_all_sound [OF C(1)] by blast
  have "1 < length C" using C(2) by simp
  from deployment_guards_bucket [OF main reg refl bucket memory_documented memory_failures_documented memory_separate
      reference_deps_specs(1,3,4) reach this] C(3)
  have "stored (backend (started empty_bucket)) VALID_HASH = Some [7, 8, 9] \<or> VALID_HASH = PROBE_KEY \<or>
      (\<exists>k < length C. \<exists>t put. job_request (jobs (base (C ! k)) t) = Some put \<and>
         written_by (reference_deps :: bucket deps) (service_access_token (cli_server demo_cli)) put VALID_HASH [7, 8, 9])"
    by blast
  moreover have "stored (backend (started empty_bucket)) VALID_HASH = None"
    by (simp add: started_def empty_bucket_def)
  moreover have "VALID_HASH \<noteq> PROBE_KEY" by (simp add: VALID_HASH_def PROBE_KEY_def)
  moreover have "service_access_token (cli_server demo_cli) = RW_TOKEN"
    by (simp add: demo_cli_def test_config_def)
  ultimately show ?thesis using C(3) by auto
qed

end
