(* ===== verification/Full_Progress.thy ===== *)
theory Full_Progress
  imports Full_Embedding Server_Progress
begin

text \<open>
  Answers, the access log and the number of steps in the whole server, whatever S3 answers:
  the invariants of \<open>Server_Answers\<close> and \<open>Server_Progress\<close> with uploads request by request.
\<close>

section \<open>Answers\<close>

definition full_typed :: "'s deps \<Rightarrow> 's app_state \<Rightarrow> 's fserver \<Rightarrow> bool" where
  "full_typed d app f \<longleftrightarrow> jobs_ok d app (base f) \<and> uploads_authorised d app f"

lemma upload_to_jobs:
  "jobs (upload_to t req t0 h st m s) =
     (case st of Returned r rest u \<Rightarrow> (jobs s)(t := Active req t0 (Written h r rest)) | _ \<Rightarrow> jobs s)"
  by (simp add: upload_to_def split: store_stage.split)

lemma upload_to_world [simp]: "world (upload_to t req t0 h st m s) = m" "probes (upload_to t req t0 h st m s) = probes s"
  by (simp_all add: upload_to_def split: store_stage.split)

lemma full_typed_step:
  assumes "axum_response_spec d" "full_step d app c b f a f'" "full_typed d app f"
  shows "full_typed d app f'"
proof -
  have ok: "jobs_ok d app (base f)" "uploads_authorised d app f" using assms(3) by (simp_all add: full_typed_def)
  have "jobs_ok d app (base f')"
    using assms(2)
  proof (cases rule: full_step.cases)
    case (plain a' s)
    then show ?thesis using jobs_ok_step [OF assms(1) plain(3) ok(1)] by simp
  next
    case (upload_step t req t0 h data h' stream st st' m)
    have "store_call (uploads f t) = Some (h', stream)" using upload_step(4) by simp
    then obtain put where "job_request (jobs (base f) t) = Some put" "put_request d app put h'"
      by (rule authorisedD [OF ok(2)])
    then have "put_request d app req h'" using upload_step(3) by simp
    then show ?thesis
      using ok(1) upload_step(2) by (simp add: jobs_ok_def upload_to_jobs split: store_stage.split)
  qed (use ok(1) in \<open>simp_all add: jobs_ok_def\<close>)
  then show ?thesis using authorised_step [OF assms(1) ok(2,1) assms(2)] by (simp add: full_typed_def)
qed

lemma full_typed_init: "full_typed d app (fserver_init m)"
  by (simp add: full_typed_def fserver_init_def jobs_ok_init uploads_authorised_def)

lemma full_reachable_typed:
  assumes "axum_response_spec d" "full_reachable d app c b m f"
  shows "full_typed d app f"
proof -
  obtain acts where "full_run d app c b (fserver_init m) acts f"
    using assms(2) unfolding full_reachable_def by blast
  then show ?thesis using full_typed_init full_typed_step [OF assms(1)]
    by (rule full_run_inv [where P = "full_typed d app"])
qed

lemma full_job_request:
  assumes "axum_response_spec d" "full_step d app c b f a f'" "job_request (jobs (base f) t) = Some req"
  shows "job_request (jobs (base f') t) = Some req"
  using assms(2)
proof (cases rule: full_step.cases)
  case (plain a' s)
  then show ?thesis using job_request_step [OF assms(1) plain(3) assms(3)] by simp
qed (use assms(3) in \<open>auto simp: upload_to_jobs split: store_stage.split\<close>)

lemma full_run_request:
  assumes "axum_response_spec d" "full_run d app c b f acts f'" "job_request (jobs (base f) t) = Some req"
  shows "job_request (jobs (base f') t) = Some req"
  using assms(2,3) full_job_request [OF assms(1)]
  by (rule full_run_inv [where P = "\<lambda>f. job_request (jobs (base f) t) = Some req"])

section \<open>The access log\<close>

lemma logged_as_frame:
  assumes "access_lines (world s') = access_lines (world s)"
    and "\<And>t req resp rest. jobs s' t = Finished req resp rest \<longleftrightarrow> jobs s t = Finished req resp rest"
  shows "logged_as d before s' ts lines = logged_as d before s ts lines"
  using assms by (simp add: logged_as_def answer_line_def [abs_def])

lemma full_step_logged:
  assumes "storage app = s3_storage c b" "full_step d app c b f a f'" "logged_as d before (base f) ts lines"
  shows "\<exists>ts' lines'. logged_as d before (base f') (ts @ ts') (lines @ lines')"
proof -
  have frame: ?thesis if "logged_as d before (base f') ts lines"
    using that by (intro exI [of _ "[]"]) simp
  from assms(2) show ?thesis
  proof (cases rule: full_step.cases)
    case (plain a' s)
    have "keeps_access_log (storage app)" using s3_keeps_access_log assms(1) by simp
    from logged_as_step [OF this plain(3) assms(3)] show ?thesis using plain(2) by simp
  next
    case (upload_step t req t0 h data h' stream st st' m)
    have "access_lines m = access_lines (world (base f))"
      using store_advance_access [OF upload_step(5)] by simp
    then show ?thesis
      using assms(3) upload_step(2,3) logged_as_frame [of "base f'" "base f"]
      by (intro frame) (auto simp: upload_to_jobs split: store_stage.splits)
  next
    case (upload_late t h stream st st' m)
    then show ?thesis
      using assms(3) logged_as_frame [of "base f'" "base f"] by (intro frame) (simp add: access_lines_def)
  qed (use assms(3) frame in simp_all)
qed

text \<open>At every moment of a run, the lines so far are those of the requests answered so far.\<close>

lemma full_run_logged:
  assumes "storage app = s3_storage c b"
  shows "full_run d app c b (fserver_init m) acts f \<Longrightarrow>
    \<exists>ts lines. logged_as d (access_lines m) (base f) ts lines \<and>
      (\<forall>acts1 acts2 f1. acts = acts1 @ acts2 \<longrightarrow> full_run d app c b (fserver_init m) acts1 f1 \<longrightarrow>
        (\<exists>k \<le> length ts. logged_as d (access_lines m) (base f1) (take k ts) (take k lines)))"
proof (induction acts arbitrary: f rule: rev_induct)
  case Nil
  then show ?case by (intro exI [of _ "[]"]) (simp add: fserver_init_def logged_as_init)
next
  case (snoc a acts)
  obtain f0 where run: "full_run d app c b (fserver_init m) acts f0" and step: "full_step d app c b f0 a f"
    using snoc.prems by (auto simp: full_run_snoc)
  obtain ts lines where now: "logged_as d (access_lines m) (base f0) ts lines"
    and past: "\<And>acts1 acts2 f1. acts = acts1 @ acts2 \<Longrightarrow> full_run d app c b (fserver_init m) acts1 f1 \<Longrightarrow>
      \<exists>k \<le> length ts. logged_as d (access_lines m) (base f1) (take k ts) (take k lines)"
    using snoc.IH [OF run] by blast
  obtain ts' lines' where next_log: "logged_as d (access_lines m) (base f) (ts @ ts') (lines @ lines')"
    using full_step_logged [OF assms step now] by blast
  have "\<exists>k \<le> length (ts @ ts'). logged_as d (access_lines m) (base f1) (take k (ts @ ts')) (take k (lines @ lines'))"
    if split: "acts @ [a] = acts1 @ acts2" and part: "full_run d app c b (fserver_init m) acts1 f1" for acts1 acts2 f1
  proof (cases acts2 rule: rev_cases)
    case Nil
    then have "f1 = f" using full_run_unique [OF part] split snoc.prems by simp
    then show ?thesis using next_log logged_as_length [OF next_log] by (intro exI [of _ "length (ts @ ts')"]) simp
  next
    case (snoc acts3 a')
    then obtain k where "k \<le> length ts" "logged_as d (access_lines m) (base f1) (take k ts) (take k lines)"
      using past [OF _ part] split by auto
    then show ?thesis using logged_as_length [OF now] by (intro exI [of _ k]) simp
  qed
  then show ?case using next_log by blast
qed

section \<open>Steps of a request and its upload\<close>

fun full_actor :: "full_action \<Rightarrow> nat option" where
  "full_actor (Plain a) = actor a"
| "full_actor (Upload_Call t) = Some t"
| "full_actor (Upload_Step t) = Some t"
| "full_actor (Upload_Late t) = Some t"

text \<open>The steps an upload may still make, of a body of at most \<open>n\<close> chunks when it is not called yet.\<close>

fun upload_due :: "nat \<Rightarrow> store_job \<Rightarrow> nat" where
  "upload_due n Not_Called = 4 * n + 7"
| "upload_due n (Running h stream st) = steps_left st"
| "upload_due n (Dropped h stream st) = 1"
| "upload_due n (Buried h stream st) = 0"

definition full_due :: "nat \<Rightarrow> nat \<Rightarrow> 's fserver \<Rightarrow> nat" where
  "full_due n t f = steps_due (jobs (base f) t) (tasks (probes (base f)) t) + upload_due n (uploads f t)"

lemma steps_left_pos: "\<not> returned st \<Longrightarrow> 0 < steps_left st"
  by (cases st) simp_all

lemma upload_due_dropped: "upload_due n (dropped j) \<le> upload_due n j"
  using steps_left_pos by (cases j) (auto simp: Suc_le_eq)

lemma upload_due_drops: "upload_due n (drops a ups t) \<le> upload_due n (ups t)"
  by (cases a) (simp_all add: upload_due_dropped)

lemma drops_other: "actor a \<noteq> Some t \<Longrightarrow> drops a ups t = ups t"
  by (cases a) auto

lemma full_own_step:
  assumes "axum_response_spec d" "full_step d app c b f a f'" "full_actor a = Some t" "full_typed d app f"
    and "\<And>put. job_request (jobs (base f) t) = Some put \<Longrightarrow> size (d_reader_stream d (req_body put)) \<le> n"
  shows "full_due n t f' < full_due n t f"
  using assms(2)
proof (cases rule: full_step.cases)
  case (plain a' s)
  then show ?thesis
    using own_step_decreases [OF assms(1) plain(3), of t] upload_due_drops [of n a' "uploads f" t] assms(3)
    by (simp add: full_due_def)
next
  case (upload_call t' req t0 h data)
  have "data = req_body req"
    using assms(4) jobs_okD [of d app "base f" t'] upload_call(3) by (fastforce simp: full_typed_def)
  then show ?thesis using upload_call assms(3) assms(5) [of req] by (simp add: full_due_def)
next
  case (upload_step t' req t0 h data h' stream st st' m)
  then show ?thesis using store_advance_decreases [OF upload_step(5)] assms(3)
    by (auto simp: full_due_def upload_to_jobs split: store_stage.split)
next
  case (upload_late t' h stream st st' m)
  then show ?thesis using assms(3) by (simp add: full_due_def)
qed

lemma full_other_step:
  assumes "axum_response_spec d" "full_step d app c b f a f'" "full_actor a \<noteq> Some t"
  shows "full_due n t f' = full_due n t f"
  using assms(2)
proof (cases rule: full_step.cases)
  case (plain a' s)
  then show ?thesis
    using server_step_other [OF assms(1) plain(3), of t] drops_other assms(3) by (simp add: full_due_def)
qed (use assms(3) in \<open>auto simp: full_due_def upload_to_jobs split: store_stage.split\<close>)

lemma full_run_due:
  assumes "axum_response_spec d"
  shows "full_run d app c b f acts f' \<Longrightarrow> full_typed d app f \<Longrightarrow>
    (\<And>put. job_request (jobs (base f') t) = Some put \<Longrightarrow> size (d_reader_stream d (req_body put)) \<le> n) \<Longrightarrow>
    length (filter (\<lambda>a. full_actor a = Some t) acts) + full_due n t f' \<le> full_due n t f"
proof (induction rule: full_run.induct)
  case (full_next f a f1 acts f2)
  have "full_run d app c b f (a # acts) f2" using full_next(1,2) by (rule full_run.full_next)
  then have "size (d_reader_stream d (req_body put)) \<le> n" if "job_request (jobs (base f) t) = Some put" for put
    using full_run_request [OF assms] that full_next.prems(2) by blast
  then show ?case
    using full_next.IH [OF full_typed_step [OF assms full_next(1) full_next.prems(1)] full_next.prems(2)]
      full_own_step [OF assms full_next(1) _ full_next.prems(1), of t n] full_other_step [OF assms full_next(1), of t n]
    by (cases "full_actor a = Some t") auto
qed simp

section \<open>The next step\<close>

text \<open>The part of the body an upload is reading, when it is reading.\<close>

fun unread :: "store_stage \<Rightarrow> body option" where
  "unread (Filling data) = Some data"
| "unread (Refilling u data k cs pn) = Some data"
| "unread st = None"

lemma store_advance_waits:
  assumes "store_advance c b h st m = None" "\<not> returned st"
  shows "\<exists>rest. unread st = Some rest \<and> \<not> terminates rest"
proof -
  have "\<not> terminates data" if none: "fill_part data n h k m = None" for data n k
  proof
    assume "terminates data"
    from fill_loop_returns [OF this, of n h "[]" k m] none show False by (simp add: fill_part_def)
  qed
  then show ?thesis
    using assms by (cases st) (auto simp: Let_def split: option.splits sum.splits prod.splits if_splits)
qed

lemma own_upload_step:
  assumes "full_step d app c b f a f'" "a = Upload_Call t \<or> a = Upload_Step t"
  shows "\<exists>a f'. full_actor a = Some t \<and> a \<noteq> Plain (Hang_Up t) \<and> full_step d app c b f a f'"
  using assms by (intro exI [of _ a] exI [of _ f']) auto

lemma full_progress_facts:
  assumes "full_basic f" "jobs (base f) t = Active req t0 st"
  shows "(\<exists>a f'. full_actor a = Some t \<and> a \<noteq> Plain (Hang_Up t) \<and> full_step d app c b f a f') \<or>
    (\<exists>r rest deadline. st = Draining r rest deadline \<and> now (probes (base f)) < deadline) \<or>
    (\<exists>h stream sg rest. uploads f t = Running h stream sg \<and> unread sg = Some rest \<and> \<not> terminates rest) \<or>
    (\<exists>h u a f'. st = Awaiting h \<and> u \<noteq> t \<and> (a = Plain (Head_Effect u) \<or> a = Plain (Probe_End u)) \<and>
       full_step d app c b f a f')"
proof (cases "\<exists>h data. st = Writing h data")
  case True
  then obtain h data where st: "jobs (base f) t = Active req t0 (Writing h data)" using assms(2) by blast
  have "upload_waits (Active req t0 (Writing h data)) (uploads f t)"
    using assms(1) st unfolding full_basic_def by metis
  then consider "uploads f t = Not_Called" | h' stream sg where "uploads f t = Running h' stream sg" "\<not> returned sg"
    by auto
  then show ?thesis
  proof cases
    case 1
    show ?thesis by (rule disjI1, rule own_upload_step [OF full_step.upload_call [OF st 1]]) simp
  next
    case 2
    show ?thesis
    proof (cases "store_advance c b h' sg (machine_now (base f))")
      case None
      then show ?thesis using store_advance_waits [OF None 2(2)] 2(1) by blast
    next
      case (Some x)
      obtain sg' m where "x = (sg', m)" by (cases x)
      note x = Some [unfolded this]
      show ?thesis by (rule disjI1, rule own_upload_step [OF full_step.upload_step [OF st 2(1) x]]) simp
    qed
  qed
next
  case False
  have plain: "full_step d app c b f (Plain a) (f\<lparr>base := s', uploads := drops a (uploads f)\<rparr>)"
    if "server_step d app (base f) a s'" "\<not> whole_upload a" for a s'
    using that by (rule full_step.plain)
  have own: "\<not> whole_upload a" if "server_step d app (base f) a s'" "actor a = Some t" for a s'
    using that False assms(2) by (cases a) (auto simp: server_step_simps)
  have lk: "linked (base f)" "flight_inv (probes (base f))" using assms(1) by (simp_all add: full_basic_def)
  consider (step) a s' where "actor a = Some t" "a \<noteq> Hang_Up t" "server_step d app (base f) a s'"
    | (drain) r rest deadline where "st = Draining r rest deadline" "now (probes (base f)) < deadline"
    | (probe) h u a s' where "st = Awaiting h" "u \<noteq> t" "a = Head_Effect u \<or> a = Probe_End u"
        "server_step d app (base f) a s'"
    using progress_facts [OF lk assms(2), of d app] False by blast
  then show ?thesis
  proof cases
    case step
    show ?thesis
      by (rule disjI1, rule exI, rule exI, intro conjI, rule_tac [3] plain [OF step(3) own [OF step(3,1)]])
        (use step(1,2) in simp_all)
  next
    case drain
    then show ?thesis by blast
  next
    case probe
    have "\<not> whole_upload a" using probe(3) by auto
    from plain [OF probe(4) this] show ?thesis using probe(1-3) by blast
  qed
qed

end
