(* ===== verification/Progress_Properties.thy ===== *)
theory Progress_Properties
  imports Full_Properties Full_Progress
begin

text \<open>
  The properties of \<open>Full_Progress\<close>: answers, access log and steps of the whole server with its
  uploads request by request, for every S3.
\<close>

text \<open>C19: every answer is earned, under every interleaving of requests and uploads and whatever S3
  answers. Each response carries \<open>Connection: close\<close> and its status matches its request: 200
  only for a health check, a GET with a valid token and key (a binary artifact) or a PUT with
  the service token and a valid key; 401 only without a valid token and 403 only for writes,
  both with a non-empty \<open>text/plain\<close> body; 404, 405 and 409 only where they belong; never a
  5xx. And every upload is of the body of a PUT with the service token, under its key.\<close>

theorem full_answers_earned:
  assumes "axum_response_spec d" "full_reachable d app c b m f"
  shows "(\<forall>t req resp rest. jobs (base f) t = Finished req resp rest \<longrightarrow> answer_ok d app req resp) \<and>
    (\<forall>t h stream. store_call (uploads f t) = Some (h, stream) \<longrightarrow>
       (\<exists>put. job_request (jobs (base f) t) = Some put \<and> put_request d app put h \<and>
          stream = d_reader_stream d (req_body put)))"
proof -
  have typed: "full_typed d app f" using assms by (rule full_reachable_typed)
  have "answer_ok d app req resp" if "jobs (base f) t = Finished req resp rest" for t req resp rest
    using jobs_okD [OF typed [unfolded full_typed_def, THEN conjunct1] that] by simp
  then show ?thesis
    using typed [unfolded full_typed_def, THEN conjunct2, unfolded uploads_authorised_def] by blast
qed

text \<open>C31: a request takes a bounded number of steps. In every run of the whole server, a request
  arrives, waits, calls the storage, uploads, drains and answers in at most thirteen steps of
  its own and four more for each chunk of its body, whatever S3 answers and whatever the
  other requests do to the shared cache: no task retries or loops.\<close>

theorem full_request_steps_bounded:
  assumes "axum_response_spec d" "full_run d app c b (fserver_init m) acts f"
    and "job_request (jobs (base f) t) = Some req"
  shows "length (filter (\<lambda>a. full_actor a = Some t) acts) \<le> 13 + 4 * size (d_reader_stream d (req_body req))"
proof -
  let ?n = "size (d_reader_stream d (req_body req))"
  have "length (filter (\<lambda>a. full_actor a = Some t) acts) + full_due ?n t f \<le> full_due ?n t (fserver_init m)"
    using assms(3) by (intro full_run_due [OF assms(1,2) full_typed_init]) auto
  then show ?thesis by (simp add: full_due_def fserver_init_def cserver_init_def)
qed

text \<open>C30: nobody is stranded. In every reachable state of the whole server, a request under way
  can take its next step, or it drains until a deadline, or its upload reads a body that its
  client has stopped sending, or it waits for the probe of another request that can take its
  own next step.\<close>

theorem full_requests_progress:
  assumes "full_reachable d app c b m f" "jobs (base f) t = Active req t0 st"
  shows "(\<exists>a f'. full_actor a = Some t \<and> a \<noteq> Plain (Hang_Up t) \<and> full_step d app c b f a f') \<or>
    (\<exists>r rest deadline. st = Draining r rest deadline \<and> now (probes (base f)) < deadline) \<or>
    (\<exists>h stream sg rest. uploads f t = Running h stream sg \<and> unread sg = Some rest \<and> \<not> terminates rest) \<or>
    (\<exists>h u a f'. st = Awaiting h \<and> u \<noteq> t \<and> (a = Plain (Head_Effect u) \<or> a = Plain (Probe_End u)) \<and>
       full_step d app c b f a f')"
  using full_reachable_basic [OF assms(1)] assms(2) by (rule full_progress_facts)

text \<open>C20: the access log is complete and in order. In every run of the whole server there is an
  order of the answered requests, the one they were answered in, such that at every moment of
  the run the requests answered so far are the first of that order, and the access lines
  written so far are, one for each of them and in the same order, a line with the method and
  path of the request and the status and the content length of its response. Nothing else
  writes such a line, whatever S3 answers.\<close>

theorem full_access_log_is_answers:
  assumes "storage app = s3_storage c b" "full_run d app c b (fserver_init m) acts f"
  shows "\<exists>ts lines. distinct ts \<and> set ts = {t. \<exists>req resp rest. jobs (base f) t = Finished req resp rest} \<and>
    access_lines (world (base f)) = access_lines m @ lines \<and>
    list_all2 (\<lambda>t ev. \<exists>req resp rest dt.
      jobs (base f) t = Finished req resp rest \<and> ev = access_event d req resp dt) ts lines \<and>
    (\<forall>acts1 acts2 f1. acts = acts1 @ acts2 \<longrightarrow> full_run d app c b (fserver_init m) acts1 f1 \<longrightarrow>
      (\<exists>k. {t. \<exists>req resp rest. jobs (base f1) t = Finished req resp rest} = set (take k ts) \<and>
         access_lines (world (base f1)) = access_lines m @ take k lines))"
proof -
  obtain ts lines where log: "logged_as d (access_lines m) (base f) ts lines"
    and past: "\<And>acts1 acts2 f1. acts = acts1 @ acts2 \<Longrightarrow> full_run d app c b (fserver_init m) acts1 f1 \<Longrightarrow>
      \<exists>k \<le> length ts. logged_as d (access_lines m) (base f1) (take k ts) (take k lines)"
    using full_run_logged [OF assms] by blast
  have "\<exists>k. {t. \<exists>req resp rest. jobs (base f1) t = Finished req resp rest} = set (take k ts) \<and>
      access_lines (world (base f1)) = access_lines m @ take k lines"
    if "acts = acts1 @ acts2" "full_run d app c b (fserver_init m) acts1 f1" for acts1 acts2 f1
    using past [OF that] unfolding logged_as_def by metis
  then show ?thesis using log unfolding logged_as_def answer_line_def by blast
qed

section \<open>Witnesses\<close>

lemma full_answers_earned_witness:
  "\<exists>(f :: bucket fserver) resp rest. jobs (base f) 2 = Finished ro_get resp rest \<and> status resp = NOT_FOUND \<and>
     answer_ok reference_deps memory_app ro_get resp"
proof -
  obtain f f' resp2 rest2 where
    r: "full_exec_all reference_deps memory_app memory_client ''b'' full_racing (fserver_init (started empty_bucket)) = Some f"
      "full_exec_all reference_deps memory_app memory_client ''b'' full_late f = Some f'"
      "jobs (base f') 2 = Finished ro_get resp2 rest2" "status resp2 = NOT_FOUND"
    using full_runs by blast
  have reach: "full_reachable reference_deps memory_app memory_client ''b'' (started empty_bucket) f'"
    using full_demo_reachable [OF r(1)] full_exec_all_sound [OF r(2)] by (rule full_reachable_run)
  from full_answers_earned [OF reference_deps_specs(3) reach] r(3,4) show ?thesis by blast
qed

lemma full_request_steps_bounded_witness:
  "\<exists>f :: bucket fserver. job_request (jobs (base f) 0) = Some small_put \<and>
     length (filter (\<lambda>a. full_actor a = Some 0) full_racing) \<le>
       13 + 4 * size (d_reader_stream (reference_deps :: bucket deps) (req_body small_put))"
proof -
  obtain f where
    r: "full_exec_all reference_deps memory_app memory_client ''b'' full_racing (fserver_init (started empty_bucket)) = Some f"
      "jobs (base f) 0 = Finished small_put (closing (text_response HTTP_OK '''')) Done"
    using full_runs by blast
  have req: "job_request (jobs (base f) 0) = Some small_put" using r(2) by simp
  show ?thesis
    using full_request_steps_bounded [OF reference_deps_specs(3) full_exec_all_sound [OF r(1)] req] req by blast
qed

text \<open>Request 0 is answered first, before the reader 2.\<close>

lemma full_access_log_is_answers_witness:
  "\<exists>(f :: bucket fserver) (f' :: bucket fserver) resp rest. jobs (base f') 2 = Finished ro_get resp rest \<and> status resp = NOT_FOUND \<and>
     (\<exists>ts lines k. distinct ts \<and> access_lines (world (base f')) = access_lines (started empty_bucket) @ lines \<and>
        set ts = {t. \<exists>req resp rest. jobs (base f') t = Finished req resp rest} \<and>
        {t. \<exists>req resp rest. jobs (base f) t = Finished req resp rest} = set (take k ts) \<and>
        access_lines (world (base f)) = access_lines (started empty_bucket) @ take k lines)"
proof -
  obtain f f' resp2 rest2 where
    r: "full_exec_all reference_deps memory_app memory_client ''b'' full_racing (fserver_init (started empty_bucket)) = Some f"
      "full_exec_all reference_deps memory_app memory_client ''b'' full_late f = Some f'"
      "jobs (base f') 2 = Finished ro_get resp2 rest2" "status resp2 = NOT_FOUND"
    using full_runs by blast
  note run = full_exec_all_sound [OF r(1)]
  have whole: "full_run reference_deps memory_app memory_client ''b'' (fserver_init (started empty_bucket)) (full_racing @ full_late) f'"
    using run full_exec_all_sound [OF r(2)] by (rule full_run_append)
  obtain ts lines where log: "distinct ts" "set ts = {t. \<exists>req resp rest. jobs (base f') t = Finished req resp rest}"
      "access_lines (world (base f')) = access_lines (started empty_bucket) @ lines"
    and past: "\<forall>acts1 acts2 f1. full_racing @ full_late = acts1 @ acts2 \<longrightarrow>
      full_run reference_deps memory_app memory_client ''b'' (fserver_init (started empty_bucket)) acts1 f1 \<longrightarrow>
      (\<exists>k. {t. \<exists>req resp rest. jobs (base f1) t = Finished req resp rest} = set (take k ts) \<and>
         access_lines (world (base f1)) = access_lines (started empty_bucket) @ take k lines)"
    using full_access_log_is_answers [OF memory_app_storage whole] by (elim exE conjE)
  from past [rule_format, OF refl run] obtain k where
    "{t. \<exists>req resp rest. jobs (base f) t = Finished req resp rest} = set (take k ts)"
    "access_lines (world (base f)) = access_lines (started empty_bucket) @ take k lines"
    by (elim exE conjE)
  then show ?thesis using r(3,4) log by blast
qed

text \<open>The first reader holds the probe, a second one of the same key waits for it.\<close>

lemma full_requests_progress_witness:
  "\<exists>(f :: bucket fserver) u a f'. jobs (base f) 1 = Active ro_get 0 (Awaiting VALID_HASH) \<and> u \<noteq> 1 \<and>
     (a = Plain (Head_Effect u) \<or> a = Plain (Probe_End u)) \<and>
     full_step reference_deps memory_app memory_client ''b'' f a f'"
proof -
  let ?acts = "[Plain (Arrive 2 ro_get), Plain (Arrive 1 ro_get), Plain (Probe_Start 2)]"
  obtain f where f: "full_exec_all reference_deps memory_app memory_client ''b'' ?acts (fserver_init (started empty_bucket)) = Some f"
    "jobs (base f) 1 = Active ro_get 0 (Awaiting VALID_HASH)" "uploads f 1 = Not_Called"
    "tasks (probes (base f)) 1 = Waiting VALID_HASH 0 0" "present_cell (heap (probes (base f)) ! 0) = None"
    "permit (heap (probes (base f)) ! 0) = Some 2"
    by (simp add: schedule_eval fserver_init_def)
  have "\<not> full_step reference_deps memory_app memory_client ''b'' f a f'"
    if "full_actor a = Some 1" "a \<noteq> Plain (Hang_Up 1)" for a f'
  proof
    assume "full_step reference_deps memory_app memory_client ''b'' f a f'"
    then show False
    proof (cases rule: full_step.cases)
      case (plain a' s)
      then show False using that f(2,4-6) by (cases a') (auto simp: server_exec_iff)
    qed (use that f(2,3) in auto)
  qed
  then show ?thesis
    using full_requests_progress [OF full_demo_reachable [OF f(1)] f(2)] f(2,3) by fastforce
qed

end
