(* ===== verification/Probe_Spacing.thy ===== *)
theory Probe_Spacing
  imports Flight_Facts
begin

text \<open>
  How often a key gets a new slot to probe: a slot made for a caller of \<open>present\<close> (and not
  seeded by \<open>mark_present\<close>) is the key's only one for at least \<open>NEGATIVE_TTL\<close>, the shortest
  lifetime, because a younger slot of the key is live, and live slots are neither replaced
  by callers nor swept.
\<close>

definition slots_of :: "string \<Rightarrow> flight \<Rightarrow> nat set" where
  "slots_of h p = {i. i < length (heap p) \<and> slot_key (heap p ! i) = h}"

lemma finite_slots [simp]: "finite (slots_of h p)"
  by (simp add: slots_of_def)

text \<open>
  Of the slots of a key, \<open>u\<close> were made for callers and \<open>m\<close> were seeded. The last one for a
  caller was made at \<open>L\<close> or before; until it is \<open>NEGATIVE_TTL\<close> old the index has it or a
  newer one.
\<close>

definition spaced :: "string \<Rightarrow> nat \<Rightarrow> nat \<Rightarrow> flight \<Rightarrow> bool" where
  "spaced h u m p \<longleftrightarrow>
     card (slots_of h p) = u + m \<and>
     (u = 0 \<or> (\<exists>L. (u - 1) * NEGATIVE_TTL \<le> L \<and> L \<le> now p \<and>
        (now p < L + NEGATIVE_TTL \<longrightarrow> (\<exists>i. fmlookup (index p) h = Some i \<and> L \<le> created (heap p ! i)))))"

lemma spaced_init: "spaced h 0 0 flight_init"
  by (simp add: spaced_def slots_of_def flight_init_def)

lemma spaced_bound:
  assumes "spaced h u m p"
  shows "u \<le> now p div NEGATIVE_TTL + 1"
proof (cases u)
  case (Suc n)
  then have "n * NEGATIVE_TTL \<le> now p" using assms by (auto simp: spaced_def)
  moreover have "0 < NEGATIVE_TTL" by (simp add: NEGATIVE_TTL_def from_secs_def)
  ultimately show ?thesis using Suc by (simp add: less_eq_div_iff_mult_less_eq)
qed simp

lemma spaced_frame:
  assumes "spaced h u m p" "length (heap p') = length (heap p)" "index p' = index p" "now p \<le> now p'"
    and "\<And>i. slot_key (heap p' ! i) = slot_key (heap p ! i) \<and> created (heap p' ! i) = created (heap p ! i)"
  shows "spaced h u m p'"
proof -
  have "slots_of h p' = slots_of h p" using assms(2,5) by (simp add: slots_of_def)
  then show ?thesis using assms unfolding spaced_def by (metis (no_types, lifting) le_trans less_le_trans linorder_not_less)
qed

lemma young_slot_live:
  assumes "now p < created x + NEGATIVE_TTL"
  shows "live (now p) x"
proof -
  have "0 < NEGATIVE_TTL" by (simp add: NEGATIVE_TTL_def from_secs_def)
  moreover have "NEGATIVE_TTL \<le> ttl v" for v
    by (simp add: ttl_def POSITIVE_TTL_def NEGATIVE_TTL_def UNRESOLVED_TTL_def split: option.split bool.split)
  moreover have "now p - created x < NEGATIVE_TTL" using assms calculation(1) by linarith
  ultimately show ?thesis unfolding live_ttl by (rule_tac less_le_trans)
qed

lemma slots_add_slot:
  "slots_of h (add_slot k cell p) = (if k = h then insert (length (heap p)) (slots_of h p) else slots_of h p)"
  by (auto simp: slots_of_def heap_simps nth_append less_Suc_eq)

lemma spaced_add_slot:
  assumes "spaced h u m p" "\<And>i. fmlookup (index p) h = Some i \<Longrightarrow> i < length (heap p)"
  shows "k \<noteq> h \<Longrightarrow> spaced h u m (add_slot k cell p)"
    and "spaced h u (Suc m) (add_slot h cell p)"
    and "\<not> index_live p h \<Longrightarrow> spaced h (Suc u) m (add_slot h cell p)"
proof -
  have live: "index_live p h" if "fmlookup (index p) h = Some i" "L \<le> created (heap p ! i)" "now p < L + NEGATIVE_TTL" for i L
    using that young_slot_live [of p "heap p ! i"] by (simp add: index_live_def)
  have fresh: "length (heap p) \<notin> slots_of h p" by (simp add: slots_of_def)
  have card: "card (slots_of h (add_slot h cell p)) = Suc (card (slots_of h p))"
    using fresh by (simp add: slots_add_slot)
  show "spaced h u m (add_slot k cell p)" if k: "k \<noteq> h"
  proof -
    have "fmlookup (index (add_slot k cell p)) h = Some i \<and> L \<le> created (heap (add_slot k cell p) ! i)"
      if "fmlookup (index p) h = Some i" "L \<le> created (heap p ! i)" "now p < L + NEGATIVE_TTL" for i L
      using that live [OF that] assms(2) [OF that(1)] k by (simp add: fmlookup_flight_sweep heap_simps nth_append)
    then show ?thesis using assms(1) k unfolding spaced_def by (simp add: slots_add_slot) metis
  qed
  have new: "fmlookup (index (add_slot h cell p)) h = Some (length (heap p))"
    "created (heap (add_slot h cell p) ! length (heap p)) = now p"
    by (simp_all add: heap_simps)
  show "spaced h u (Suc m) (add_slot h cell p)"
    using assms(1) card new unfolding spaced_def by auto
  show "spaced h (Suc u) m (add_slot h cell p)" if dead: "\<not> index_live p h"
  proof -
    have "u * NEGATIVE_TTL \<le> now p"
    proof (cases u)
      case (Suc n)
      then obtain L where L: "n * NEGATIVE_TTL \<le> L" "L \<le> now p"
        "now p < L + NEGATIVE_TTL \<longrightarrow> (\<exists>i. fmlookup (index p) h = Some i \<and> L \<le> created (heap p ! i))"
        using assms(1) by (auto simp: spaced_def)
      have "\<not> now p < L + NEGATIVE_TTL" using L(3) live dead by blast
      then show ?thesis using L(1) Suc by simp
    qed simp
    then show ?thesis
      using assms(1) card new unfolding spaced_def by auto
  qed
qed

lemma update_field:
  assumes "f x = f (xs ! i)"
  shows "f (xs[i := x] ! j) = f (xs ! j)"
proof (cases "i = j \<and> i < length xs")
  case True
  then show ?thesis using assms by simp
next
  case False
  then have "xs[i := x] ! j = xs ! j" by (cases "i < length xs") (simp_all add: not_less list_update_beyond)
  then show ?thesis by simp
qed

lemmas update_keeps = update_field [where f = slot_key] update_field [where f = created]

text \<open>Every step of the cache: \<open>mark_present\<close> of the key counts as seeded.\<close>

lemma spaced_step:
  assumes "flight_step p ev p'" "flight_inv p" "spaced h u m p"
  shows "if ev = Mark h then spaced h u (Suc m) p' else \<exists>u'. spaced h u' m p'"
  using assms
proof (induction rule: flight_step.induct)
  case (tick s d)
  have "spaced h u m (s\<lparr>now := now s + d\<rparr>)" by (rule spaced_frame [OF tick(2)]) simp_all
  then show ?case by auto
next
  case (enter s t k i s1)
  have old: "i < length (heap s)" if "fmlookup (index s) h = Some i" for i
    using flight_invD(1) [OF enter(3) that] by simp
  note add = spaced_add_slot [OF enter(4) old]
  have "\<exists>u'. spaced h u' m s1"
    using enter(2)
  proof (cases rule: flight_slot_cases)
    case shared
    then show ?thesis using enter(4) by blast
  next
    case fresh
    then show ?thesis using add(1) [where k = k and cell = None] add(3) [where cell = None] by (cases "k = h") auto
  qed
  then obtain u' where "spaced h u' m s1" ..
  then have "spaced h u' m (set_task t (Waiting k i (now s)) s1)" by (rule spaced_frame) simp_all
  then show ?case by auto
next
  case (hit s t k i e v)
  have "spaced h u m (set_task t (Answered k e (Ok v) (resolved_at (heap s ! i))) s)"
    by (rule spaced_frame [OF hit(4)]) simp_all
  then show ?case by auto
next
  case (begin_probe s t k i e)
  have "spaced h u m (set_task t (Probing k i e (now s)) (set_permit i (Some t) s))"
    by (rule spaced_frame [OF begin_probe(5)]) (simp_all add: heap_simps update_keeps)
  then show ?case by auto
next
  case (resolve s t k i e b v)
  have "spaced h u m (set_task t (Answered k e (Ok v) (now s)) (resolve_slot i v s))"
    by (rule spaced_frame [OF resolve(3)]) (simp_all add: heap_simps update_keeps)
  then show ?case by auto
next
  case (fail s t k i e b err)
  have "spaced h u m (set_task t (Answered k e (Err err) (now s)) (set_permit i None s))"
    by (rule spaced_frame [OF fail(3)]) (simp_all add: heap_simps update_keeps)
  then show ?case by auto
next
  case (cancel_waiting s t k i e)
  have "spaced h u m (set_task t Idle s)" by (rule spaced_frame [OF cancel_waiting(3)]) simp_all
  then show ?case by auto
next
  case (cancel_probing s t k i e b)
  have "spaced h u m (set_task t Idle (set_permit i None s))"
    by (rule spaced_frame [OF cancel_probing(3)]) (simp_all add: heap_simps update_keeps)
  then show ?case by auto
next
  case (mark s k)
  have old: "i < length (heap s)" if "fmlookup (index s) h = Some i" for i
    using flight_invD(1) [OF mark(1) that] by simp
  note add = spaced_add_slot [OF mark(2) old]
  show ?case using add(1) [where k = k and cell = "Some True"] add(2) [where cell = "Some True"] by (auto simp: flight_mark_def)
qed

end
