(* ===== verification/Probe_Traffic.thy ===== *)
theory Probe_Traffic
  imports Probe_Spacing Full_Progress
begin

text \<open>
  What the existence cache is for: the number of \<open>HeadObject\<close> requests that reach S3. The
  requests for a key are charged to what caused them: to a PUT of the key, to a failure that
  the log shows, to a client that hung up, or to a slot of the cache that they resolve; and
  slots of one key are spaced (\<open>Probe_Spacing\<close>).
\<close>

section \<open>Counting requests\<close>

definition heads :: "string \<Rightarrow> string \<Rightarrow> 's machine \<Rightarrow> nat" where
  "heads b h m = length (filter (\<lambda>c. c = HeadObject b h) (calls m))"

definition failures :: "string \<Rightarrow> 's machine \<Rightarrow> nat" where
  "failures h m = length (filter (s3_failure h) (log m))"

lemma heads_cong: "calls m' = calls m \<Longrightarrow> heads b h m' = heads b h m"
  by (simp add: heads_def)

lemma failures_prefix: "prefix (log m) (log m') \<Longrightarrow> failures h m \<le> failures h m'"
  by (auto simp: failures_def prefix_def)

lemma calls_finish [simp]: "calls (world (finish d t req t0 r rest s)) = calls (world s)"
  by (cases r) (simp_all add: finish_def)

lemma calls_arrive [simp]: "calls (world (arrive d app t req s)) = calls (world s)"
  by (simp add: arrive_def begin_auth_def begin_cache_def begin_get_def begin_put_def Let_def
      split: route_match.split option.split sum.split prod.split)

lemma calls_after [simp]:
  "calls (world (after_present d t req t0 h r s)) = calls (world s)"
  "calls (world (after_retrieve d t req t0 r' s)) = calls (world s)"
  "calls (world (after_check t req t0 h data r s)) = calls (world s)"
  "calls (world (after_store d t req t0 h w rest s)) = calls (world s)"
  by (simp_all add: after_present_def after_retrieve_def after_check_def after_store_def split: sum.split)

lemma exists_heads:
  assumes "s3_exists c b k m = (r, m')"
  shows "heads b h m' = heads b h m + (if k = h then 1 else 0)"
    and "(case r of Err e \<Rightarrow> failures k m' = failures k m + 1 | Ok v \<Rightarrow> log m' = log m)"
    and "prefix (log m) (log m')"
proof -
  obtain hr m1 where s: "send (HeadObject b k) (head_object c b k) m = (hr, m1)" by fastforce
  show "heads b h m' = heads b h m + (if k = h then 1 else 0)"
    using assms s send_calls [OF s]
    by (auto simp: s3_exists_def log_s3_error_def heads_def split: sum.splits if_splits)
  show "(case r of Err e \<Rightarrow> failures k m' = failures k m + 1 | Ok v \<Rightarrow> log m' = log m)"
    using assms s send_log [OF s]
    by (auto simp: s3_exists_def log_s3_error_def failures_def s3_failure_def emit_def split: sum.splits if_splits)
  show "prefix (log m) (log m')" using s3_exists_later [OF assms] by (simp add: later_def)
qed

lemma retrieve_heads: "s3_retrieve c b k m = (r, m') \<Longrightarrow> heads b h m' = heads b h m"
  by (auto simp: s3_retrieve_def log_s3_error_def heads_def split: prod.splits sum.splits if_splits dest!: send_calls)

lemma self_probe_heads:
  "h \<noteq> PROBE_KEY \<Longrightarrow> heads b h (self_probe_once (s3_storage c b) m) = heads b h m"
  "prefix (log m) (log (self_probe_once (s3_storage c b) m))"
proof -
  obtain r m1 where x: "s3_exists c b PROBE_KEY m = (r, m1)" by fastforce
  show "h \<noteq> PROBE_KEY \<Longrightarrow> heads b h (self_probe_once (s3_storage c b) m) = heads b h m"
    using exists_heads(1) [OF x, of h] x by (simp add: self_probe_once_def s3_storage_def Let_def heads_def)
  show "prefix (log m) (log (self_probe_once (s3_storage c b) m))"
    using exists_heads(3) [OF x] x by (simp add: self_probe_once_def s3_storage_def Let_def emit_def prefix_snoc)
qed

text \<open>An upload asks nothing about keys.\<close>

lemma upload_requests_heads: "filter (\<lambda>c. c = HeadObject b h) (upload_requests b' k u pn ps) = []"
  by (induction b' k u pn ps rule: upload_requests.induct) simp_all

lemma advance_heads:
  assumes "store_advance c b k st m = Some (st', m')"
  shows "heads b h m' = heads b h m"
proof (cases st)
  case (Filling data)
  then show ?thesis using assms
    by (auto simp: heads_def split: option.splits sum.splits prod.splits if_splits dest: fill_part_facts)
next
  case (Putting buf rest)
  then show ?thesis using assms put_whole_spec [of c b k buf m]
    by (auto simp: heads_def Let_def split: prod.splits)
next
  case (Creating buf rest n)
  then show ?thesis using assms
    by (auto simp: heads_def log_s3_error_def split: option.splits sum.splits prod.splits dest!: send_calls)
next
  case (Uploading u buf eof data n cs pn)
  obtain r m1 where t: "upload_turn c b k u buf cs pn m = (r, m1)" by fastforce
  have "\<exists>ps. calls m1 = calls m @ upload_requests b k u pn ps"
  proof (cases r)
    case (Inl e)
    then show ?thesis using upload_turn_fail(4) t by blast
  next
    case (Inr x)
    then show ?thesis using upload_turn_ok(2) t by (cases x) blast
  qed
  then have "heads b h m1 = heads b h m" using upload_requests_heads [of b h b k u pn] by (auto simp: heads_def)
  then show ?thesis using assms Uploading t by (auto split: sum.splits prod.splits)
next
  case (Refilling u data n cs pn)
  then show ?thesis using assms
    by (auto simp: heads_def split: option.splits sum.splits prod.splits if_splits dest: fill_part_facts)
next
  case (Aborting u e rest)
  then show ?thesis using assms abort_upload_spec [of m c b k u] by (auto simp: heads_def)
next
  case (Completing u cs rest)
  then show ?thesis using assms complete_upload_spec [of c b k u cs m]
    by (auto simp: heads_def Let_def split: prod.splits)
next
  case (Returned r rest u)
  then show ?thesis using assms by simp
qed

section \<open>Who pays\<close>

text \<open>PUTs of the key past their check, GETs of it whose client hung up.\<close>

definition checked_puts :: "'s deps \<Rightarrow> 's app_state \<Rightarrow> string \<Rightarrow> 's cserver \<Rightarrow> nat set" where
  "checked_puts d app h s =
     {t. \<exists>put. job_request (jobs s t) = Some put \<and> put_request d app put h \<and>
        (\<forall>t0 data. jobs s t \<noteq> Active put t0 (Checking h data))}"

definition hung_gets :: "'s deps \<Rightarrow> 's app_state \<Rightarrow> string \<Rightarrow> 's cserver \<Rightarrow> nat set" where
  "hung_gets d app h s = {t. \<exists>get. jobs s t = Gone get \<and> get_request d app get h}"

text \<open>Slots of the key that are resolved, or whose probe has its answer.\<close>

fun headed :: "string \<Rightarrow> job \<Rightarrow> bool" where
  "headed h (Active req t0 (Headed h' (Inr v))) \<longleftrightarrow> h' = h"
| "headed h _ \<longleftrightarrow> False"

definition used :: "string \<Rightarrow> 's cserver \<Rightarrow> nat set" where
  "used h s =
     {i \<in> slots_of h (probes s). present_cell (heap (probes s) ! i) \<noteq> None \<or>
        (\<exists>t. permit (heap (probes s) ! i) = Some t \<and> headed h (jobs s t))}"

definition charged :: "'s deps \<Rightarrow> 's app_state \<Rightarrow> string \<Rightarrow> 's cserver \<Rightarrow> nat" where
  "charged d app h s = card (checked_puts d app h s) + card (hung_gets d app h s) + failures h (world s)"

definition few_jobs :: "'s cserver \<Rightarrow> bool" where
  "few_jobs s \<longleftrightarrow> finite {t. jobs s t \<noteq> Unused}"

lemma few_jobs_update: "few_jobs s \<Longrightarrow> jobs s' = (jobs s)(t := j) \<Longrightarrow> few_jobs s'"
  unfolding few_jobs_def by (rule finite_subset [of _ "insert t {t. jobs s t \<noteq> Unused}"]) auto

lemma few_jobs_finite:
  assumes "few_jobs s"
  shows "finite (checked_puts d app h s)" "finite (hung_gets d app h s)"
  using assms unfolding few_jobs_def by (auto simp: checked_puts_def hung_gets_def elim!: rev_finite_subset)

lemma finite_used [simp]: "finite (used h s)"
  unfolding used_def using finite_slots by simp

lemma charged_mono:
  assumes "few_jobs s'" "checked_puts d app h s \<subseteq> checked_puts d app h s'" "hung_gets d app h s \<subseteq> hung_gets d app h s'"
    and "prefix (log (world s)) (log (world s'))"
  shows "charged d app h s \<le> charged d app h s'"
  using assms card_mono [OF few_jobs_finite(1)] card_mono [OF few_jobs_finite(2)] failures_prefix
  unfolding charged_def by (meson add_mono)

text \<open>A request goes on: what it has been charged for stays.\<close>

fun goes_on :: "job \<Rightarrow> job \<Rightarrow> bool" where
  "goes_on Unused j \<longleftrightarrow> True"
| "goes_on (Active req t0 st) j \<longleftrightarrow>
     job_request j = Some req \<and> (\<forall>t0 h data. j \<noteq> Active req t0 (Checking h data))"
| "goes_on _ j \<longleftrightarrow> False"

lemma requests_update:
  assumes "jobs s' = (jobs s)(t := j)" "goes_on (jobs s t) j"
  shows "checked_puts d app h s \<subseteq> checked_puts d app h s'" "hung_gets d app h s \<subseteq> hung_gets d app h s'"
proof -
  have "u \<in> checked_puts d app h s'" if "u \<in> checked_puts d app h s" for u
    using that assms by (cases "u = t"; cases "jobs s t") (auto simp: checked_puts_def)
  then show "checked_puts d app h s \<subseteq> checked_puts d app h s'" by blast
  have "u \<in> hung_gets d app h s'" if "u \<in> hung_gets d app h s" for u
    using that assms by (cases "u = t"; cases "jobs s t") (auto simp: hung_gets_def)
  then show "hung_gets d app h s \<subseteq> hung_gets d app h s'" by blast
qed

section \<open>Slots that are used\<close>

lemma flight_step_permit:
  assumes "flight_step p ev p'" "flight_inv p" "i < length (heap p)" "permit (heap p ! i) = Some t"
    and "tasks p' t = tasks p t"
  shows "permit (heap p' ! i) = Some t"
  using assms
proof (induction rule: flight_step.induct)
  case (enter s u k j s1)
  from enter(2) show ?case
    by (cases rule: flight_slot_cases) (use enter(4,5) in \<open>simp_all add: heap_simps nth_append\<close>)
next
  case (mark s k)
  then show ?case by (simp add: flight_mark_def heap_simps nth_append)
next
  case (begin_probe s u k j e)
  then show ?case by (cases "i = j") (simp_all add: heap_simps)
next
  case (resolve s u k j e b v)
  then show ?case using permit_uninit [OF resolve(2,1)] by (cases "i = j") (auto simp: heap_simps split: if_splits)
next
  case (fail s u k j e b err)
  then show ?case using permit_uninit [OF fail(2,1)] by (cases "i = j") (auto simp: heap_simps split: if_splits)
next
  case (cancel_probing s u k j e b)
  then show ?case using permit_uninit [OF cancel_probing(2,1)] by (cases "i = j") (auto simp: heap_simps split: if_splits)
qed simp_all

lemma used_mono:
  assumes inv: "flight_inv (probes s)"
    and step: "probes s' = probes s \<or> (\<exists>ev. flight_step (probes s) ev (probes s'))"
    and keeps: "\<And>u i. headed h (jobs s u) \<Longrightarrow> permit (heap (probes s) ! i) = Some u \<Longrightarrow> i < length (heap (probes s)) \<Longrightarrow>
      jobs s' u = jobs s u \<and> tasks (probes s') u = tasks (probes s) u \<or> present_cell (heap (probes s') ! i) \<noteq> None"
  shows "used h s \<subseteq> used h s'"
proof
  fix i assume "i \<in> used h s"
  then have i: "i < length (heap (probes s))" "slot_key (heap (probes s) ! i) = h"
    and u: "present_cell (heap (probes s) ! i) \<noteq> None \<or>
      (\<exists>t. permit (heap (probes s) ! i) = Some t \<and> headed h (jobs s t))"
    by (auto simp: used_def slots_of_def)
  from step show "i \<in> used h s'"
  proof
    assume same: "probes s' = probes s"
    then show ?thesis using i u keeps by (fastforce simp: used_def slots_of_def)
  next
    assume "\<exists>ev. flight_step (probes s) ev (probes s')"
    then obtain ev where ev: "flight_step (probes s) ev (probes s')" ..
    have slot: "i \<in> slots_of h (probes s')" using flight_step_old_slot [OF ev i(1)] i(2) by (simp add: slots_of_def)
    from u show ?thesis
    proof
      assume "present_cell (heap (probes s) ! i) \<noteq> None"
      then show ?thesis using flight_step_old_cell [OF ev inv i(1)] slot by (auto simp: used_def)
    next
      assume "\<exists>t. permit (heap (probes s) ! i) = Some t \<and> headed h (jobs s t)"
      then obtain t where t: "permit (heap (probes s) ! i) = Some t" "headed h (jobs s t)" by blast
      from keeps [OF t(2,1) i(1)] show ?thesis
      proof
        assume "jobs s' t = jobs s t \<and> tasks (probes s') t = tasks (probes s) t"
        then show ?thesis using flight_step_permit [OF ev inv i(1) t(1)] slot t(2) by (auto simp: used_def)
      qed (use slot in \<open>simp add: used_def\<close>)
    qed
  qed
qed

section \<open>Every step is paid\<close>

lemma few_jobs_step:
  assumes "axum_response_spec d" "server_step d app s a s'" "few_jobs s"
  shows "few_jobs s'"
proof -
  have "jobs s' u = jobs s u" if "actor a \<noteq> Some u" for u
    using server_step_other [OF assms(1,2) that] by simp
  then have "{t. jobs s' t \<noteq> Unused} \<subseteq> {t. actor a = Some t} \<union> {t. jobs s t \<noteq> Unused}" by auto
  moreover have "finite {t. actor a = Some t}" by (cases "actor a") auto
  ultimately show ?thesis using assms(3) unfolding few_jobs_def by (meson finite_UnI finite_subset)
qed

lemma s3_log_step:
  assumes "storage app = s3_storage c b" "server_step d app s a s'" "\<not> whole_upload a"
  shows "prefix (log (world s)) (log (world s'))"
  using assms(2,3)
proof (induction rule: server_step.induct)
  case (arrive s t req)
  then show ?case using log_arrive by blast
next
  case (head_effect s t req t0 h i e b r m)
  then show ?case using s3.exists_later [of _ _ h "machine_now s" r m] assms(1) by (simp add: later_def)
next
  case (get_effect s t req t0 h r' m)
  then show ?case using s3.retrieve_later [of _ _ h "machine_now s" r' m] assms(1) by (simp add: later_def)
next
  case (check_effect s t req t0 h data r m)
  then show ?case using s3.exists_later [of _ _ h "machine_now s" r m] assms(1) by (simp add: later_def)
next
  case (self_check s)
  then show ?case using self_probe_heads(2) [of "machine_now s"] assms(1) by simp
next
  case (cell_hit s t req t0 h i e v)
  then show ?case using log_after(1) [of "s\<lparr>probes := p\<rparr>" for p] by simp
next
  case (probe_end s t req t0 h v i e b)
  then show ?case using log_after(1) [of "s\<lparr>probes := p\<rparr>" for p] by simp
next
  case (probe_fail s t req t0 h err i e b)
  then show ?case using log_after(1) [of "s\<lparr>probes := p\<rparr>" for p] by simp
qed (simp_all add: log_after log_finish)

lemma permit_owner:
  assumes "flight_inv p" "tasks p t = Probing k i e b" "j < length (heap p)" "permit (heap p ! j) = Some t"
  shows "j = i"
  using flight_invD(3) [OF assms(1,3)] assms(2,4) by (auto simp: slot_ok_def)

lemma head_account:
  assumes app: "storage app = s3_storage c b" and spec: "axum_response_spec d" and h: "h \<noteq> PROBE_KEY"
    and step: "server_step d app s a s'" and a: "\<not> whole_upload a"
    and inv: "flight_inv (probes s)" "linked s" "jobs_ok d app s" "few_jobs s"
  obtains
    (paid) "heads b h (world s') + charged d app h s \<le> heads b h (world s) + charged d app h s'"
      "used h s \<subseteq> used h s'"
  | (answered) i where "heads b h (world s') \<le> heads b h (world s) + 1" "charged d app h s \<le> charged d app h s'"
      "used h s \<subseteq> used h s'" "i \<in> used h s'" "i \<notin> used h s" "probes s' = probes s"
  | (hung) i where "heads b h (world s') = heads b h (world s)" "charged d app h s + 1 \<le> charged d app h s'"
      "used h s \<subseteq> insert i (used h s')" "length (heap (probes s')) = length (heap (probes s))"
proof -
  note pr = server_step_probes [OF step inv(2)]
  note few = few_jobs_step [OF spec step inv(4)]
  note lg = s3_log_step [OF app step a]
  note other = server_step_other [OF spec step]
  have charged: "charged d app h s \<le> charged d app h s'"
    if "jobs s' = (jobs s)(t := j)" "goes_on (jobs s t) j" for t j
    by (rule charged_mono [OF few requests_update [OF that] lg])
  have used: "used h s \<subseteq> used h s'" if "actor a = Some t" "\<not> headed h (jobs s t)" for t
    using other that by (intro used_mono [OF inv(1) pr]) (metis option.inject)
  have go_on: thesis
    if "jobs s' = (jobs s)(t := j)" "goes_on (jobs s t) j" "heads b h (world s') = heads b h (world s)"
      "actor a = Some t" "\<not> headed h (jobs s t)" for t j
    using paid charged [OF that(1,2)] used [OF that(4,5)] that(3) by simp
  have still: thesis if "jobs s' = jobs s" "actor a = None" "heads b h (world s') = heads b h (world s)"
  proof -
    have "used h s \<subseteq> used h s'" using other that(2) by (intro used_mono [OF inv(1) pr]) simp
    moreover have "charged d app h s \<le> charged d app h s'"
      by (rule charged_mono [OF few _ _ lg]) (simp_all add: checked_puts_def hung_gets_def that(1))
    ultimately show ?thesis using paid that(3) by simp
  qed
  have present: thesis
    if "s' = after_present d t req t0 h' r (s\<lparr>probes := p\<rparr>)" "actor a = Some t" "jobs s t = Active req t0 st"
      "\<not> headed h (jobs s t)" for t req t0 h' r p st
  proof (rule go_on)
    show "jobs s' = (jobs s)(t := if unwrap_or False r then Active req t0 (Reading h')
        else Finished req (closing (response_of (Err (Storage NotFound)))) (req_body req))"
      using that(1) by (simp add: jobs_after)
  qed (use that in \<open>auto simp: heads_def\<close>)
  from step show ?thesis
  proof (cases rule: server_step.cases)
    case (pass delay)
    then show ?thesis by (intro still) simp_all
  next
    case (arrive t req)
    obtain j where "jobs (arrive d app t req s) = (jobs s)(t := j)" by (rule jobs_arrive [OF spec, of app t req s])
    then show ?thesis using arrive by (intro go_on [where t = t and j = j]) (simp_all add: heads_def)
  next
    case (cell_hit t req t0 h' i e v)
    then show ?thesis by (intro present [OF cell_hit(2)]) simp_all
  next
    case (probe_start t req t0 h' i e)
    then show ?thesis by (intro go_on [where t = t and j = "jobs s t"]) (simp_all add: fun_upd_idem)
  next
    case (head_effect t req t0 h' i e b' r m)
    have x: "s3_exists c b h' (machine_now s) = (r, m)" using head_effect(5) app by (simp add: s3_storage_def)
    note m = exists_heads [OF x]
    have jobs: "jobs s' = (jobs s)(t := Active req t0 (Headed h' r))" "goes_on (jobs s t) (Active req t0 (Headed h' r))"
      "\<not> headed h (jobs s t)"
      using head_effect(2,3) by simp_all
    note p = permit_uninit [OF inv(1) head_effect(4)]
    show ?thesis
    proof (cases "h' = h")
      case False
      then show ?thesis using m(1) [of h] head_effect(1,2) jobs by (intro go_on [OF jobs(1,2)]) (simp_all add: heads_def)
    next
      case True
      have one: "heads b h (world s') = heads b h (world s) + 1"
        using m(1) [of h] True head_effect(2) by (simp add: heads_def)
      show ?thesis
      proof (cases r)
        case (Inl err)
        then have f: "failures h (world s') = failures h (world s) + 1"
          using m(2) True head_effect(2) by (simp add: failures_def)
        have "card (checked_puts d app h s) \<le> card (checked_puts d app h s')"
          "card (hung_gets d app h s) \<le> card (hung_gets d app h s')"
          using requests_update [OF jobs(1,2), of d app h] few_jobs_finite [OF few] by (simp_all add: card_mono)
        then show ?thesis using one f used [of t] jobs(3) head_effect(1)
          by (intro paid) (simp_all add: charged_def)
      next
        case (Inr v)
        show ?thesis
        proof (rule answered)
          show "i \<in> used h s'" using p True Inr head_effect(2) by (auto simp: used_def slots_of_def)
          show "i \<notin> used h s" using p head_effect(3) by (simp add: used_def)
        qed (use one charged [OF jobs(1,2)] used [of t] jobs(3) head_effect(1,2) in simp_all)
      qed
    qed
  next
    case (probe_end t req t0 h' v i e b')
    have j: "jobs s' = (jobs s)(t := if unwrap_or False (Ok v) then Active req t0 (Reading h')
        else Finished req (closing (response_of (Err (Storage NotFound)))) (req_body req))"
      unfolding probe_end(2) by (simp add: jobs_after)
    have "used h s \<subseteq> used h s'"
    proof (rule used_mono [OF inv(1) pr])
      fix u j assume u: "headed h (jobs s u)" "permit (heap (probes s) ! j) = Some u" "j < length (heap (probes s))"
      show "jobs s' u = jobs s u \<and> tasks (probes s') u = tasks (probes s) u \<or> present_cell (heap (probes s') ! j) \<noteq> None"
      proof (cases "u = t")
        case True
        then have "j = i" using permit_owner [OF inv(1) probe_end(4) u(3)] u(2) by simp
        then show ?thesis using u(3) by (simp add: probe_end(2) heap_simps)
      next
        case False
        then show ?thesis using other [of u] probe_end(1) by simp
      qed
    qed
    then show ?thesis using charged [OF j] probe_end(3) by (intro paid) (simp_all add: probe_end(2) heads_def)
  next
    case (probe_fail t req t0 h' err i e b')
    then show ?thesis by (intro present [OF probe_fail(2)]) simp_all
  next
    case (get_effect t req t0 h' r' m)
    then have "s3_retrieve c b h' (machine_now s) = (r', m)" using app by (simp add: s3_storage_def)
    from retrieve_heads [OF this, of h] show ?thesis
      using get_effect by (intro go_on [where t = t and j = "Active req t0 (Was_Read h' r')"]) (simp_all add: heads_def)
  next
    case (get_end t req t0 h' r')
    show ?thesis using get_end(1,3)
      by (intro go_on [unfolded get_end(2), OF jobs_after(2)]) (simp_all add: heads_def)
  next
    case (check_effect t req t0 h' data r m)
    have x: "s3_exists c b h' (machine_now s) = (r, m)" using check_effect(4) app by (simp add: s3_storage_def)
    have jobs: "jobs s' = (jobs s)(t := Active req t0 (Checked h' data r))"
      "goes_on (jobs s t) (Active req t0 (Checked h' data r))" "\<not> headed h (jobs s t)"
      using check_effect(2,3) by simp_all
    show ?thesis
    proof (cases "h' = h")
      case False
      then show ?thesis using exists_heads(1) [OF x, of h] check_effect(1,2) jobs
        by (intro go_on [OF jobs(1,2)]) (simp_all add: heads_def)
    next
      case True
      have "put_request d app req h" using jobs_okD [OF inv(3) check_effect(3)] True by simp
      then have "t \<in> checked_puts d app h s'" "t \<notin> checked_puts d app h s"
        using jobs(1) check_effect(3) True by (auto simp: checked_puts_def)
      then have "card (checked_puts d app h s) < card (checked_puts d app h s')"
        using requests_update(1) [OF jobs(1,2), of d app h] few_jobs_finite(1) [OF few]
        by (intro psubset_card_mono) blast+
      moreover have "card (hung_gets d app h s) \<le> card (hung_gets d app h s')"
        using requests_update(2) [OF jobs(1,2), of d app h] few_jobs_finite(2) [OF few] by (simp add: card_mono)
      moreover have "heads b h (world s') = heads b h (world s) + 1"
        using exists_heads(1) [OF x, of h] True check_effect(2) by (simp add: heads_def)
      ultimately show ?thesis using failures_prefix [OF lg, of h] used [of t] jobs(3) check_effect(1)
        by (intro paid) (simp_all add: charged_def)
    qed
  next
    case (check_end t req t0 h' data r)
    obtain j where j: "jobs s' = (jobs s)(t := j)" "goes_on (jobs s t) j"
      unfolding check_end(2,3) by (rule jobs_after_check [of r t req t0 h' data s]) fastforce+
    then show ?thesis using check_end(1,3) by (intro go_on [OF j]) (simp_all add: check_end(2) heads_def)
  next
    case (put_effect t req t0 h' data st rest m)
    then show ?thesis using a by simp
  next
    case (put_end t req t0 h' st rest)
    obtain j where j: "jobs s' = (jobs s)(t := j)" "goes_on (jobs s t) j"
      unfolding put_end(2,3) by (rule jobs_after_store [of st d t req t0 h' rest s]) fastforce+
    then show ?thesis using put_end(1,3) by (intro go_on [OF j]) (simp_all add: put_end(2) heads_def)
  next
    case (drain_end t req t0 res rest deadline)
    then show ?thesis
      by (intro go_on [where t = t and j = "Finished req (closing (response_of res)) rest"]) (simp_all add: heads_def)
  next
    case (hang_up t req t0 sg)
    have jobs: "jobs s' = (jobs s)(t := Gone req)" "goes_on (jobs s t) (Gone req)" using hang_up(2,3) by simp_all
    have same: "heads b h (world s') = heads b h (world s)" using hang_up(2) by simp
    show ?thesis
    proof (cases "headed h (jobs s t)")
      case False
      then show ?thesis using go_on [OF jobs same] hang_up(1) by simp
    next
      case True
      then obtain v where sg: "sg = Headed h (Ok v)" using hang_up(3) by (cases "(h, jobs s t)" rule: headed.cases) auto
      obtain i e b' where t: "tasks (probes s) t = Probing h i e b'"
        using linkedD [OF inv(2) hang_up(3)] sg by auto
      have p': "probes s' = set_task t Idle (set_permit i None (probes s))"
        using hang_up(2) t by (simp add: drop_task_def)
      show ?thesis
      proof (rule hung)
        have "get_request d app req h" using jobs_okD [OF inv(3) hang_up(3)] sg by simp
        then have "t \<in> hung_gets d app h s'" "t \<notin> hung_gets d app h s"
          using jobs(1) hang_up(3) by (auto simp: hung_gets_def)
        then have "card (hung_gets d app h s) < card (hung_gets d app h s')"
          using requests_update(2) [OF jobs, of d app h] few_jobs_finite(2) [OF few]
          by (intro psubset_card_mono) blast+
        moreover have "card (checked_puts d app h s) \<le> card (checked_puts d app h s')"
          using requests_update(1) [OF jobs, of d app h] few_jobs_finite(1) [OF few] by (simp add: card_mono)
        ultimately show "charged d app h s + 1 \<le> charged d app h s'"
          using failures_prefix [OF lg, of h] by (simp add: charged_def)
        show "used h s \<subseteq> insert i (used h s')"
        proof
          fix j assume j: "j \<in> used h s"
          show "j \<in> insert i (used h s')"
          proof (cases "j = i")
            case False
            then have slot: "heap (probes s') ! j = heap (probes s) ! j" by (simp add: p' heap_simps)
            have "u \<noteq> t" if "permit (heap (probes s) ! j) = Some u" for u
              using permit_owner [OF inv(1) t, of j] that False j by (auto simp: used_def slots_of_def)
            then show ?thesis using j slot jobs(1) by (auto simp: used_def slots_of_def p' heap_simps)
          qed simp
        qed
        show "length (heap (probes s')) = length (heap (probes s))" by (simp add: p' heap_simps)
      qed (rule same)
    qed
  next
    case self_check
    then show ?thesis using app self_probe_heads(1) [OF h, where c = c and b = b and m = "machine_now s"]
      by (intro still) (simp_all add: heads_def)
  qed
qed

section \<open>The whole server\<close>

definition traffic ::
  "'s deps \<Rightarrow> 's app_state \<Rightarrow> string \<Rightarrow> string \<Rightarrow> nat \<Rightarrow> 's cserver \<Rightarrow> bool" where
  "traffic d app b h n s \<longleftrightarrow>
     few_jobs s \<and>
     (\<exists>u m. spaced h u m (probes s) \<and> heads b h (world s) + m \<le> n + charged d app h s + card (used h s))"

lemma used_seeded:
  assumes "probes s' = flight_mark h (probes s)" "used h s \<subseteq> used h s'"
  shows "card (used h s) + 1 \<le> card (used h s')"
proof -
  let ?i = "length (heap (probes s))"
  have "?i \<in> used h s'" using assms(1) by (auto simp: used_def slots_of_def flight_mark_def heap_simps)
  moreover have "?i \<notin> used h s" by (simp add: used_def slots_of_def)
  ultimately have "card (used h s) < card (used h s')" using assms(2) by (intro psubset_card_mono) auto
  then show ?thesis by simp
qed

lemma traffic_plain:
  assumes app: "storage app = s3_storage c b" and spec: "axum_response_spec d" and h: "h \<noteq> PROBE_KEY"
    and step: "server_step d app s a s'" and a: "\<not> whole_upload a"
    and inv: "flight_inv (probes s)" "linked s" "jobs_ok d app s" and traffic: "traffic d app b h n s"
  shows "traffic d app b h n s'"
proof -
  obtain u m where few: "few_jobs s" and sp: "spaced h u m (probes s)"
    and le: "heads b h (world s) + m \<le> n + charged d app h s + card (used h s)"
    using traffic by (auto simp: traffic_def)
  obtain u' m' where sp': "spaced h u' m' (probes s')"
    and m': "m' = m \<or> m' = Suc m \<and> probes s' = flight_mark h (probes s)"
  proof (cases "probes s' = probes s")
    case True
    then show ?thesis using that sp by simp
  next
    case False
    then obtain ev where ev: "flight_step (probes s) ev (probes s')" using server_step_probes [OF step inv(2)] by blast
    have "probes s' = flight_mark h (probes s)" if "ev = Mark h"
      using ev that by (simp add: flight_step_simps)
    then show ?thesis using spaced_step [OF ev inv(1) sp] that by (auto split: if_splits)
  qed
  have grown: "length (heap (probes s')) = Suc (length (heap (probes s)))" if "probes s' = flight_mark h (probes s)"
    using that by (simp add: flight_mark_def heap_simps)
  have "heads b h (world s') + m' \<le> n + charged d app h s' + card (used h s')"
    using app spec h step a inv few
  proof (cases rule: head_account)
    case paid
    then have "card (used h s) \<le> card (used h s')" by (simp add: card_mono)
    then show ?thesis using paid le m' used_seeded [of s' h s] by auto
  next
    case (answered i)
    have "card (used h s) < card (used h s')" using answered(3-5) by (intro psubset_card_mono) auto
    then show ?thesis using answered(1,2,6) le m' grown by auto
  next
    case (hung i)
    have "card (used h s) \<le> card (insert i (used h s'))" using hung(3) by (simp add: card_mono)
    also have "\<dots> \<le> card (used h s') + 1" by (simp add: card_insert_if)
    finally show ?thesis using hung(1,2,4) le m' grown by auto
  qed
  then show ?thesis using sp' few_jobs_step [OF spec step few] by (auto simp: traffic_def)
qed

lemma traffic_upload:
  assumes "traffic d app b h n s" "probes s' = probes s" "heads b h (world s') = heads b h (world s)"
    and "prefix (log (world s)) (log (world s'))"
    and "jobs s' = jobs s \<or> (\<exists>t req t0 k data r rest. jobs s t = Active req t0 (Writing k data) \<and>
       jobs s' = (jobs s)(t := Active req t0 (Written k r rest)))"
  shows "traffic d app b h n s'"
proof -
  have "few_jobs s" using assms(1) by (simp add: traffic_def)
  then have few: "few_jobs s'" using assms(5) few_jobs_update [of s s'] by (auto simp: few_jobs_def)
  have "checked_puts d app h s \<subseteq> checked_puts d app h s' \<and> hung_gets d app h s \<subseteq> hung_gets d app h s' \<and>
      used h s = used h s'"
    using assms(5)
  proof
    assume "jobs s' = jobs s"
    then show ?thesis using assms(2) by (simp add: checked_puts_def hung_gets_def used_def)
  next
    assume "\<exists>t req t0 k data r rest. jobs s t = Active req t0 (Writing k data) \<and>
       jobs s' = (jobs s)(t := Active req t0 (Written k r rest))"
    then obtain t req t0 k data r rest where t: "jobs s t = Active req t0 (Writing k data)"
      "jobs s' = (jobs s)(t := Active req t0 (Written k r rest))" by blast
    have "headed h (jobs s' u) = headed h (jobs s u)" for u using t by simp
    moreover have "goes_on (jobs s t) (Active req t0 (Written k r rest))" using t(1) by simp
    ultimately show ?thesis using requests_update [OF t(2)] assms(2) by (simp add: used_def)
  qed
  then have "charged d app h s \<le> charged d app h s'" "used h s = used h s'"
    using charged_mono [OF few _ _ assms(4)] by blast+
  then show ?thesis using assms(1-3) few by (fastforce simp: traffic_def)
qed

lemma traffic_step:
  assumes app: "storage app = s3_storage c b" and spec: "axum_response_spec d" and h: "h \<noteq> PROBE_KEY"
    and step: "full_step d app c b f a f'" and inv: "full_basic f" "full_typed d app f"
    and traffic: "traffic d app b h n (base f)"
  shows "traffic d app b h n (base f')"
  using step
proof (cases rule: full_step.cases)
  case (plain a' s)
  then show ?thesis
    using traffic_plain [OF app spec h plain(3,4) _ _ _ traffic] inv by (simp add: full_basic_def full_typed_def)
next
  case (upload_call t req t0 k data)
  then show ?thesis using traffic by simp
next
  case (upload_step t req t0 k data k' stream st st' m)
  have "store_call (uploads f t) = Some (k', stream)" using upload_step(4) by simp
  then obtain put where "job_request (jobs (base f) t) = Some put" "put_request d app put k'"
    using authorisedD inv(2) unfolding full_typed_def by metis
  moreover have "put_request d app req k" using inv(2) upload_step(3) jobs_okD unfolding full_typed_def by fastforce
  ultimately have k: "k' = k" using upload_step(3) put_request_unique by fastforce
  have "heads b h m = heads b h (machine_now (base f))" by (rule advance_heads [OF upload_step(5)])
  moreover have "prefix (log (world (base f))) (log m)" using advance_later [OF upload_step(5)] by (simp add: later_def)
  moreover have "jobs (base f') = jobs (base f) \<or>
      (\<exists>r rest. jobs (base f') = (jobs (base f))(t := Active req t0 (Written k r rest)))"
    using upload_step(2) k by (cases st') (simp_all add: upload_to_jobs, blast)
  ultimately show ?thesis
    using upload_step(2,3) by (intro traffic_upload [OF traffic]) (simp_all add: heads_def, blast)
next
  case (upload_late t k stream st st' m)
  have "heads b h m = heads b h (machine_now (base f))" by (rule advance_heads [OF upload_late(4)])
  then show ?thesis using upload_late(2) by (intro traffic_upload [OF traffic]) (simp_all add: heads_def)
qed

lemma full_reachable_traffic:
  assumes "storage app = s3_storage c b" "axum_response_spec d" "full_reachable d app c b m f" "h \<noteq> PROBE_KEY"
  shows "traffic d app b h (heads b h m) (base f)"
proof -
  let ?P = "\<lambda>f. full_basic f \<and> full_typed d app f \<and> traffic d app b h (heads b h m) (base f)"
  obtain acts where run: "full_run d app c b (fserver_init m) acts f"
    using assms(3) unfolding full_reachable_def by blast
  have init: "full_reachable d app c b m (fserver_init m)"
    unfolding full_reachable_def using full_done by blast
  have "few_jobs (base (fserver_init m))" by (simp add: few_jobs_def fserver_init_def cserver_init_def)
  moreover have "spaced h 0 0 (probes (base (fserver_init m)))"
    using spaced_init by (simp add: fserver_init_def cserver_init_def)
  ultimately have "traffic d app b h (heads b h m) (base (fserver_init m))"
    unfolding traffic_def by (intro conjI exI [of _ 0]) (simp_all add: fserver_init_def cserver_init_def)
  then have "?P (fserver_init m)"
    using full_reachable_basic [OF init] full_reachable_typed [OF assms(2) init] by simp
  with run have "?P f"
    by (rule full_run_inv [where P = ?P])
      (use full_basic_step full_typed_step [OF assms(2)] traffic_step [OF assms(1,2,4)] in blast)
  then show ?thesis by blast
qed

lemma traffic_bound:
  assumes "traffic d app b h n s"
  shows "heads b h (world s) \<le> n + now (probes s) div NEGATIVE_TTL + 1 + charged d app h s"
proof -
  obtain u m where sp: "spaced h u m (probes s)"
    and le: "heads b h (world s) + m \<le> n + charged d app h s + card (used h s)"
    using assms by (auto simp: traffic_def)
  have "used h s \<subseteq> slots_of h (probes s)" by (auto simp: used_def)
  then have "card (used h s) \<le> u + m" using sp card_mono [OF finite_slots] unfolding spaced_def by metis
  then show ?thesis using le spaced_bound [OF sp] by simp
qed

end
