(* ===== verification/Traffic_Properties.thy ===== *)
theory Traffic_Properties
  imports Probe_Traffic Full_Properties
begin

text \<open>The bound on the \<open>HeadObject\<close> requests of \<open>Probe_Traffic\<close>, as a property of the whole server.\<close>

text \<open>C23: the existence cache bounds the requests for existence. In every run of the whole server,
  however many GETs of a key arrive and however they interleave, the \<open>HeadObject\<close> requests of
  the key that reach S3 are at most one for each 5 s that have passed and one more, one for
  each PUT of the key, one for each GET of it whose client hung up, and one for each of them
  that failed. A GET that is answered costs nothing of its own.\<close>

theorem head_requests_bounded:
  assumes "storage app = s3_storage c b" "axum_response_spec d" "full_reachable d app c b m f" "h \<noteq> PROBE_KEY"
  shows "heads b h (world (base f)) \<le> heads b h m + now (probes (base f)) div NEGATIVE_TTL + 1 +
    card {t. \<exists>put. job_request (jobs (base f) t) = Some put \<and> put_request d app put h} +
    card {t. \<exists>get. jobs (base f) t = Gone get \<and> get_request d app get h} + failures h (world (base f))"
proof -
  let ?puts = "{t. \<exists>put. job_request (jobs (base f) t) = Some put \<and> put_request d app put h}"
  note traffic = full_reachable_traffic [OF assms]
  have "finite {t. jobs (base f) t \<noteq> Unused}" using traffic by (simp add: traffic_def few_jobs_def)
  then have "finite ?puts" by (rule rev_finite_subset) auto
  then have "card (checked_puts d app h (base f)) \<le> card ?puts" by (rule card_mono) (auto simp: checked_puts_def)
  then show ?thesis using traffic_bound [OF traffic] by (simp add: charged_def hung_gets_def)
qed

text \<open>Three GETs of an absent key at once: one request.\<close>

definition get_burst :: "full_action list" where
  "get_burst =
     [Plain (Arrive 1 ro_get), Plain (Arrive 2 ro_get), Plain (Arrive 3 ro_get), Plain (Probe_Start 1),
      Plain (Head_Effect 1), Plain (Probe_End 1), Plain (Cell_Hit 2), Plain (Cell_Hit 3)]"

lemma get_burst_result:
  "\<exists>f. full_exec_all reference_deps memory_app memory_client ''b'' get_burst (fserver_init (started empty_bucket)) = Some f \<and>
     (\<exists>resp rest. jobs (base f) 3 = Finished ro_get resp rest \<and> status resp = NOT_FOUND) \<and>
     heads ''b'' VALID_HASH (world (base f)) = 1 \<and> failures VALID_HASH (world (base f)) = 0 \<and>
     now (probes (base f)) = 0 \<and>
     (\<forall>t. jobs (base f) t = Unused \<or> (\<exists>resp rest. jobs (base f) t = Finished ro_get resp rest))"
  by (simp add: get_burst_def fserver_init_def schedule_eval heads_def failures_def s3_failure_def)

lemma head_requests_bounded_witness:
  "\<exists>(f :: bucket fserver) resp rest. jobs (base f) 3 = Finished ro_get resp rest \<and> status resp = NOT_FOUND \<and>
     heads ''b'' VALID_HASH (world (base f)) = 1 \<and>
     heads ''b'' VALID_HASH (world (base f)) \<le> heads ''b'' VALID_HASH (started empty_bucket) + 1"
proof -
  obtain f resp rest where
    r: "full_exec_all reference_deps memory_app memory_client ''b'' get_burst (fserver_init (started empty_bucket)) = Some f"
      "jobs (base f) 3 = Finished ro_get resp rest" "status resp = NOT_FOUND"
      "heads ''b'' VALID_HASH (world (base f)) = 1" "failures VALID_HASH (world (base f)) = 0" "now (probes (base f)) = 0"
      "\<forall>t. jobs (base f) t = Unused \<or> (\<exists>resp rest. jobs (base f) t = Finished ro_get resp rest)"
    using get_burst_result by blast
  have none: "job_request (jobs (base f) t) = Some put \<Longrightarrow> put = ro_get" "jobs (base f) t \<noteq> Gone get" for t put get
    using r(7) [rule_format, of t] by auto
  have "\<not> put_request reference_deps memory_app ro_get VALID_HASH"
    using ro_get_request by (auto simp: put_request_def get_request_def is_read_def)
  then have "{t. \<exists>put. job_request (jobs (base f) t) = Some put \<and> put_request reference_deps memory_app put VALID_HASH} = {}"
    using none(1) by blast
  then have puts: "card {t. \<exists>put. job_request (jobs (base f) t) = Some put \<and>
      put_request reference_deps memory_app put VALID_HASH} = 0"
    by (simp only: card.empty)
  have "VALID_HASH \<noteq> PROBE_KEY" by (simp add: VALID_HASH_def PROBE_KEY_def)
  from head_requests_bounded [OF memory_app_storage reference_deps_specs(3) full_demo_reachable [OF r(1)] this]
  have "heads ''b'' VALID_HASH (world (base f)) \<le> heads ''b'' VALID_HASH (started empty_bucket) + 1"
    unfolding puts r(5,6) by (simp add: none(2))
  then show ?thesis using r(2-4) by blast
qed

end
