(* ===== verification/Router_Tests.thy ===== *)
theory Router_Tests
  imports Mock_Server Key_Properties
begin

text \<open>
  The remaining tests of the router (\<open>src/server/mod.rs\<close>, \<open>mod tests\<close>) as predicates on the
  model, one per test and under its name: a router over the mock storage, one request (two
  in \<open>put_seeds_cache_so_next_get_is_a_hit\<close>), and the assertions of the test. The tests
  that run the table of cases are in \<open>Mock_Server\<close>. Of the test over a real socket the
  model has the router's side: the body a client uploads in pieces, and the answer.
\<close>

section \<open>Requests and assertions\<close>

definition oneshot :: "'s deps \<Rightarrow> 's app_state \<Rightarrow> request \<Rightarrow> 's server \<Rightarrow> (response \<times> body \<times> 's server) option" where
  "oneshot d app req srv = create_router d app req srv"

definition bearer :: "string \<Rightarrow> headers" where
  "bearer token = [(''authorization'', ''Bearer '' @ token)]"

definition request_for :: "http_method \<Rightarrow> string \<Rightarrow> headers \<Rightarrow> body \<Rightarrow> request" where
  "request_for meth path hs b = \<lparr>req_method = meth, req_path = path, req_headers = hs, req_body = b\<rparr>"

definition body_from :: "string \<Rightarrow> body" where
  "body_from s = Chunk 0 (ascii_bytes s) Done"

definition assert_connection_close :: "response \<Rightarrow> bool" where
  "assert_connection_close resp \<longleftrightarrow> header_get (resp_headers resp) ''connection'' = Some ''close''"

definition assert_text_plain_nonempty_body :: "response \<Rightarrow> bool" where
  "assert_text_plain_nonempty_body resp \<longleftrightarrow>
     header_get (resp_headers resp) ''content-type'' = Some ''text/plain'' \<and>
     (case resp_body resp of Text s \<Rightarrow> s \<noteq> [] \<and> length s \<le> 1024 | Artifact b \<Rightarrow> False | Empty \<Rightarrow> False)"

text \<open>One request against a fresh router: its assertions get the response and the store calls.\<close>

definition on_fresh_app ::
  "nat deps \<Rightarrow> mock_storage \<Rightarrow> request \<Rightarrow> (response \<Rightarrow> nat \<Rightarrow> bool) \<Rightarrow> bool" where
  "on_fresh_app d ms req check =
     (case oneshot d (test_app ms) req test_server of
        None \<Rightarrow> False
      | Some (resp, rest, srv) \<Rightarrow> check resp (backend (machine srv)))"

section \<open>The tests\<close>

definition self_probe_key_is_unreachable_through_the_api :: "nat deps \<Rightarrow> bool" where
  "self_probe_key_is_unreachable_through_the_api d \<longleftrightarrow> \<not> is_ok (validate_hash (d_uni d) PROBE_KEY)"

text \<open>The probe completes on a healthy and on a failing storage, and reports which it was.\<close>

definition self_probe_runs_against_healthy_and_failing_storage :: bool where
  "self_probe_runs_against_healthy_and_failing_storage \<longleftrightarrow>
     log (self_probe_once (mock_provider (mock_new Exists_No)) (machine test_server)) = [Self_Probe 0 True] \<and>
     log (self_probe_once (mock_provider (mock_new Exists_Fail)) (machine test_server)) = [Self_Probe 0 False]"

definition health_200_has_connection_close :: "nat deps \<Rightarrow> bool" where
  "health_200_has_connection_close d =
     on_fresh_app d (mock_new Exists_No) (request_for GET ''/health'' [] Done)
       (\<lambda>resp stores. status resp = HTTP_OK \<and> assert_connection_close resp)"

definition missing_token_401_has_connection_close_and_text_plain_body :: "nat deps \<Rightarrow> bool" where
  "missing_token_401_has_connection_close_and_text_plain_body d =
     on_fresh_app d (mock_new Exists_No) (request_for GET ''/v1/cache/abc123'' [] Done)
       (\<lambda>resp stores. status resp = UNAUTHORIZED \<and> assert_connection_close resp \<and>
          assert_text_plain_nonempty_body resp)"

definition invalid_token_401_has_connection_close_and_text_plain_body :: "nat deps \<Rightarrow> bool" where
  "invalid_token_401_has_connection_close_and_text_plain_body d =
     on_fresh_app d (mock_new Exists_No)
       (request_for GET ''/v1/cache/abc123'' [(''authorization'', ''Bearer wrong-token'')] Done)
       (\<lambda>resp stores. status resp = UNAUTHORIZED \<and> assert_connection_close resp \<and>
          assert_text_plain_nonempty_body resp)"

definition read_only_token_put_403_before_any_storage_call :: "nat deps \<Rightarrow> bool" where
  "read_only_token_put_403_before_any_storage_call d =
     on_fresh_app d (mock_new Exists_No)
       (request_for PUT ''/v1/cache/abc123'' (bearer RO_TOKEN) (body_from ''cache-poisoning attempt''))
       (\<lambda>resp stores. status resp = FORBIDDEN \<and> assert_connection_close resp \<and>
          assert_text_plain_nonempty_body resp \<and> stores = 0)"

definition read_only_token_can_get :: "nat deps \<Rightarrow> bool" where
  "read_only_token_can_get d =
     on_fresh_app d (mock_new Exists_Yes) (request_for GET ''/v1/cache/abc123'' (bearer RO_TOKEN) Done)
       (\<lambda>resp stores. status resp = HTTP_OK \<and> assert_connection_close resp)"

definition get_missing_key_404_has_connection_close :: "nat deps \<Rightarrow> bool" where
  "get_missing_key_404_has_connection_close d =
     on_fresh_app d (mock_new Exists_No) (request_for GET ''/v1/cache/abc123'' (bearer RO_TOKEN) Done)
       (\<lambda>resp stores. status resp = NOT_FOUND \<and> assert_connection_close resp)"

definition read_write_token_put_200_has_connection_close_and_stores :: "nat deps \<Rightarrow> bool" where
  "read_write_token_put_200_has_connection_close_and_stores d =
     on_fresh_app d (mock_new Exists_No)
       (request_for PUT ''/v1/cache/abc123'' (bearer RW_TOKEN) (body_from ''artifact bytes''))
       (\<lambda>resp stores. status resp = HTTP_OK \<and> assert_connection_close resp \<and> stores = 1)"

text \<open>Two requests against one application; any time short of \<open>POSITIVE_TTL\<close> may pass between them.\<close>

definition put_seeds_cache_so_next_get_is_a_hit :: "nat deps \<Rightarrow> duration \<Rightarrow> bool" where
  "put_seeds_cache_so_next_get_is_a_hit d delay =
     (let app = test_app (mock_new Exists_No) in
      case oneshot d app (request_for PUT ''/v1/cache/abc123'' (bearer RW_TOKEN) (body_from ''artifact bytes'')) test_server of
        None \<Rightarrow> False
      | Some (put, rest, srv) \<Rightarrow>
          status put = HTTP_OK \<and>
          (case oneshot d app (request_for GET ''/v1/cache/abc123'' (bearer RO_TOKEN) Done)
              (srv\<lparr>machine := elapse delay (machine srv)\<rparr>) of
             None \<Rightarrow> False
           | Some (get, rest', srv') \<Rightarrow> status get = HTTP_OK))"

definition conflict_409_has_connection_close :: "nat deps \<Rightarrow> bool" where
  "conflict_409_has_connection_close d =
     on_fresh_app d (mock_new Exists_Yes)
       (request_for PUT ''/v1/cache/abc123'' (bearer RW_TOKEN) (body_from ''artifact bytes''))
       (\<lambda>resp stores. status resp = CONFLICT \<and> assert_connection_close resp)"

definition put_stores_when_the_existence_probe_fails :: "nat deps \<Rightarrow> bool" where
  "put_stores_when_the_existence_probe_fails d =
     on_fresh_app d (mock_new Exists_Fail)
       (request_for PUT ''/v1/cache/abc123'' (bearer RW_TOKEN) (body_from ''artifact bytes''))
       (\<lambda>resp stores. status resp = HTTP_OK \<and> assert_connection_close resp \<and> stores = 1)"

definition write_failure_is_a_403_decline_not_a_500 :: "nat deps \<Rightarrow> bool" where
  "write_failure_is_a_403_decline_not_a_500 d =
     on_fresh_app d (failing_store (mock_new Exists_No))
       (request_for PUT ''/v1/cache/abc123'' (bearer RW_TOKEN) (body_from ''artifact bytes''))
       (\<lambda>resp stores. status resp = FORBIDDEN \<and> assert_connection_close resp \<and>
          assert_text_plain_nonempty_body resp)"

definition get_probe_failure_is_a_miss_not_a_500 :: "nat deps \<Rightarrow> bool" where
  "get_probe_failure_is_a_miss_not_a_500 d =
     on_fresh_app d (mock_new Exists_Fail) (request_for GET ''/v1/cache/abc123'' (bearer RO_TOKEN) Done)
       (\<lambda>resp stores. status resp = NOT_FOUND \<and> assert_connection_close resp)"

definition get_retrieve_failure_is_a_miss_not_a_500 :: "nat deps \<Rightarrow> bool" where
  "get_retrieve_failure_is_a_miss_not_a_500 d =
     on_fresh_app d (failing_retrieve (mock_new Exists_Yes))
       (request_for GET ''/v1/cache/abc123'' (bearer RO_TOKEN) Done)
       (\<lambda>resp stores. status resp = NOT_FOUND \<and> assert_connection_close resp)"

definition invalid_hash_400_has_connection_close :: "nat deps \<Rightarrow> bool" where
  "invalid_hash_400_has_connection_close d =
     on_fresh_app d (mock_new Exists_No) (request_for GET ''/v1/cache/bad.hash!'' (bearer RW_TOKEN) Done)
       (\<lambda>resp stores. status resp = BAD_REQUEST \<and> assert_connection_close resp)"

text \<open>A method without rows in the table has to be refused.\<close>

definition methods_outside_the_table_are_rejected :: "nat deps \<Rightarrow> bool" where
  "methods_outside_the_table_are_rejected d =
     list_all (\<lambda>meth. list_ex (\<lambda>tc. case_method tc = meth) all_cases \<or>
       on_fresh_app d (mock_new Exists_Yes) (request_for meth (cache_path VALID_HASH) (bearer RW_TOKEN) Done)
         (\<lambda>resp stores. status resp = METHOD_NOT_ALLOWED))
       [DELETE, PATCH, OPTIONS, TRACE]"

definition unknown_route_404_has_connection_close :: "nat deps \<Rightarrow> bool" where
  "unknown_route_404_has_connection_close d =
     on_fresh_app d (mock_new Exists_No) (request_for GET ''/no-such-route'' [] Done)
       (\<lambda>resp stores. status resp = NOT_FOUND \<and> assert_connection_close resp)"

text \<open>
  The upload of \<open>read_only_put_reaches_the_client_as_403_over_a_real_socket\<close>: \<open>BODY_LEN\<close> bytes
  in pieces of 64 KiB, each written when the one before it has been, however long that
  takes.
\<close>

definition BODY_LEN :: nat where
  "BODY_LEN = 8 * 1024 * 1024"

definition SOCKET_CHUNK :: nat where
  "SOCKET_CHUNK = 64 * 1024"

definition socket_body :: "duration list \<Rightarrow> body" where
  "socket_body delays = foldr (\<lambda>delay b. Chunk delay (replicate SOCKET_CHUNK 0) b) delays Done"

definition socket_app :: "nat app_state" where
  "socket_app =
     \<lparr>storage = mock_provider (mock_new Exists_No),
      config = \<lparr>port = 0, bind_address = V4 0x7F000001, service_access_token = RW_TOKEN,
                read_only_access_token = Some RO_TOKEN\<rparr>\<rparr>"

section \<open>Evaluating the tests\<close>

lemma test_paths:
  "reference_match_path ''/health'' = Route_Health"
  "reference_match_path ''/v1/cache/abc123'' = Route_Cache (Some VALID_HASH)"
  "reference_match_path ''/v1/cache/bad.hash!'' = Route_Cache (Some INVALID_HASH)"
  "reference_match_path ''/no-such-route'' = No_Route"
  by (simp_all add: reference_match_path_def VALID_HASH_def INVALID_HASH_def strip_prefix_def)

lemma test_tokens:
  "bearer_token reference_deps \<lparr>req_method = meth, req_path = p, req_headers = [], req_body = b\<rparr> = None"
  "bearer_token reference_deps \<lparr>req_method = meth, req_path = p, req_headers = bearer RW_TOKEN, req_body = b\<rparr> = Some RW_TOKEN"
  "bearer_token reference_deps \<lparr>req_method = meth, req_path = p, req_headers = bearer RO_TOKEN, req_body = b\<rparr> = Some RO_TOKEN"
  "bearer_token reference_deps \<lparr>req_method = meth, req_path = p,
     req_headers = [(''authorization'', ''Bearer wrong-token'')], req_body = b\<rparr> = Some ''wrong-token''"
  "''wrong-token'' \<noteq> RW_TOKEN" "''wrong-token'' \<noteq> RO_TOKEN"
  by (simp_all add: bearer_token_def bearer_def RW_TOKEN_def RO_TOKEN_def header_get_def
      reference_deps_def reference_to_str_def strip_prefix_def)

lemmas test_eval = on_fresh_app_def oneshot_def request_for_def body_from_def assert_connection_close_def
  assert_text_plain_nonempty_body_def test_paths test_tokens

lemma router_tests_read:
  "health_200_has_connection_close reference_deps"
  "missing_token_401_has_connection_close_and_text_plain_body reference_deps"
  "invalid_token_401_has_connection_close_and_text_plain_body reference_deps"
  "read_only_token_can_get reference_deps"
  "get_missing_key_404_has_connection_close reference_deps"
  "get_probe_failure_is_a_miss_not_a_500 reference_deps"
  "get_retrieve_failure_is_a_miss_not_a_500 reference_deps"
  "invalid_hash_400_has_connection_close reference_deps"
  "unknown_route_404_has_connection_close reference_deps"
  by (simp_all add: health_200_has_connection_close_def health_check_def
      missing_token_401_has_connection_close_and_text_plain_body_def
      invalid_token_401_has_connection_close_and_text_plain_body_def read_only_token_can_get_def
      get_missing_key_404_has_connection_close_def get_probe_failure_is_a_miss_not_a_500_def
      get_retrieve_failure_is_a_miss_not_a_500_def invalid_hash_400_has_connection_close_def
      unknown_route_404_has_connection_close_def failing_retrieve_def test_eval eval_model)

lemma router_tests_write:
  "read_only_token_put_403_before_any_storage_call reference_deps"
  "read_write_token_put_200_has_connection_close_and_stores reference_deps"
  "conflict_409_has_connection_close reference_deps"
  "put_stores_when_the_existence_probe_fails reference_deps"
  "write_failure_is_a_403_decline_not_a_500 reference_deps"
  by (simp_all add: read_only_token_put_403_before_any_storage_call_def
      read_write_token_put_200_has_connection_close_and_stores_def conflict_409_has_connection_close_def
      put_stores_when_the_existence_probe_fails_def write_failure_is_a_403_decline_not_a_500_def
      test_eval eval_model)

lemma router_tests_other:
  "self_probe_key_is_unreachable_through_the_api reference_deps"
  "self_probe_runs_against_healthy_and_failing_storage"
  "methods_outside_the_table_are_rejected reference_deps"
  by (simp_all add: self_probe_key_is_unreachable_through_the_api_def probe_key_invalid
      self_probe_runs_against_healthy_and_failing_storage_def self_probe_once_def
      methods_outside_the_table_are_rejected_def as_millis_def saturating_duration_since_def test_eval eval_model)

lemma seeded_hit: "delay < POSITIVE_TTL \<Longrightarrow> put_seeds_cache_so_next_get_is_a_hit reference_deps delay"
  by (simp add: put_seeds_cache_so_next_get_is_a_hit_def test_eval eval_model mark_present_def live_ttl)

lemma drain_socket:
  "sum_list delays < limit \<Longrightarrow> drain_stream limit (socket_body delays) = (sum_list delays, Done)"
  by (induction delays arbitrary: limit) (simp_all add: socket_body_def less_diff_conv2 add.commute)

lemma socket_answer:
  assumes "sum_list delays < DRAIN_TIMEOUT"
  shows "\<exists>resp srv. create_router reference_deps socket_app
      (request_for PUT (cache_path VALID_HASH) (bearer RO_TOKEN) (socket_body delays)) test_server = Some (resp, Done, srv) \<and>
    status resp = FORBIDDEN \<and> clock (machine srv) = sum_list delays"
proof -
  have "drain_stream (from_secs 60) (socket_body delays) = (sum_list delays, Done)"
    using assms by (intro drain_socket) (simp add: DRAIN_TIMEOUT_def)
  then show ?thesis
    by (simp add: socket_app_def test_eval router_eval drain_body_def drain_body_within_def DRAIN_TIMEOUT_def test_server_def)
qed

lemma socket_body_length: "length (body_bytes (socket_body delays)) = length delays * SOCKET_CHUNK"
  by (induction delays) (simp_all add: socket_body_def)

section \<open>The tests hold of the model\<close>

text \<open>The repository's tests of the router hold of the model: every single-request test with
  its status, header, body and store-call assertions; the GET after a PUT, for any delay
  short of the positive lifetime; and, on the router's side of the test over a real socket,
  an upload of 8 MiB in 64 KiB pieces with the read-only token is read to its end, however
  slowly it arrives within the drain limit, and then answered 403.\<close>

theorem router_tests_pass:
  assumes "delay < POSITIVE_TTL" "length delays * SOCKET_CHUNK = BODY_LEN" "sum_list delays < DRAIN_TIMEOUT"
  shows "self_probe_key_is_unreachable_through_the_api reference_deps \<and>
    self_probe_runs_against_healthy_and_failing_storage \<and>
    health_200_has_connection_close reference_deps \<and>
    missing_token_401_has_connection_close_and_text_plain_body reference_deps \<and>
    invalid_token_401_has_connection_close_and_text_plain_body reference_deps \<and>
    read_only_token_put_403_before_any_storage_call reference_deps \<and>
    read_only_token_can_get reference_deps \<and>
    get_missing_key_404_has_connection_close reference_deps \<and>
    read_write_token_put_200_has_connection_close_and_stores reference_deps \<and>
    put_seeds_cache_so_next_get_is_a_hit reference_deps delay \<and>
    conflict_409_has_connection_close reference_deps \<and>
    put_stores_when_the_existence_probe_fails reference_deps \<and>
    write_failure_is_a_403_decline_not_a_500 reference_deps \<and>
    get_probe_failure_is_a_miss_not_a_500 reference_deps \<and>
    get_retrieve_failure_is_a_miss_not_a_500 reference_deps \<and>
    invalid_hash_400_has_connection_close reference_deps \<and>
    methods_outside_the_table_are_rejected reference_deps \<and>
    unknown_route_404_has_connection_close reference_deps \<and>
    length (body_bytes (socket_body delays)) = BODY_LEN \<and>
    (\<exists>resp srv. oneshot reference_deps socket_app
        (request_for PUT (cache_path VALID_HASH) (bearer RO_TOKEN) (socket_body delays)) test_server = Some (resp, Done, srv) \<and>
      status resp = FORBIDDEN \<and> clock (machine srv) = sum_list delays)"
  using router_tests_read router_tests_write router_tests_other seeded_hit [OF assms(1)]
    socket_answer [OF assms(3)] assms(2)
  by (simp only: socket_body_length oneshot_def simp_thms)

lemma router_tests_pass_witness:
  "put_seeds_cache_so_next_get_is_a_hit reference_deps (from_secs 59) \<and>
   length (body_bytes (socket_body (replicate 128 (from_millis 200)))) = BODY_LEN \<and>
   read_only_token_put_403_before_any_storage_call reference_deps"
proof -
  have "from_secs 59 < POSITIVE_TTL" by (simp add: POSITIVE_TTL_def from_secs_def)
  moreover have "length (replicate 128 (from_millis 200)) * SOCKET_CHUNK = BODY_LEN"
    by (simp add: SOCKET_CHUNK_def BODY_LEN_def)
  moreover have "sum_list (replicate 128 (from_millis 200)) < DRAIN_TIMEOUT"
    by (simp add: sum_list_replicate DRAIN_TIMEOUT_def from_secs_def from_millis_def)
  ultimately show ?thesis using router_tests_pass [of "from_secs 59" "replicate 128 (from_millis 200)"] by simp
qed

end
