(* ===== verification/Cache_Properties.thy ===== *)
theory Cache_Properties
  imports Probe_Cache
begin

text \<open>
  The properties of the existence cache as one caller at a time sees it, for every
  \<open>get_or_try_init\<close> that behaves as documented.
\<close>

definition yes_probe :: "'s probe" where
  "yes_probe m = (Ok True, m)"

definition failing_probe :: "'s probe" where
  "failing_probe m = (Err OperationFailed, m)"

definition idle_machine :: "unit machine" where
  "idle_machine = \<lparr>clock = 0, log = [], calls = [], backend = ()\<rparr>"

lemma empty_answer [simp]: "answer fmempty k t = None"
  by (simp add: answer_def)

text \<open>The cache is transparent. \<open>present\<close> answers from a live resolved slot, without running
  the probe and leaving everything as it was; otherwise it runs the probe exactly once
  and answers what the probe answered. The answers it would give for other keys are
  unchanged.\<close>

theorem cache_transparent:
  assumes "once_cell_spec goti"
  shows "(case answer c k (clock m) of
      Some v \<Rightarrow> present goti k p c m = (Ok v, c, m)
    | None \<Rightarrow> (\<exists>c'. present goti k p c m = (fst (p m), c', snd (p m)))) \<and>
    (\<forall>k' t. k' \<noteq> k \<longrightarrow> clock m \<le> t \<longrightarrow> answer (fst (snd (present goti k p c m))) k' t = answer c k' t)"
proof -
  have goti: "goti = reference_get_or_try_init" using assms by (rule once_cell_unique)
  have "answer (fst (snd (present goti k p c m))) k' t = answer c k' t" if "k' \<noteq> k" "clock m \<le> t" for k' t
    using cache.ask_other [where k = k and p = p and c = c and m = m and k' = k' and t = t] that goti
    by (cases "present reference_get_or_try_init k p c m") auto
  moreover have "\<exists>c'. present goti k p c m = (fst (p m), c', snd (p m))" if "answer c k (clock m) = None"
    using cache.ask_miss [OF that, where p = p and r = "fst (p m)" and m' = "snd (p m)"] goti by simp
  moreover have "present goti k p c m = (Ok v, c, m)" if "answer c k (clock m) = Some v" for v
    using cache.ask_hit [OF that] goti by simp
  ultimately show ?thesis by (auto split: option.split)
qed

lemma cache_transparent_witness:
  "\<exists>c'. present reference_get_or_try_init ''k'' yes_probe fmempty idle_machine = (Ok True, c', idle_machine)"
  using cache_transparent [OF once_cell_spec_reference, where c = fmempty and k = "''k''" and m = idle_machine and p = yes_probe]
  by (simp add: yes_probe_def)

text \<open>Errors are not cached. After a probe that failed, the next caller for the key runs its
  own probe, whenever it comes, and is answered by it.\<close>

theorem errors_not_cached:
  assumes "once_cell_spec goti" "present goti k p c m = (Err e, c', m')" "p' m'' = (r, m3)"
  shows "\<exists>c''. present goti k p' c' m'' = (r, c'', m3)"
  using cache.ask_again_after_error [where k = k and p = p and c = c and m = m and e = e and c' = c' and m' = m' and p' = p' and m'' = m'' and r = r and ?m3.0 = m3] assms once_cell_unique [OF assms(1)]
  by simp

lemma errors_not_cached_witness:
  "\<exists>c' c''. present reference_get_or_try_init ''k'' failing_probe fmempty idle_machine =
      (Err OperationFailed, c', idle_machine) \<and>
    present reference_get_or_try_init ''k'' yes_probe c' idle_machine = (Ok True, c'', idle_machine)"
proof -
  obtain c' where c': "present reference_get_or_try_init ''k'' failing_probe fmempty idle_machine =
      (Err OperationFailed, c', idle_machine)"
    by (simp add: present_def slot_for_def reference_get_or_try_init_def failing_probe_def Let_def)
  from errors_not_cached [OF once_cell_spec_reference c', of yes_probe idle_machine "Ok True" idle_machine] c'
  show ?thesis by (auto simp: yes_probe_def)
qed

text \<open>C35: the map stays small. \<open>slot\<close> leaves the map as it is, or, like \<open>mark_present\<close>, leaves it
  with at most one entry more than the larger of 10,000 and the number of its live slots:
  dead slots never accumulate.\<close>

theorem cache_size_bounded:
  "fcard (fmdom (mark_present k now c)) \<le> Suc (max 10000 (live_count now c)) \<and>
   (snd (slot_for k now c) = c \<or>
    fcard (fmdom (snd (slot_for k now c))) \<le> Suc (max 10000 (live_count now c)))"
proof
  show "fcard (fmdom (mark_present k now c)) \<le> Suc (max 10000 (live_count now c))"
    using insert_sweep_size [of k _ now c] by (simp add: mark_present_def SWEEP_THRESHOLD_def)
  show "snd (slot_for k now c) = c \<or> fcard (fmdom (snd (slot_for k now c))) \<le> Suc (max 10000 (live_count now c))"
    using insert_sweep_size [of k _ now c]
    by (cases k now c rule: slot_for_cases) (simp_all add: SWEEP_THRESHOLD_def)
qed

text \<open>What a sweep drops. Above 10,000 entries a sweep keeps exactly the live slots: a slot
  that is still unresolved goes too once it is 60 seconds old, although a probe may be
  running in it.\<close>

lemma sweep_keeps_live:
  assumes "fcard (fmdom c) > 10000"
  shows "fmlookup (sweep now c) k =
    (case fmlookup c k of None \<Rightarrow> None | Some s \<Rightarrow> if live now s then Some s else None)"
  using assms by (simp add: fmlookup_sweep live_at_def SWEEP_THRESHOLD_def split: option.split)

text \<open>A cache of any size, all of it unresolved since the start.\<close>

fun stale_cache :: "nat \<Rightarrow> probe_cache" where
  "stale_cache 0 = fmempty"
| "stale_cache (Suc n) =
     fmupd (replicate n (CHR ''k'')) \<lparr>present_cell = None, created = 0\<rparr> (stale_cache n)"

lemma stale_cache_lookup:
  "fmlookup (stale_cache n) k =
     (if \<exists>i < n. k = replicate i (CHR ''k'') then Some \<lparr>present_cell = None, created = 0\<rparr> else None)"
  by (induction n) (auto simp: less_Suc_eq)

lemma stale_cache_size: "fcard (fmdom (stale_cache n)) = n"
proof (induction n)
  case (Suc n)
  have "fmlookup (stale_cache n) (replicate n (CHR ''k'')) = None"
    by (auto simp: stale_cache_lookup dest: arg_cong [where f = length])
  then have "replicate n (CHR ''k'') |\<notin>| fmdom (stale_cache n)" by (simp add: fmdom_notI)
  then show ?case using Suc by (simp add: fcard_finsert_disjoint)
qed simp

lemma sweep_keeps_live_witness:
  "fmlookup (stale_cache 10001) ''k'' \<noteq> None \<and>
   fmlookup (sweep (from_secs 60) (stale_cache 10001)) ''k'' = None"
proof -
  have k: "fmlookup (stale_cache 10001) ''k'' = Some \<lparr>present_cell = None, created = 0\<rparr>"
    by (simp add: stale_cache_lookup exI [of _ 1])
  moreover have "fcard (fmdom (stale_cache 10001)) > 10000" by (simp only: stale_cache_size)
  ultimately show ?thesis using sweep_keeps_live [of "stale_cache 10001" "from_secs 60" "''k''"]
    by (simp add: live_def saturating_duration_since_def UNRESOLVED_TTL_def)
qed

end
