(* ===== verification/Cache_Tests.thy ===== *)
theory Cache_Tests
  imports Cache_Properties Flight_Views
begin

text \<open>
  The tests of the existence cache (\<open>src/server/probe_cache.rs\<close>, \<open>mod tests\<close>) as predicates
  on the model, one per test and under its name. The tests' counter of probe calls is the
  backend of the machine. Where a test lets time pass between two calls, the time is an
  argument. The burst of concurrent probes is a statement about every schedule of any
  number of tasks on \<open>Single_Flight\<close>.
\<close>

section \<open>One caller at a time\<close>

text \<open>A probe that counts its calls and answers \<open>r\<close>.\<close>

definition counting_probe :: "storage_error + bool \<Rightarrow> nat probe" where
  "counting_probe r m = (r, m\<lparr>backend := Suc (backend m)\<rparr>)"

definition test_machine :: "nat machine" where
  "test_machine = \<lparr>clock = 0, log = [], calls = [], backend = 0\<rparr>"

text \<open>Two calls of \<open>present\<close> for one key, with a delay between them: the answers and the count.\<close>

definition present_twice ::
  "nat get_or_try_init \<Rightarrow> duration \<Rightarrow> storage_error + bool \<Rightarrow>
     (storage_error + bool) \<times> (storage_error + bool) \<times> nat" where
  "present_twice goti delay r =
     (let (r1, c1, m1) = present goti ''abc'' (counting_probe r) fmempty test_machine;
          (r2, c2, m2) = present goti ''abc'' (counting_probe r) c1 (elapse delay m1)
      in (r1, r2, backend m2))"

definition result_is_cached_within_ttl :: "nat get_or_try_init \<Rightarrow> duration \<Rightarrow> bool" where
  "result_is_cached_within_ttl goti delay \<longleftrightarrow> present_twice goti delay (Ok True) = (Ok True, Ok True, 1)"

definition error_is_not_cached :: "nat get_or_try_init \<Rightarrow> duration \<Rightarrow> bool" where
  "error_is_not_cached goti delay \<longleftrightarrow>
     present_twice goti delay (Err OperationFailed) = (Err OperationFailed, Err OperationFailed, 2)"

definition live_applies_asymmetric_ttl_by_outcome :: "instant \<Rightarrow> bool" where
  "live_applies_asymmetric_ttl_by_outcome base \<longleftrightarrow>
     (let mk = (\<lambda>v. \<lparr>present_cell = v, created = base\<rparr>);
          at = (\<lambda>secs. base + from_secs secs)
      in live (at 45) (mk None) \<and> \<not> live (at 120) (mk None) \<and>
         live (at 2) (mk (Some False)) \<and> \<not> live (at 30) (mk (Some False)) \<and>
         live (at 30) (mk (Some True)) \<and> \<not> live (at 120) (mk (Some True)))"

text \<open>A map of unresolved slots under as many distinct keys, all of one age.\<close>

definition stranded_slots :: "string list \<Rightarrow> instant \<Rightarrow> probe_cache" where
  "stranded_slots ks base = fmap_of_list (map (\<lambda>k. (k, \<lparr>present_cell = None, created = base\<rparr>)) ks)"

definition sweep_reclaims_slots_stranded_by_a_failed_probe :: "string list \<Rightarrow> instant \<Rightarrow> bool" where
  "sweep_reclaims_slots_stranded_by_a_failed_probe ks base \<longleftrightarrow>
     (let slots1 = sweep (base + from_secs 30) (stranded_slots ks base);
          slots2 = sweep (base + from_secs 120) slots1
      in fcard (fmdom slots1) = SWEEP_THRESHOLD + 1 \<and> slots2 = fmempty)"

definition mark_present_seeds_a_hit_without_probing :: "nat get_or_try_init \<Rightarrow> duration \<Rightarrow> bool" where
  "mark_present_seeds_a_hit_without_probing goti delay \<longleftrightarrow>
     (let cache = mark_present ''abc'' (clock test_machine) fmempty;
          (r, c, m) = present goti ''abc'' (counting_probe (Ok False)) cache (elapse delay test_machine)
      in r = Ok True \<and> backend m = 0)"

definition mark_present_overrides_a_cached_absent :: "nat get_or_try_init \<Rightarrow> duration \<Rightarrow> duration \<Rightarrow> bool" where
  "mark_present_overrides_a_cached_absent goti delay delay' \<longleftrightarrow>
     (let (r1, c1, m1) = present goti ''abc'' (counting_probe (Ok False)) fmempty test_machine;
          m2 = elapse delay m1;
          (r2, c2, m3) = present goti ''abc'' (counting_probe (Ok False)) (mark_present ''abc'' (clock m2) c1) (elapse delay' m2)
      in r1 = Ok False \<and> r2 = Ok True)"

text \<open>They hold, for every \<open>get_or_try_init\<close> with the documented behaviour.\<close>

lemmas cell_test_eval = present_def slot_for_def reference_get_or_try_init_def counting_probe_def
  test_machine_def sweep_def fcard_fempty mark_present_def live_ttl Let_def

lemma cached_within_ttl: "delay < POSITIVE_TTL \<Longrightarrow> result_is_cached_within_ttl reference_get_or_try_init delay"
  by (simp add: result_is_cached_within_ttl_def present_twice_def cell_test_eval)

lemma error_retried: "error_is_not_cached reference_get_or_try_init delay"
  by (cases "delay < UNRESOLVED_TTL")
    (simp_all add: error_is_not_cached_def present_twice_def cell_test_eval fcard_finsert)

lemma asymmetric_ttl: "live_applies_asymmetric_ttl_by_outcome base"
  by (simp add: live_applies_asymmetric_ttl_by_outcome_def live_ttl Let_def POSITIVE_TTL_def NEGATIVE_TTL_def
      UNRESOLVED_TTL_def from_secs_def)

lemma stranded_swept:
  assumes "distinct ks" "length ks = SWEEP_THRESHOLD + 1"
  shows "sweep_reclaims_slots_stranded_by_a_failed_probe ks base"
proof -
  let ?c = "stranded_slots ks base"
  have dom: "fmdom ?c = fset_of_list ks"
    by (simp add: stranded_slots_def fmdom_of_list comp_def)
  have n: "fcard (fmdom ?c) = SWEEP_THRESHOLD + 1"
    using assms by (simp add: dom fcard_def fset_of_list.rep_eq distinct_card)
  have slots: "s = \<lparr>present_cell = None, created = base\<rparr>" if "fmlookup ?c k = Some s" for k s
    using that by (auto simp: stranded_slots_def fmlookup_of_list dest!: map_of_SomeD)
  have one: "sweep (base + from_secs 30) ?c = ?c"
    by (rule fmap_ext) (auto simp: fmlookup_sweep live_at_def live_ttl UNRESOLVED_TTL_def from_secs_def
        split: option.splits dest!: slots)
  have two: "sweep (base + from_secs 120) ?c = fmempty"
  proof (rule fmap_ext)
    show "fmlookup (sweep (base + from_secs 120) ?c) k = fmlookup fmempty k" for k
      using slots [of k] n
      by (cases "fmlookup ?c k") (auto simp: fmlookup_sweep live_at_def live_ttl UNRESOLVED_TTL_def from_secs_def)
  qed
  show ?thesis using n one two by (simp add: sweep_reclaims_slots_stranded_by_a_failed_probe_def Let_def)
qed

lemma seeded_hit_without_probe:
  "delay < POSITIVE_TTL \<Longrightarrow> mark_present_seeds_a_hit_without_probing reference_get_or_try_init delay"
  by (simp add: mark_present_seeds_a_hit_without_probing_def cell_test_eval)

lemma seed_overrides_absent:
  "delay' < POSITIVE_TTL \<Longrightarrow> mark_present_overrides_a_cached_absent reference_get_or_try_init delay delay'"
  by (simp add: mark_present_overrides_a_cached_absent_def cell_test_eval fcard_finsert SWEEP_THRESHOLD_def)

section \<open>A burst of callers\<close>

text \<open>
  What may happen in \<open>concurrent_probes_for_same_key_run_probe_once\<close>: callers of one key enter,
  wait, start a probe, whose call is \<open>Begin\<close>, and return; every probe ends with the value \<open>v\<close>; time
  passes. No probe fails, and no caller is dropped.
\<close>

fun burst_event :: "string \<Rightarrow> bool \<Rightarrow> event \<Rightarrow> bool" where
  "burst_event k v (Tick delay) \<longleftrightarrow> True"
| "burst_event k v (Enter t k') \<longleftrightarrow> k' = k"
| "burst_event k v (Hit t) \<longleftrightarrow> True"
| "burst_event k v (Begin t) \<longleftrightarrow> True"
| "burst_event k v (Resolve t v') \<longleftrightarrow> v' = v"
| "burst_event k v (Fail t err) \<longleftrightarrow> False"
| "burst_event k v (Cancel t) \<longleftrightarrow> False"
| "burst_event k v (Mark k') \<longleftrightarrow> False"

fun probe_calls :: "event list \<Rightarrow> nat" where
  "probe_calls [] = 0"
| "probe_calls (Begin t # evs) = Suc (probe_calls evs)"
| "probe_calls (ev # evs) = probe_calls evs"

text \<open>One slot at most, probed at most once; whoever is answered is answered with its value.\<close>

definition answered_by :: "bool \<Rightarrow> flight \<Rightarrow> gslot \<Rightarrow> bool" where
  "answered_by v s x \<longleftrightarrow> present_cell x \<in> {None, Some v} \<and>
     (\<forall>t k e r c. tasks s t = Answered k e r c \<longrightarrow> present_cell x = Some v \<and> r = Ok v)"

definition burst_inv :: "string \<Rightarrow> bool \<Rightarrow> nat \<Rightarrow> flight \<Rightarrow> bool" where
  "burst_inv k v n s \<longleftrightarrow> flight_inv s \<and>
     (heap s = [] \<and> index s = fmempty \<and> n = 0 \<and> (\<forall>t. tasks s t = Idle) \<or>
      (\<exists>x. heap s = [x] \<and> fmlookup (index s) k = Some 0 \<and>
         n = (if present_cell x = None \<and> permit x = None then 0 else 1) \<and> answered_by v s x))"

lemma burst_inv_init: "burst_inv k v 0 flight_init"
  using flight_inv_init by (simp add: burst_inv_def) (simp add: flight_init_def)

lemma burst_slot:
  assumes "burst_inv k v n s" "tasks s t \<noteq> Idle"
  obtains x where "heap s = [x]" "fmlookup (index s) k = Some 0"
    "n = (if present_cell x = None \<and> permit x = None then 0 else 1)"
    "answered_by v s x"
  using assms unfolding burst_inv_def by blast

lemma burst_invI:
  assumes "flight_inv s" "heap s = [x]" "fmlookup (index s) k = Some 0"
    "n = (if present_cell x = None \<and> permit x = None then 0 else 1)"
    "answered_by v s x"
  shows "burst_inv k v n s"
  using assms unfolding burst_inv_def by blast

lemma early_live: "t < NEGATIVE_TTL \<Longrightarrow> live t x"
  by (cases "present_cell x")
    (auto simp: live_ttl ttl_def NEGATIVE_TTL_def POSITIVE_TTL_def UNRESOLVED_TTL_def from_secs_def split: bool.split)

lemma burst_step:
  assumes "flight_step s ev s'" "burst_inv k v n s" "burst_event k v ev" "now s < NEGATIVE_TTL"
  shows "burst_inv k v (n + probe_calls [ev]) s'"
proof -
  have inv: "flight_inv s" using assms(2) by (simp add: burst_inv_def)
  then have inv': "flight_inv s'" by (rule flight_step_inv [OF assms(1)])
  show ?thesis
    using assms
  proof (cases rule: flight_step.cases)
    case (tick d)
    then show ?thesis using assms(2) inv' by (simp add: burst_inv_def answered_by_def)
  next
    case (enter t k' i s1)
    have k: "k' = k" using assms(3) enter(1) by simp
    show ?thesis
    proof (cases "heap s = []")
      case True
      have "i = 0" "s1 = add_slot k None s"
        using enter(4) assms(2) True k by (auto simp: burst_inv_def flight_slot_def)
      then show ?thesis using True assms(2) enter(1,2) k inv'
        by (intro burst_invI [OF inv']) (auto simp: heap_simps burst_inv_def answered_by_def split: if_splits)
    next
      case False
      then obtain x where x: "heap s = [x]" "fmlookup (index s) k = Some 0"
        "n = (if present_cell x = None \<and> permit x = None then 0 else 1)"
        "answered_by v s x"
        using assms(2) by (auto simp: burst_inv_def)
      have "s1 = s" using enter(4) x(1,2) k early_live [OF assms(4), of x] by (simp add: flight_slot_def)
      then show ?thesis using x enter(1,2)
        by (intro burst_invI [OF inv', where x = x]) (auto simp: answered_by_def split: if_splits)
    qed
  next
    case (hit t k' i e v')
    obtain x where x: "heap s = [x]" "fmlookup (index s) k = Some 0"
      "n = (if present_cell x = None \<and> permit x = None then 0 else 1)"
      "answered_by v s x"
      using assms(2) hit(3) by (auto elim: burst_slot [where t = t])
    have "i = 0" using flight_invD(2) [OF inv, of t] hit(3) x(1) by simp
    then show ?thesis using x hit(1,2,4)
      by (intro burst_invI [OF inv', where x = x]) (auto simp: answered_by_def split: if_splits)
  next
    case (begin_probe t k' i e)
    obtain x where x: "heap s = [x]" "fmlookup (index s) k = Some 0"
      "n = (if present_cell x = None \<and> permit x = None then 0 else 1)"
      "answered_by v s x"
      using assms(2) begin_probe(3) by (auto elim: burst_slot [where t = t])
    have "i = 0" using flight_invD(2) [OF inv, of t] begin_probe(3) x(1) by simp
    then show ?thesis using x begin_probe(1,2,4,5)
      by (intro burst_invI [OF inv', where x = "x\<lparr>permit := Some t\<rparr>"]) (auto simp: heap_simps answered_by_def split: if_splits)
  next
    case (resolve t k' i e b v')
    obtain x where x: "heap s = [x]" "fmlookup (index s) k = Some 0"
      "n = (if present_cell x = None \<and> permit x = None then 0 else 1)"
      "answered_by v s x"
      using assms(2) resolve(3) by (auto elim: burst_slot [where t = t])
    have p: "i = 0" "present_cell x = None" "permit x = Some t"
      using permit_uninit [OF inv resolve(3)] x(1) by auto
    have "v' = v" using assms(3) resolve(1) by simp
    then show ?thesis using p x resolve(1,2)
      by (intro burst_invI [OF inv', where x = "x\<lparr>present_cell := Some v, permit := None, resolved_at := now s\<rparr>"])
        (auto simp: heap_simps answered_by_def split: if_splits)
  qed simp_all
qed

lemma flight_step_now: "flight_step s ev s' \<Longrightarrow> now s \<le> now s'"
  by (induction rule: flight_step.induct) (auto simp: flight_mark_def flight_slot_def split: option.splits if_splits)

lemma flight_run_now: "flight_run s evs s' \<Longrightarrow> now s \<le> now s'"
  by (induction rule: flight_run.induct) (auto dest: flight_step_now)

lemma probe_calls_Cons: "probe_calls (ev # evs) = probe_calls [ev] + probe_calls evs"
  by (cases ev) simp_all

lemma burst_run:
  "flight_run s evs s' \<Longrightarrow> burst_inv k v n s \<Longrightarrow> list_all (burst_event k v) evs \<Longrightarrow> now s' < NEGATIVE_TTL \<Longrightarrow>
     burst_inv k v (n + probe_calls evs) s'"
proof (induction arbitrary: n rule: flight_run.induct)
  case (run_cons s ev s1 evs s2)
  have "now s < NEGATIVE_TTL"
    using flight_run_now [OF flight_run.run_cons [OF run_cons(1,2)]] run_cons.prems(3) by simp
  then have "burst_inv k v (n + probe_calls [ev]) s1"
    using burst_step [OF run_cons(1) run_cons.prems(1)] run_cons.prems(2) by simp
  from run_cons.IH [OF this] run_cons.prems(2,3) show ?case
    by (simp add: probe_calls_Cons [of ev evs] add.assoc)
qed simp

lemma burst_facts:
  assumes "flight_run flight_init evs s" "list_all (burst_event k v) evs" "now s < NEGATIVE_TTL"
  shows "probe_calls evs \<le> 1 \<and>
    (\<forall>t k' e r c. tasks s t = Answered k' e r c \<longrightarrow> r = Ok v \<and> probe_calls evs = 1)"
proof -
  have b: "burst_inv k v (probe_calls evs) s"
    using burst_run [OF assms(1) burst_inv_init assms(2,3)] by simp
  show ?thesis
  proof (cases "\<forall>t. tasks s t = Idle")
    case True
    then show ?thesis using b by (auto simp: burst_inv_def)
  next
    case False
    then obtain t where "tasks s t \<noteq> Idle" by blast
    with b obtain x where "probe_calls evs = (if present_cell x = None \<and> permit x = None then 0 else 1)"
      "answered_by v s x" by (rule burst_slot)
    then show ?thesis unfolding answered_by_def by simp
  qed
qed

text \<open>The test: every one of the callers has returned, with the answer of the one probe.\<close>

definition joined :: "nat \<Rightarrow> flight \<Rightarrow> bool" where
  "joined callers s \<longleftrightarrow>
     list_all (\<lambda>t. case tasks s t of Answered k e r c \<Rightarrow> True | _ \<Rightarrow> False) [0..<callers]"

definition concurrent_probes_for_same_key_run_probe_once :: "nat \<Rightarrow> event list \<Rightarrow> flight \<Rightarrow> bool" where
  "concurrent_probes_for_same_key_run_probe_once callers evs s \<longleftrightarrow>
     list_all (\<lambda>t. case tasks s t of Answered k e r c \<Rightarrow> r = Ok False | _ \<Rightarrow> False) [0..<callers] \<and>
     probe_calls evs = 1"

lemma burst_test:
  assumes "flight_run flight_init evs s" "list_all (burst_event k False) evs" "now s < NEGATIVE_TTL"
    and "0 < callers" "joined callers s"
  shows "concurrent_probes_for_same_key_run_probe_once callers evs s"
proof -
  have a: "\<exists>k e c. tasks s t = Answered k e (Ok False) c \<and> probe_calls evs = 1" if "t < callers" for t
  proof -
    have "case tasks s t of Answered k e r c \<Rightarrow> True | _ \<Rightarrow> False"
      using assms(5) that by (simp add: joined_def list_all_iff)
    then show ?thesis using burst_facts [OF assms(1-3)] by (cases "tasks s t") (simp, simp, simp, blast)
  qed
  have "case tasks s t of Answered k e r c \<Rightarrow> r = Ok False | _ \<Rightarrow> False" if "t < callers" for t
    using a [OF that] by auto
  then show ?thesis
    using a [OF assms(4)] by (simp add: concurrent_probes_for_same_key_run_probe_once_def list_all_iff)
qed

section \<open>The tests hold of the model\<close>

text \<open>A burst of callers for one key runs one probe. In every schedule of any number of
  callers in which no probe fails and no caller is dropped, during the first 5 seconds of
  the cache, at most one probe is called; every caller that is answered gets what the
  probes answer, and then exactly one was called.\<close>

theorem burst_runs_one_probe:
  assumes "flight_run flight_init evs s" "list_all (burst_event k v) evs" "now s < NEGATIVE_TTL"
  shows "probe_calls evs \<le> 1 \<and>
    (\<forall>t k' e r c. tasks s t = Answered k' e r c \<longrightarrow> r = Ok v \<and> probe_calls evs = 1)"
  using burst_facts [OF assms] by blast

text \<open>The repository's tests of the cache hold of the model, for every \<open>get_or_try_init\<close> with
  the documented behaviour, for any time that passes between the calls within the positive
  lifetime, for any 10,001 keys, and for the burst of concurrent probes for any number of
  callers under every schedule in which each of them has returned.\<close>

theorem cache_tests_pass:
  assumes "once_cell_spec goti" "delay < POSITIVE_TTL" "distinct ks" "length ks = SWEEP_THRESHOLD + 1"
    and "flight_run flight_init evs s" "list_all (burst_event ''deadbeef'' False) evs" "now s < NEGATIVE_TTL"
    and "0 < callers" "joined callers s"
  shows "concurrent_probes_for_same_key_run_probe_once callers evs s \<and>
    result_is_cached_within_ttl goti delay \<and> error_is_not_cached goti delay \<and>
    live_applies_asymmetric_ttl_by_outcome base \<and>
    sweep_reclaims_slots_stranded_by_a_failed_probe ks base \<and>
    mark_present_seeds_a_hit_without_probing goti delay \<and>
    mark_present_overrides_a_cached_absent goti delay' delay"
  unfolding once_cell_unique [OF assms(1)]
  using assms cached_within_ttl error_retried asymmetric_ttl stranded_swept seeded_hit_without_probe
    seed_overrides_absent burst_test by blast

section \<open>Witnesses\<close>

text \<open>Three callers, one of them probing while the others wait, as in the test.\<close>

definition burst_schedule :: "event list" where
  "burst_schedule =
     [Enter 0 ''deadbeef'', Enter 1 ''deadbeef'', Begin 0, Enter 2 ''deadbeef'', Tick (from_secs 1),
      Resolve 0 False, Hit 1, Hit 2]"

lemma burst_schedule_runs:
  "\<exists>s. flight_run flight_init burst_schedule s \<and> now s < NEGATIVE_TTL \<and> joined 3 s"
  by (simp add: burst_schedule_def flight_exec_all_iff run_simps joined_def upt_rec)

lemma burst_schedule_events: "list_all (burst_event ''deadbeef'' False) burst_schedule"
  by (simp add: burst_schedule_def)

lemma burst_runs_one_probe_witness: "probe_calls burst_schedule \<le> 1"
  using burst_schedule_runs burst_runs_one_probe [OF _ burst_schedule_events] by blast

lemma cache_tests_pass_witness:
  "(\<exists>s. concurrent_probes_for_same_key_run_probe_once 3 burst_schedule s) \<and>
   result_is_cached_within_ttl reference_get_or_try_init (from_secs 59) \<and>
   sweep_reclaims_slots_stranded_by_a_failed_probe (map (\<lambda>n. replicate n CHR ''k'') [0..<10001]) 7"
proof -
  let ?ks = "map (\<lambda>n. replicate n CHR ''k'') [0..<10001]"
  have "inj (\<lambda>n. replicate n CHR ''k'')" by (rule injI) (metis length_replicate)
  then have "distinct ?ks" by (simp add: distinct_map inj_on_def)
  moreover have "length ?ks = SWEEP_THRESHOLD + 1" by (simp add: SWEEP_THRESHOLD_def)
  moreover have "from_secs 59 < POSITIVE_TTL" by (simp add: POSITIVE_TTL_def from_secs_def)
  moreover obtain s where "flight_run flight_init burst_schedule s" "now s < NEGATIVE_TTL" "joined 3 s"
    using burst_schedule_runs by blast
  ultimately show ?thesis
    using cache_tests_pass [OF once_cell_spec_reference, of "from_secs 59" ?ks burst_schedule s 3 7 0]
      burst_schedule_events by auto
qed

end
