(* ===== verification/Unit_Tests.thy ===== *)
theory Unit_Tests
  imports S3_Storage Handlers
begin

text \<open>
  The unit tests of \<open>src/infra/aws.rs\<close>, \<open>src/server/error.rs\<close> and \<open>src/server/handlers.rs\<close> as
  predicates on the model, one per test and under its name. A \<open>ReaderStream\<close> over a cursor
  yields the cursor's bytes in non-empty chunks; how it cuts them is an argument.
\<close>

section \<open>Filling a part\<close>

definition cursor_stream :: "bytes list \<Rightarrow> body" where
  "cursor_stream chunks = foldr (Chunk 0) chunks Done"

text \<open>A reader whose every read fails.\<close>

definition FailingReader :: body where
  "FailingReader = Broken 0"

text \<open>What \<open>fill_part\<close> returned and the count of received bytes, when it returned.\<close>

definition filled :: "body \<Rightarrow> nat \<Rightarrow> 's machine \<Rightarrow> ((storage_error + (bytes \<times> bool)) \<times> nat) option" where
  "filled stream part_size m =
     (case fill_part stream part_size ''test-hash'' 0 m of
        None \<Rightarrow> None
      | Some (r, rest, bytes_received, m') \<Rightarrow> Some (r, bytes_received))"

definition fill_part_returns_full_buffer_and_eof_when_body_smaller_than_part_size ::
  "bytes list \<Rightarrow> 's machine \<Rightarrow> bool" where
  "fill_part_returns_full_buffer_and_eof_when_body_smaller_than_part_size chunks m \<longleftrightarrow>
     filled (cursor_stream chunks) 1024 m = Some (Ok ([1, 2, 3, 4, 5], True), 5)"

definition fill_part_stops_at_part_size_boundary_without_eof :: "bytes list \<Rightarrow> 's machine \<Rightarrow> bool" where
  "fill_part_stops_at_part_size_boundary_without_eof chunks m \<longleftrightarrow>
     (case filled (cursor_stream chunks) 10 m of
        Some (Ok (buffer, eof), bytes_received) \<Rightarrow>
          \<not> eof \<and> 10 \<le> length buffer \<and> length buffer \<le> 30 \<and> bytes_received = length buffer
      | _ \<Rightarrow> False)"

definition fill_part_on_empty_body_reports_eof_with_empty_buffer :: "bytes list \<Rightarrow> 's machine \<Rightarrow> bool" where
  "fill_part_on_empty_body_reports_eof_with_empty_buffer chunks m \<longleftrightarrow>
     filled (cursor_stream chunks) 1024 m = Some (Ok ([], True), 0)"

definition fill_part_maps_stream_read_error_to_client_abort_not_operation_failed :: "'s machine \<Rightarrow> bool" where
  "fill_part_maps_stream_read_error_to_client_abort_not_operation_failed m \<longleftrightarrow>
     map_option fst (filled FailingReader 1024 m) = Some (Err ClientAbort)"

definition multipart_part_size_meets_s3_minimum :: bool where
  "multipart_part_size_meets_s3_minimum \<longleftrightarrow> 5 * 1024 * 1024 \<le> MULTIPART_PART_SIZE"

section \<open>Errors\<close>

definition test_status :: "server_error \<Rightarrow> 's machine \<Rightarrow> status_code" where
  "test_status e m = status (fst (into_response e m))"

definition test_content_type :: "server_error \<Rightarrow> 's machine \<Rightarrow> string option" where
  "test_content_type e m = header_get (resp_headers (fst (into_response e m))) ''content-type''"

definition client_abort_maps_to_4xx_not_5xx :: "'s machine \<Rightarrow> bool" where
  "client_abort_maps_to_4xx_not_5xx m \<longleftrightarrow> test_status (Storage ClientAbort) m = BAD_REQUEST"

definition s3_operation_failure_maps_to_500 :: "'s machine \<Rightarrow> bool" where
  "s3_operation_failure_maps_to_500 m \<longleftrightarrow> test_status (Storage OperationFailed) m = INTERNAL_SERVER_ERROR"

definition not_found_maps_to_404 :: "'s machine \<Rightarrow> bool" where
  "not_found_maps_to_404 m \<longleftrightarrow> test_status (Storage NotFound) m = NOT_FOUND"

definition already_exists_maps_to_409 :: "'s machine \<Rightarrow> bool" where
  "already_exists_maps_to_409 m \<longleftrightarrow> test_status (Storage AlreadyExists) m = CONFLICT"

definition unauthorized_maps_to_401_text_plain :: "'s machine \<Rightarrow> bool" where
  "unauthorized_maps_to_401_text_plain m \<longleftrightarrow>
     test_status Unauthorized m = UNAUTHORIZED \<and> test_content_type Unauthorized m = Some ''text/plain''"

definition forbidden_maps_to_403_text_plain :: "'s machine \<Rightarrow> bool" where
  "forbidden_maps_to_403_text_plain m \<longleftrightarrow>
     test_status Forbidden m = FORBIDDEN \<and> test_content_type Forbidden m = Some ''text/plain''"

section \<open>Draining\<close>

text \<open>A body that never ends: the drain returns, at its limit of 50 ms.\<close>

definition drain_gives_up_on_a_body_that_never_ends :: "'s machine \<Rightarrow> bool" where
  "drain_gives_up_on_a_body_that_never_ends m \<longleftrightarrow>
     (case drain_body_within Stalled (from_millis 50) m of
        (rest, m') \<Rightarrow> rest = Stalled \<and> clock m' = clock m + from_millis 50)"

section \<open>The loop on a cursor\<close>

lemma cursor_stream_facts:
  "body_bytes (cursor_stream chunks) = concat chunks" "complete (cursor_stream chunks)"
  "terminates (cursor_stream chunks)"
  by (induction chunks) (simp_all add: cursor_stream_def)

lemma filled_cursor:
  obtains buffer eof where "filled (cursor_stream chunks) n m = Some (Ok (buffer, eof), length buffer)"
    "length buffer \<le> length (concat chunks)"
    "eof \<Longrightarrow> buffer = concat chunks" "eof \<longleftrightarrow> length buffer < n"
proof -
  obtain r rest k m' where f: "fill_loop n ''test-hash'' [] (cursor_stream chunks) 0 m = Some (r, rest, k, m')"
    using fill_loop_returns [OF cursor_stream_facts(3)] by blast
  have post: "fill_post n [] (cursor_stream chunks) 0 r rest k" using fill_loop_post [OF f] by blast
  then obtain buffer eof where r: "r = Ok (buffer, eof)"
    by (cases r) (auto simp: fill_post_def cursor_stream_facts)
  have b: "buffer @ body_bytes rest = concat chunks" "k = length buffer"
    "if eof then length buffer < n \<and> rest = Done else n \<le> length buffer"
    using post r by (auto simp: fill_post_def cursor_stream_facts split: if_splits)
  show ?thesis
  proof (rule that)
    show "filled (cursor_stream chunks) n m = Some (Ok (buffer, eof), length buffer)"
      using f r b(2) by (simp add: filled_def fill_part_def)
    show "length buffer \<le> length (concat chunks)" unfolding b(1) [symmetric] by simp
    show "buffer = concat chunks" if eof using b(1,3) that by simp
    show "eof \<longleftrightarrow> length buffer < n" using b(3) by (simp split: if_splits)
  qed
qed

lemma filled_whole:
  assumes "length (concat chunks) < n"
  shows "filled (cursor_stream chunks) n m = Some (Ok (concat chunks, True), length (concat chunks))"
  using assms by (cases rule: filled_cursor [of chunks n m]) auto

lemma fills_at_boundary:
  assumes "concat chunks = replicate 30 7"
  shows "fill_part_stops_at_part_size_boundary_without_eof chunks m"
proof (cases rule: filled_cursor [of chunks 10 m])
  case (1 buffer eof)
  have "\<not> eof" using 1(3,4) assms by fastforce
  then show ?thesis using 1 assms by (simp add: fill_part_stops_at_part_size_boundary_without_eof_def)
qed

section \<open>The tests hold of the model\<close>

text \<open>The repository's unit tests of \<open>fill_part\<close>, of the errors and of the drain hold of the
  model, however the reader cuts a body into chunks and on whatever machine they run.\<close>

theorem unit_tests_pass:
  assumes "concat five = [1, 2, 3, 4, 5]" "concat thirty = replicate 30 7" "concat none = []"
  shows "fill_part_returns_full_buffer_and_eof_when_body_smaller_than_part_size five m \<and>
    fill_part_stops_at_part_size_boundary_without_eof thirty m \<and>
    fill_part_on_empty_body_reports_eof_with_empty_buffer none m \<and>
    fill_part_maps_stream_read_error_to_client_abort_not_operation_failed m \<and>
    multipart_part_size_meets_s3_minimum \<and>
    client_abort_maps_to_4xx_not_5xx m \<and> s3_operation_failure_maps_to_500 m \<and>
    not_found_maps_to_404 m \<and> already_exists_maps_to_409 m \<and>
    unauthorized_maps_to_401_text_plain m \<and> forbidden_maps_to_403_text_plain m \<and>
    drain_gives_up_on_a_body_that_never_ends m"
proof -
  have "fill_part_returns_full_buffer_and_eof_when_body_smaller_than_part_size five m"
    using filled_whole [of five 1024 m] assms(1)
    by (simp add: fill_part_returns_full_buffer_and_eof_when_body_smaller_than_part_size_def)
  moreover have "fill_part_on_empty_body_reports_eof_with_empty_buffer none m"
    using filled_whole [of none 1024 m] assms(3)
    by (simp add: fill_part_on_empty_body_reports_eof_with_empty_buffer_def)
  moreover have "fill_part_maps_stream_read_error_to_client_abort_not_operation_failed m"
    by (simp add: fill_part_maps_stream_read_error_to_client_abort_not_operation_failed_def filled_def
        fill_part_def fill_loop_step FailingReader_def)
  moreover have "client_abort_maps_to_4xx_not_5xx m" "s3_operation_failure_maps_to_500 m"
    "not_found_maps_to_404 m" "already_exists_maps_to_409 m" "unauthorized_maps_to_401_text_plain m"
    "forbidden_maps_to_403_text_plain m"
    by (simp_all add: client_abort_maps_to_4xx_not_5xx_def s3_operation_failure_maps_to_500_def
        not_found_maps_to_404_def already_exists_maps_to_409_def unauthorized_maps_to_401_text_plain_def
        forbidden_maps_to_403_text_plain_def test_status_def test_content_type_def status_into_response
        into_response_content_type)
  moreover have "multipart_part_size_meets_s3_minimum"
    by (simp add: multipart_part_size_meets_s3_minimum_def MULTIPART_PART_SIZE_def)
  moreover have "drain_gives_up_on_a_body_that_never_ends m"
    by (simp add: drain_gives_up_on_a_body_that_never_ends_def drain_body_within_def)
  ultimately show ?thesis using fills_at_boundary [OF assms(2), of m] by blast
qed

lemma unit_tests_pass_witness:
  "fill_part_returns_full_buffer_and_eof_when_body_smaller_than_part_size [[1, 2], [3], [4, 5]]
     \<lparr>clock = 0, log = [], calls = [], backend = ()\<rparr> \<and>
   fill_part_stops_at_part_size_boundary_without_eof [replicate 9 7, replicate 21 7]
     \<lparr>clock = 0, log = [], calls = [], backend = ()\<rparr>"
proof -
  have "concat [replicate 9 7, replicate 21 7] = (replicate 30 7 :: bytes)"
    by (simp add: replicate_add [symmetric])
  then show ?thesis
    using unit_tests_pass [of "[[1, 2], [3], [4, 5]]" "[replicate 9 7, replicate 21 7]" "[]"
        "\<lparr>clock = 0, log = [], calls = [], backend = ()\<rparr>"] by simp
qed

end
