(* ===== verification/Spec2Isabelle.thy ===== *)
theory Spec2Isabelle
  imports Flight_Spec Deployment Progress_Properties Traffic_Properties Router_Tests Cache_Tests Unit_Tests
begin

text \<open>
  A verification of the Nx remote cache server (\<open>nx-cache-server\<close>, Rust, \<open>src/\<close>).

  \<^bold>\<open>The program.\<close> A server stores build artifacts under content-addressed keys in an S3
  bucket. A PUT of \<open>/v1/cache/{hash}\<close> stores an artifact once, a GET reads it; a service
  token may do both, an optional read-only token only reads. A request passes the
  \<open>Connection: close\<close> layer, the access log, the routes and the authentication before it
  reaches a handler; the handlers call a \<open>StorageProvider\<close>, and GET asks an existence cache
  first, which coalesces concurrent probes and keeps their results for a short time. The
  binary validates its configuration, writes a probe object to the bucket, and serves; a
  task checks every minute that S3 is reachable.

  \<^bold>\<open>The model, by component.\<close>
  \<^item> \<open>Prelude_Lib\<close>, \<open>Rust_Strings\<close>: \<open>Result\<close> as a sum (\<open>Ok\<close>, \<open>Err\<close>), durations and instants in
    nanoseconds, UTF-8, \<open>parse::<u64>\<close>.
  \<^item> \<open>Storage\<close> (\<open>domain/storage.rs\<close>): keys, errors, bodies as timed streams of chunks, the log,
    the \<open>machine\<close> (clock, log, history of S3 requests, state of the world), and the trait as
    a record of operations with its contract, the locale \<open>storage_contract\<close>.
  \<^item> \<open>Http\<close>, \<open>Server_Error\<close> (\<open>server/error.rs\<close>), \<open>Validation\<close> (\<open>server/validation.rs\<close>), \<open>Config\<close>
    (\<open>domain/config.rs\<close>), \<open>Aws_Config\<close> (\<open>AwsStorageConfig\<close> of \<open>infra/aws.rs\<close>).
  \<^item> \<open>Probe_Cache\<close> (\<open>server/probe_cache.rs\<close>): the cache with one caller at a time, and the
    interface its clients use, the locale \<open>existence_cache\<close>. \<open>Single_Flight\<close>, \<open>Flight_Facts\<close>,
    \<open>Flight_Views\<close>: the same cache under concurrency, a step relation between the points
    where a task can be suspended. \<open>Flight_Spec\<close>: its specification, a memory with deadlines.
  \<^item> \<open>S3_Storage\<close> (\<open>fill_part\<close>, \<open>exists\<close>, \<open>store\<close>, \<open>retrieve\<close> of \<open>infra/aws.rs\<close>); \<open>S3_Trace\<close> and
    \<open>S3_Facts\<close>: the requests it sends, for every SDK client, and that it keeps the contract;
    \<open>S3_Service\<close>: what it does to a bucket when the service behaves as documented.
  \<^item> \<open>Server_State\<close>, \<open>Handlers\<close> (\<open>server/handlers.rs\<close>), \<open>Router\<close> (\<open>server/middleware.rs\<close> and
    \<open>create_router\<close>), \<open>Handler_Facts\<close>: their branches, and what holds over every storage
    that keeps the contract.
  \<^item> \<open>Aws_Startup\<close> (\<open>S3Storage::new\<close>), \<open>Server_Run\<close> (\<open>run_server\<close>, the self-probe),
    \<open>Main_Program\<close> (\<open>bin/aws.rs\<close>, \<open>error.rs\<close>).
  \<^item> \<open>Server_Flight\<close>: the server under concurrency, a step relation over any number of
    requests, the self-probe, time and clients that hang up, interleaved at the awaits of the
    handlers. Its cache is the machine of \<open>Single_Flight\<close> and its storage any
    \<open>StorageProvider\<close>, whose operations are one step each. \<open>Server_Flight_Facts\<close>: its steps
    project to steps of the cache.
  \<^item> \<open>Object_Store\<close>: the storage seen through its objects, the locales \<open>object_store\<close> and
    \<open>reporting_store\<close> on top of \<open>storage_contract\<close>, which the S3 storage over a documented
    service satisfies.
  \<^item> \<open>Store_Steps\<close>: \<open>store\<close> one await at a time, a stage for each request it can be suspended
    in; \<open>Store_Pool\<close>: any number of such calls interleaved, with reads beside them and calls
    that are dropped halfway; \<open>Store_Atomic\<close>, \<open>Store_Refinement\<close>: which bytes a stage holds, and
    the specification that the pool refines.
  \<^item> \<open>Full_Server\<close>: the whole server, \<open>Server_Flight\<close> with the \<open>store\<close> of a PUT in the steps of
    \<open>Store_Steps\<close>, interleaved with everything else; a client that hangs up drops its upload,
    whose last request may still reach S3. \<open>Full_Facts\<close>: its invariants; \<open>Full_Embedding\<close>: every
    run of \<open>Server_Flight\<close> is one of its runs; \<open>Full_Solo\<close>: runs in which one request is served
    alone; \<open>Full_Progress\<close>: its steps, answers and log.
    \<open>Probe_Spacing\<close>, \<open>Probe_Traffic\<close>: the slots that one key can get in a given time, and
    what each \<open>HeadObject\<close> of the key is charged to.
  \<^item> \<open>Cluster\<close>: any number of instances over one bucket, as \<open>README.md\<close> deploys them behind a load
    balancer: a list of whole servers, each with its own cache, requests and log. A step is
    one of one member, after which the others find the bucket as it left it, or time that
    passes for all. \<open>Cluster_Facts\<close>: each member keeps the invariants of a server alone while
    the others write; \<open>Cluster_Visibility\<close>: until when a member's cache may deny an object.
  \<^item> \<open>Mock_Server\<close>, \<open>Router_Tests\<close> (\<open>server/mod.rs\<close>), \<open>Cache_Tests\<close> (\<open>server/probe_cache.rs\<close>),
    \<open>Unit_Tests\<close> (\<open>infra/aws.rs\<close>, \<open>server/error.rs\<close>, \<open>server/handlers.rs\<close>): the repository's
    own tests as predicates on the model.

  An operation is a function from its arguments and the machine (or the server's state) to
  its result and the next one. Every await that the code can be left hanging in returns an
  option: \<open>None\<close> means that it never returns. Nothing uses fuel: the upload loop is a
  function with a measure (the rest of the stream, and whether its end was seen), the steps
  of an upload have one too (\<open>steps_left\<close>, at most four per chunk of the body and six more), and
  those of a request (\<open>full_due\<close>, thirteen and four per chunk); the only unbounded loop, the
  self-probe, is modelled turn by turn.

  \<^bold>\<open>What is shown.\<close> The properties are numbered \<open>C1\<close> to \<open>C40\<close> in the order of their
  importance; each stands in the theory of its component.
  \<^item> \<open>S3_Properties\<close>: a successful \<open>store\<close> wrote exactly the body, in one request or in one
    completed upload; a failed one left no upload open but for a refused completion; a
    truncated body is never committed; memory is bounded; failures are logged.
  \<^item> \<open>Server_Properties\<close>, \<open>Body_Properties\<close>, \<open>Read_Properties\<close>: no write without the service
    token; the tables of answers of PUT and GET; no 5xx; bodies are read before the answer;
    every request is answered unless \<open>store\<close> hangs; what was put is what is got.
  \<^item> \<open>Full_Properties\<close>, \<open>Progress_Properties\<close>: under every interleaving of requests and uploads an
    acknowledged write is read, objects and artifacts come whole from authorised writes of
    their key, uploads are atomic and none is left open unlogged, every answer is one its
    request is entitled to, every request has a bounded number of steps and is never
    stranded before its answer, and the access log is the list of the answers in their order.
    A request served alone, whenever time passes, is answered as the sequential router
    computes. The same is shown of \<open>Server_Flight\<close>, for
    other storages too, in \<open>Server_Concurrency\<close> (with \<open>Server_Answers\<close>, \<open>Server_Objects\<close>,
    \<open>Server_Visibility\<close>, \<open>Server_Solo\<close>, \<open>Server_Progress\<close>).
  \<^item> \<open>Traffic_Properties\<close>: what the existence cache saves: the \<open>HeadObject\<close> requests of a key
    grow with time (one in 5 s), its PUTs, failures and clients that hang up, and not with
    the number of GETs.
  \<^item> \<open>Cluster_Properties\<close>: a write that one instance acknowledged is read at every instance, at
    once at the same one and within 5 s or, if an "absent" of S3 was on its way, 60 s at the
    others (a run shows that 5 s are not enough then); what any of them serves comes from an
    authorised write at one of them. \<open>Deployment\<close>: from \<open>main\<close> to the bucket: whatever the
    instances that \<open>main\<close> let serve do, the bucket only gains whole bodies that came with the
    configured service token, and the probe object stays.
  \<^item> \<open>Upload_Properties\<close>: the steps of an upload are \<open>store\<close>; whatever uploads run beside each
    other, a read sees whole bodies only.
  \<^item> \<open>Flight_Views\<close>, \<open>Flight_Spec\<close>, \<open>Cache_Properties\<close>: one probe per slot and, while slots are
    young, per key; answers within their lifetimes; a write is seen; nobody is stranded;
    errors are not cached; the map stays small; under every interleaving the cache is a
    memory that recalls one bit per key until a deadline.
  \<^item> \<open>Key_Properties\<close>, \<open>Startup_Properties\<close>: accepted keys, separated tokens, the conditions of
    a start, the self-probe.
  \<^item> \<open>Mock_Server\<close>, \<open>Router_Tests\<close>, \<open>Cache_Tests\<close>, \<open>Unit_Tests\<close>: the repository's tests hold of
    the model, for every delay, cut of a body and schedule they leave open; a burst of
    callers of one key runs one probe.

  \<^bold>\<open>Assumptions.\<close> Third-party code is an argument: the SDK client (\<open>s3_client\<close>, one function per
  request), the record \<open>deps\<close> (axum's path matching and own responses, \<open>OnceCell\<close>, \<open>subtle\<close>,
  \<open>HeaderValue::to_str\<close>, \<open>ReaderStream\<close>, the Unicode table), the region and credential
  providers, the socket. Its documented behaviour is a predicate per function
  (\<open>once_cell_spec\<close>, \<open>ct_eq_spec\<close>, \<open>s3_documented\<close>, \<open>s3_failures_documented\<close>,
  \<open>uploads_separate\<close>, ...), a hypothesis of the theorems that need it, with a concrete instance
  that satisfies it. Most theorems about S3 need none.

  \<^bold>\<open>What is not modelled.\<close> Parsing of flags and environment variables, TLS and sockets, the
  text of log lines, the load balancer's choice of an instance (any choice is allowed), what
  axum and hyper add after the outermost layer (\<open>Content-Length\<close>, the empty body of a HEAD
  response), and the client's end of the test over a real socket.
  Reading the clock and taking the cache's mutex are one step, and so is reading one part of
  a body: its chunks are not steps. The other storage operations send one request; it takes
  effect at one instant between their call and their return, and a client that hangs up does
  so before that instant or after it, except in an upload, whose last request may come late.
\<close>

end
